(* ===== verification/Prelude.thy ===== *)
theory Prelude
  imports Main
begin

text \<open>
  Shared vocabulary of the development: the state-and-exception functions in which every
  asynchronous function of the gateway is written, the two proof notions used for them
  (\<open>keeps\<close> for frames, \<open>preserves\<close> for invariants) with their rules collected in
  \<open>io_rules\<close>, and a few generic list facts.

  An \<open>async\<close> function of the source becomes a function of the world that returns either
  the exception it rejects with (\<open>Inl\<close>) or the value it resolves to (\<open>Inr\<close>), together
  with the world afterwards. \<open>await m k\<close> is \<open>const x = await m; k\<close>: a rejection
  of \<open>m\<close> propagates, with the effects \<open>m\<close> already had.
\<close>

named_theorems io_run \<open>equations that run a computation on a world\<close>
named_theorems io_rules \<open>introduction rules for keeps and preserves\<close>

type_synonym ('w, 'e, 'a) io = "'w \<Rightarrow> ('e + 'a) \<times> 'w"

section \<open>Computations\<close>

definition pure :: "'a \<Rightarrow> ('w, 'e, 'a) io" where
  "pure x = (\<lambda>w. (Inr x, w))"

definition throw :: "'e \<Rightarrow> ('w, 'e, 'a) io" where
  "throw e = (\<lambda>w. (Inl e, w))"

definition await :: "('w, 'e, 'a) io \<Rightarrow> ('a \<Rightarrow> ('w, 'e, 'b) io) \<Rightarrow> ('w, 'e, 'b) io" where
  "await m k = (\<lambda>w. case m w of (Inl e, w1) \<Rightarrow> (Inl e, w1) | (Inr x, w1) \<Rightarrow> k x w1)"

definition try_catch :: "('w, 'e, 'a) io \<Rightarrow> ('e \<Rightarrow> ('w, 'e, 'a) io) \<Rightarrow> ('w, 'e, 'a) io" where
  "try_catch m h = (\<lambda>w. case m w of (Inl e, w1) \<Rightarrow> h e w1 | (Inr x, w1) \<Rightarrow> (Inr x, w1))"

definition gets :: "('w \<Rightarrow> 'a) \<Rightarrow> ('w, 'e, 'a) io" where
  "gets f = (\<lambda>w. (Inr (f w), w))"

definition modify :: "('w \<Rightarrow> 'w) \<Rightarrow> ('w, 'e, unit) io" where
  "modify f = (\<lambda>w. (Inr (), f w))"

text \<open>A synchronous function that may throw, called from an asynchronous one.\<close>

definition lift :: "'e + 'a \<Rightarrow> ('w, 'e, 'a) io" where
  "lift r = (\<lambda>w. (r, w))"

text \<open>
  \<open>Promise.all (xs.map f)\<close>: every call is made, in order, whatever the others do; the result
  is the first rejection if there is one.
\<close>

fun promise_all :: "('a \<Rightarrow> ('w, 'e, unit) io) \<Rightarrow> 'a list \<Rightarrow> ('w, 'e, unit) io" where
  "promise_all f [] = pure ()"
| "promise_all f (x # xs) = (\<lambda>w. case f x w of (r1, w1) \<Rightarrow> (case promise_all f xs w1 of (r2, w2) \<Rightarrow>
     ((case r1 of Inl e \<Rightarrow> Inl e | Inr _ \<Rightarrow> r2), w2)))"

lemma pure_run [io_run, simp]: "pure x w = (Inr x, w)"
  by (simp add: pure_def)

lemma throw_run [io_run, simp]: "throw e w = (Inl e, w)"
  by (simp add: throw_def)

lemma lift_run [io_run, simp]: "lift r w = (r, w)"
  by (simp add: lift_def)

lemma await_lift_Inr [simp]: "await (lift (Inr x)) k = k x"
  by (rule ext) (simp add: await_def)

lemma await_lift_Inl [simp]: "await (lift (Inl e)) k = throw e"
  by (rule ext) (simp add: await_def throw_def)

lemma gets_run [io_run, simp]: "gets f w = (Inr (f w), w)"
  by (simp add: gets_def)

lemma modify_run [io_run, simp]: "modify f w = (Inr (), f w)"
  by (simp add: modify_def)

lemma await_run [io_run]:
  "await m k w = (case m w of (Inl e, w1) \<Rightarrow> (Inl e, w1) | (Inr x, w1) \<Rightarrow> k x w1)"
  by (simp add: await_def)

lemma await_Inr [simp]: "m w = (Inr x, w1) \<Longrightarrow> await m k w = k x w1"
  by (simp add: await_def)

lemma await_Inl [simp]: "m w = (Inl e, w1) \<Longrightarrow> await m k w = (Inl e, w1)"
  by (simp add: await_def)

lemma await_eq_Inr:
  "await m k w = (Inr y, w') \<longleftrightarrow> (\<exists>x w1. m w = (Inr x, w1) \<and> k x w1 = (Inr y, w'))"
  by (auto simp: await_def split: prod.splits sum.splits)

lemma await_eq_Inl:
  "await m k w = (Inl e, w') \<longleftrightarrow>
     m w = (Inl e, w') \<or> (\<exists>x w1. m w = (Inr x, w1) \<and> k x w1 = (Inl e, w'))"
  by (auto simp: await_def split: prod.splits sum.splits)

lemma await_InrE:
  assumes "await m k w = (Inr y, w')"
  obtains x w1 where "m w = (Inr x, w1)" and "k x w1 = (Inr y, w')"
  using assms by (auto simp: await_eq_Inr)

lemma await_assoc: "await (await m k) h = await m (\<lambda>x. await (k x) h)"
  by (rule ext) (auto simp: await_def split: prod.splits sum.splits)

lemma await_pure [simp]: "await (pure x) k = k x"
  by (rule ext) (simp add: await_def)

lemma pure_await [simp]: "await m pure = m"
  by (rule ext) (auto simp: await_def pure_def split: prod.splits sum.splits)

lemma await_gets [simp]: "await (gets f) k w = k (f w) w"
  by (simp add: await_def)

lemma await_modify [simp]: "await (modify f) k w = k () (f w)"
  by (simp add: await_def)

lemma try_catch_Inr [simp]: "m w = (Inr x, w1) \<Longrightarrow> try_catch m h w = (Inr x, w1)"
  by (simp add: try_catch_def)

lemma try_catch_Inl [simp]: "m w = (Inl e, w1) \<Longrightarrow> try_catch m h w = h e w1"
  by (simp add: try_catch_def)

section \<open>Frames: a projection of the world that a computation leaves alone\<close>

definition keeps :: "('w \<Rightarrow> 'p) \<Rightarrow> ('w, 'e, 'a) io \<Rightarrow> bool" where
  "keeps g m \<longleftrightarrow> (\<forall>w. g (snd (m w)) = g w)"

lemma keepsI: "(\<And>w. g (snd (m w)) = g w) \<Longrightarrow> keeps g m"
  by (simp add: keeps_def)

lemma keepsD: "keeps g m \<Longrightarrow> m w = (r, w') \<Longrightarrow> g w' = g w"
  by (metis keeps_def snd_conv)

lemma keeps_snd: "keeps g m \<Longrightarrow> g (snd (m w)) = g w"
  by (simp add: keeps_def)

lemma keeps_pure [io_rules]: "keeps g (pure x)"
  by (simp add: keeps_def)

lemma keeps_throw [io_rules]: "keeps g (throw e)"
  by (simp add: keeps_def)

lemma keeps_lift [io_rules]: "keeps g (lift r)"
  by (simp add: keeps_def)

lemma keeps_gets [io_rules]: "keeps g (gets f)"
  by (simp add: keeps_def)

lemma keeps_modify [io_rules]: "(\<And>w. g (f w) = g w) \<Longrightarrow> keeps g (modify f)"
  by (simp add: keeps_def)

lemma keeps_await [io_rules]:
  "keeps g m \<Longrightarrow> (\<And>x. keeps g (k x)) \<Longrightarrow> keeps g (await m k)"
  by (auto simp: keeps_def await_def split: prod.splits sum.splits) (metis snd_conv)+

lemma keeps_try_catch [io_rules]:
  "keeps g m \<Longrightarrow> (\<And>e. keeps g (h e)) \<Longrightarrow> keeps g (try_catch m h)"
  by (auto simp: keeps_def try_catch_def split: prod.splits sum.splits) (metis snd_conv)+

lemma keeps_if [io_rules]:
  "(b \<Longrightarrow> keeps g m) \<Longrightarrow> (\<not> b \<Longrightarrow> keeps g m') \<Longrightarrow> keeps g (if b then m else m')"
  by simp

lemma keeps_option [io_rules]:
  "(x = None \<Longrightarrow> keeps g m) \<Longrightarrow> (\<And>y. x = Some y \<Longrightarrow> keeps g (k y)) \<Longrightarrow>
     keeps g (case x of None \<Rightarrow> m | Some y \<Rightarrow> k y)"
  by (cases x) auto

lemma keeps_sum [io_rules]:
  "(\<And>e. x = Inl e \<Longrightarrow> keeps g (m e)) \<Longrightarrow> (\<And>y. x = Inr y \<Longrightarrow> keeps g (k y)) \<Longrightarrow>
     keeps g (case x of Inl e \<Rightarrow> m e | Inr y \<Rightarrow> k y)"
  by (cases x) auto

lemma keeps_prod [io_rules]:
  "(\<And>a b. x = (a, b) \<Longrightarrow> keeps g (k a b)) \<Longrightarrow> keeps g (case x of (a, b) \<Rightarrow> k a b)"
  by (cases x) auto

lemma keeps_let [io_rules]: "keeps g (k x) \<Longrightarrow> keeps g (let y = x in k y)"
  by simp

lemma keeps_promise_all [io_rules]: "(\<And>x. keeps g (f x)) \<Longrightarrow> keeps g (promise_all f xs)"
  by (induction xs) (simp_all add: keeps_def split_beta)

section \<open>Invariants: a predicate of the world that a computation preserves\<close>

definition preserves :: "('w \<Rightarrow> bool) \<Rightarrow> ('w, 'e, 'a) io \<Rightarrow> bool" where
  "preserves I m \<longleftrightarrow> (\<forall>w. I w \<longrightarrow> I (snd (m w)))"

lemma preservesI: "(\<And>w. I w \<Longrightarrow> I (snd (m w))) \<Longrightarrow> preserves I m"
  by (simp add: preserves_def)

lemma preservesD: "preserves I m \<Longrightarrow> m w = (r, w') \<Longrightarrow> I w \<Longrightarrow> I w'"
  by (metis preserves_def snd_conv)

lemma preserves_snd: "preserves I m \<Longrightarrow> I w \<Longrightarrow> I (snd (m w))"
  by (simp add: preserves_def)

lemma preserves_pure [io_rules]: "preserves I (pure x)"
  by (simp add: preserves_def)

lemma preserves_throw [io_rules]: "preserves I (throw e)"
  by (simp add: preserves_def)

lemma preserves_lift [io_rules]: "preserves I (lift r)"
  by (simp add: preserves_def)

lemma preserves_gets [io_rules]: "preserves I (gets f)"
  by (simp add: preserves_def)

lemma preserves_modify [io_rules]: "(\<And>w. I w \<Longrightarrow> I (f w)) \<Longrightarrow> preserves I (modify f)"
  by (simp add: preserves_def)

lemma preserves_await [io_rules]:
  "preserves I m \<Longrightarrow> (\<And>x. preserves I (k x)) \<Longrightarrow> preserves I (await m k)"
  by (auto simp: preserves_def await_def split: prod.splits sum.splits)

lemma preserves_try_catch [io_rules]:
  "preserves I m \<Longrightarrow> (\<And>e. preserves I (h e)) \<Longrightarrow> preserves I (try_catch m h)"
  by (auto simp: preserves_def try_catch_def split: prod.splits sum.splits)

lemma preserves_if [io_rules]:
  "(b \<Longrightarrow> preserves I m) \<Longrightarrow> (\<not> b \<Longrightarrow> preserves I m') \<Longrightarrow>
     preserves I (if b then m else m')"
  by simp

lemma preserves_option [io_rules]:
  "(x = None \<Longrightarrow> preserves I m) \<Longrightarrow> (\<And>y. x = Some y \<Longrightarrow> preserves I (k y)) \<Longrightarrow>
     preserves I (case x of None \<Rightarrow> m | Some y \<Rightarrow> k y)"
  by (cases x) auto

lemma preserves_sum [io_rules]:
  "(\<And>e. x = Inl e \<Longrightarrow> preserves I (m e)) \<Longrightarrow> (\<And>y. x = Inr y \<Longrightarrow> preserves I (k y)) \<Longrightarrow>
     preserves I (case x of Inl e \<Rightarrow> m e | Inr y \<Rightarrow> k y)"
  by (cases x) auto

lemma preserves_prod [io_rules]:
  "(\<And>a b. x = (a, b) \<Longrightarrow> preserves I (k a b)) \<Longrightarrow>
     preserves I (case x of (a, b) \<Rightarrow> k a b)"
  by (cases x) auto

lemma preserves_let [io_rules]: "preserves I (k x) \<Longrightarrow> preserves I (let y = x in k y)"
  by simp

lemma preserves_promise_all [io_rules]:
  "(\<And>x. preserves I (f x)) \<Longrightarrow> preserves I (promise_all f xs)"
  by (induction xs) (simp_all add: preserves_def split_beta)

lemma keeps_preserves: "keeps g m \<Longrightarrow> preserves (\<lambda>w. I (g w)) m"
  by (simp add: keeps_def preserves_def)

section \<open>Sequencing with what the first computation returned\<close>

text \<open>
  The rules above forget what \<open>m\<close> returned. Where an invariant depends on it, this rule
  keeps the equation.
\<close>

lemma preserves_await_run:
  assumes "\<And>w. I w \<Longrightarrow> I (snd (m w))"
    and "\<And>w x w1. I w \<Longrightarrow> m w = (Inr x, w1) \<Longrightarrow> I w1 \<Longrightarrow> I (snd (k x w1))"
  shows "preserves I (await m k)"
proof (rule preservesI)
  fix w assume I: "I w"
  obtain r w1 where m: "m w = (r, w1)" by fastforce
  have I1: "I w1" using assms(1) [OF I] m by simp
  show "I (snd (await m k w))"
    using m I1 assms(2) [OF I] by (cases r) (auto simp: await_def)
qed

section \<open>Pre- and postconditions\<close>

text \<open>
  \<open>hoare Pre m Post\<close>: from a world in \<open>Pre\<close>, the result and the final world of \<open>m\<close>
  satisfy \<open>Post\<close>, whether \<open>m\<close> resolves or rejects. A fixed initial world is carried by a
  free variable of \<open>Pre\<close> and \<open>Post\<close>.
\<close>

definition hoare :: "('w \<Rightarrow> bool) \<Rightarrow> ('w, 'e, 'a) io \<Rightarrow> ('e + 'a \<Rightarrow> 'w \<Rightarrow> bool) \<Rightarrow> bool" where
  "hoare Pre m Post \<longleftrightarrow> (\<forall>w r w'. Pre w \<longrightarrow> m w = (r, w') \<longrightarrow> Post r w')"

lemma hoareI: "(\<And>w r w'. Pre w \<Longrightarrow> m w = (r, w') \<Longrightarrow> Post r w') \<Longrightarrow> hoare Pre m Post"
  by (simp add: hoare_def)

lemma hoareD: "hoare Pre m Post \<Longrightarrow> Pre w \<Longrightarrow> m w = (r, w') \<Longrightarrow> Post r w'"
  by (simp add: hoare_def)

lemma hoare_await:
  assumes "hoare Pre m (\<lambda>r w. case r of Inl e \<Rightarrow> Post (Inl e) w | Inr x \<Rightarrow> Mid x w)"
    and "\<And>x. hoare (Mid x) (k x) Post"
  shows "hoare Pre (await m k) Post"
proof (rule hoareI)
  fix w r w' assume pre: "Pre w" and run: "await m k w = (r, w')"
  obtain r1 w1 where m: "m w = (r1, w1)" by fastforce
  have "case r1 of Inl e \<Rightarrow> Post (Inl e) w1 | Inr x \<Rightarrow> Mid x w1"
    using hoareD [OF assms(1) pre m] .
  then show "Post r w'"
    using m run hoareD [OF assms(2)] by (cases r1) auto
qed

lemma hoare_weaken:
  "hoare Pre' m Post' \<Longrightarrow> (\<And>w. Pre w \<Longrightarrow> Pre' w) \<Longrightarrow> (\<And>r w. Post' r w \<Longrightarrow> Post r w) \<Longrightarrow>
     hoare Pre m Post"
  unfolding hoare_def by blast

lemma hoare_post: "hoare Pre m Post' \<Longrightarrow> (\<And>r w. Post' r w \<Longrightarrow> Post r w) \<Longrightarrow> hoare Pre m Post"
  by (auto simp: hoare_def)

lemma hoare_pure: "(\<And>w. Pre w \<Longrightarrow> Post (Inr x) w) \<Longrightarrow> hoare Pre (pure x) Post"
  by (auto simp: hoare_def)

lemma hoare_throw: "(\<And>w. Pre w \<Longrightarrow> Post (Inl e) w) \<Longrightarrow> hoare Pre (throw e) Post"
  by (auto simp: hoare_def)

lemma hoare_option:
  "(x = None \<Longrightarrow> hoare Pre m Post) \<Longrightarrow> (\<And>y. x = Some y \<Longrightarrow> hoare Pre (k y) Post) \<Longrightarrow>
     hoare Pre (case x of None \<Rightarrow> m | Some y \<Rightarrow> k y) Post"
  by (cases x) auto

lemma hoare_if:
  "(b \<Longrightarrow> hoare Pre m Post) \<Longrightarrow> (\<not> b \<Longrightarrow> hoare Pre m' Post) \<Longrightarrow>
     hoare Pre (if b then m else m') Post"
  by simp

section \<open>Generic list facts\<close>

lemma map_update_id: "(\<And>x. x \<in> set xs \<Longrightarrow> P x \<Longrightarrow> f x = x) \<Longrightarrow> map (\<lambda>x. if P x then f x else x) xs = xs"
  by (induction xs) auto

lemma filter_eq_single:
  assumes "distinct (map f xs)" and "x \<in> set xs"
  shows "filter (\<lambda>y. f y = f x) xs = [x]"
  using assms by (induction xs) (auto simp: filter_empty_conv image_iff)

lemma distinct_map_unique:
  "distinct (map f xs) \<Longrightarrow> x \<in> set xs \<Longrightarrow> y \<in> set xs \<Longrightarrow> f x = f y \<Longrightarrow> x = y"
  by (meson distinct_map inj_onD)

text \<open>\<open>rows[0]\<close> of a query result: \<open>undefined\<close> when there is no row.\<close>

fun row0 :: "'a list \<Rightarrow> 'a option" where
  "row0 [] = None"
| "row0 (x # xs) = Some x"

lemma row0_Some_iff: "row0 xs = Some x \<longleftrightarrow> (\<exists>ys. xs = x # ys)"
  by (cases xs) auto

lemma row0_None_iff [simp]: "row0 xs = None \<longleftrightarrow> xs = []"
  by (cases xs) auto

lemma row0_take [simp]: "row0 (take (Suc n) xs) = row0 xs"
  by (cases xs) auto

lemma row0_filterD: "row0 (filter P xs) = Some x \<Longrightarrow> x \<in> set xs \<and> P x"
  by (auto simp: row0_Some_iff filter_eq_Cons_iff)

lemma row0_filter_None: "row0 (filter P xs) = None \<longleftrightarrow> (\<forall>x \<in> set xs. \<not> P x)"
  by (simp add: filter_empty_conv)

lemma row0_filter_unique:
  "distinct (map f xs) \<Longrightarrow> x \<in> set xs \<Longrightarrow> row0 (filter (\<lambda>y. f y = f x) xs) = Some x"
  by (simp add: filter_eq_single)

end
