(* ===== verification/JsText.thy ===== *)
theory JsText
  imports Prelude
begin

text \<open>
  The string operations of the JavaScript standard library the gateway uses. A string is its
  sequence of UTF-8 bytes (\<open>char\<close>); every separator, prefix and delimiter in the source is
  ASCII, so searching, splitting and slicing at them is the same on bytes and on UTF-16
  units. \<open>trim\<close> and \<open>toLowerCase\<close> are the standard functions on ASCII text, which is
  all they are applied to: bearer tokens, and e-mail addresses that passed the login schema.
\<close>

named_theorems js_text \<open>facts about JavaScript string functions\<close>

section \<open>Prefixes, slices, searching\<close>

definition startsWith :: "string \<Rightarrow> string \<Rightarrow> bool" where
  "startsWith s p \<longleftrightarrow> take (length p) s = p"

definition endsWith :: "string \<Rightarrow> string \<Rightarrow> bool" where
  "endsWith s p \<longleftrightarrow> length p \<le> length s \<and> drop (length s - length p) s = p"

text \<open>\<open>s.search(/[cs]/)\<close>: the index of the first character of the class, \<open>None\<close> for -1.\<close>

fun search :: "(char \<Rightarrow> bool) \<Rightarrow> string \<Rightarrow> nat option" where
  "search P [] = None"
| "search P (c # s) = (if P c then Some 0 else map_option Suc (search P s))"

lemma startsWith_append [js_text]: "startsWith (p @ s) p"
  by (simp add: startsWith_def)

lemma startsWithD: "startsWith s p \<Longrightarrow> s = p @ drop (length p) s"
  unfolding startsWith_def by (metis append_take_drop_id)

lemma search_Some_takeWhile: "search P s = Some i \<Longrightarrow> take i s = takeWhile (\<lambda>c. \<not> P c) s"
  by (induction s arbitrary: i) (auto split: if_splits)

lemma search_None_iff: "search P s = None \<longleftrightarrow> (\<forall>c \<in> set s. \<not> P c)"
  by (induction s) auto

lemma search_Some_less: "search P s = Some i \<Longrightarrow> i < length s \<and> P (s ! i)"
  by (induction s arbitrary: i) (auto split: if_splits)

section \<open>Splitting and joining\<close>

fun split_on :: "char \<Rightarrow> string \<Rightarrow> string list" where
  "split_on c [] = [[]]"
| "split_on c (x # xs) =
     (if x = c then [] # split_on c xs
      else (case split_on c xs of [] \<Rightarrow> [[x]] | y # ys \<Rightarrow> (x # y) # ys))"

fun join :: "string \<Rightarrow> string list \<Rightarrow> string" where
  "join sep [] = []"
| "join sep [x] = x"
| "join sep (x # y # ys) = x @ sep @ join sep (y # ys)"

lemma split_on_not_Nil [simp]: "split_on c s \<noteq> []"
  by (induction s) (auto split: list.splits)

lemma hd_split_on [js_text]: "hd (split_on c s) = takeWhile (\<lambda>x. x \<noteq> c) s"
  by (induction s) (auto split: list.splits)

lemma join_split_on [js_text]: "join [c] (split_on c s) = s"
proof (induction s)
  case Nil
  show ?case by simp
next
  case (Cons x s)
  obtain y ys where sp: "split_on c s = y # ys"
    by (cases "split_on c s") auto
  from Cons.IH show ?case
    by (cases ys) (auto simp: sp)
qed

lemma split_on_fresh: "w \<in> set (split_on c s) \<Longrightarrow> c \<notin> set w"
proof (induction s arbitrary: w)
  case Nil
  then show ?case by simp
next
  case (Cons x s)
  obtain y ys where sp: "split_on c s = y # ys"
    by (cases "split_on c s") auto
  have "c \<notin> set y" using Cons.IH [of y] sp by simp
  with Cons sp show ?case by (auto split: if_splits)
qed

lemma split_on_append_sep: "c \<notin> set w \<Longrightarrow> split_on c (w @ c # s) = w # split_on c s"
  by (induction w) auto

lemma split_on_single: "c \<notin> set w \<Longrightarrow> split_on c w = [w]"
  by (induction w) auto

lemma split_on_join [js_text]:
  "ws \<noteq> [] \<Longrightarrow> \<forall>w \<in> set ws. c \<notin> set w \<Longrightarrow> split_on c (join [c] ws) = ws"
proof (induction "[c]" ws rule: join.induct)
  case (3 x y ys)
  then show ?case by (simp add: split_on_append_sep)
qed (auto simp: split_on_single)

section \<open>trim and toLowerCase\<close>

definition js_space :: "char \<Rightarrow> bool" where
  "js_space c \<longleftrightarrow> (let n = (of_char c :: nat) in n = 32 \<or> 9 \<le> n \<and> n \<le> 13)"

definition trim :: "string \<Rightarrow> string" where
  "trim s = rev (dropWhile js_space (rev (dropWhile js_space s)))"

definition lower_char :: "char \<Rightarrow> char" where
  "lower_char c = (let n = (of_char c :: nat) in if 65 \<le> n \<and> n \<le> 90 then char_of (n + 32) else c)"

definition toLowerCase :: "string \<Rightarrow> string" where
  "toLowerCase s = map lower_char s"

lemma of_char_lower:
  "(of_char (lower_char c) :: nat) =
     (if 65 \<le> (of_char c :: nat) \<and> (of_char c :: nat) \<le> 90 then of_char c + 32 else of_char c)"
proof -
  have "(of_char (char_of (n + 32) :: char) :: nat) = n + 32" if "n \<le> 90" for n :: nat
    using that by simp
  then show ?thesis by (simp add: lower_char_def Let_def)
qed

lemma lower_char_idem [simp]: "lower_char (lower_char c) = lower_char c"
proof -
  have "(of_char (lower_char (lower_char c)) :: nat) = of_char (lower_char c)"
    using of_char_lower [of c] of_char_lower [of "lower_char c"] by (simp split: if_splits)
  then show ?thesis by (simp only: of_char_eq_iff)
qed

lemma js_space_lower [simp]: "js_space (lower_char c) = js_space c"
  using of_char_lower [of c] by (auto simp: js_space_def Let_def split: if_splits)

lemma toLowerCase_idem [js_text]: "toLowerCase (toLowerCase s) = toLowerCase s"
  by (simp add: toLowerCase_def)

lemma dropWhile_lower: "dropWhile js_space (map lower_char s) = map lower_char (dropWhile js_space s)"
  by (induction s) auto

lemma trim_toLowerCase [js_text]: "trim (toLowerCase s) = toLowerCase (trim s)"
  by (simp add: trim_def toLowerCase_def rev_map dropWhile_lower)

lemma dropWhile_fixed: "dropWhile P s = s \<longleftrightarrow> s = [] \<or> \<not> P (hd s)"
  by (cases s) (auto, metis impossible_Cons length_dropWhile_le)

lemma hd_trim: "trim s \<noteq> [] \<Longrightarrow> \<not> js_space (hd (trim s))"
proof -
  let ?d = "dropWhile js_space s"
  assume ne: "trim s \<noteq> []"
  then have "?d \<noteq> []"
    unfolding trim_def by (metis dropWhile.simps(1) rev.simps(1))
  then have h: "\<not> js_space (hd ?d)" by (rule hd_dropWhile)
  obtain ys where ys: "?d = trim s @ ys"
  proof -
    have "rev ?d = takeWhile js_space (rev ?d) @ dropWhile js_space (rev ?d)" by simp
    then have "?d = rev (dropWhile js_space (rev ?d)) @ rev (takeWhile js_space (rev ?d))"
      by (metis rev_append rev_rev_ident)
    then show ?thesis by (intro that) (simp add: trim_def)
  qed
  from ys ne have "hd ?d = hd (trim s)" by simp
  with h show "\<not> js_space (hd (trim s))" by simp
qed

lemma trim_idem [js_text]: "trim (trim s) = trim s"
proof (cases "trim s = []")
  case True
  show ?thesis by (simp only: True) (simp add: trim_def)
next
  case False
  let ?r = "dropWhile js_space (rev (dropWhile js_space s))"
  have r: "rev (trim s) = ?r" by (simp add: trim_def)
  have "dropWhile js_space (trim s) = trim s"
    using hd_trim [OF False] by (simp add: dropWhile_fixed)
  moreover have "dropWhile js_space ?r = ?r"
    by (simp add: dropWhile_idem)
  ultimately show ?thesis
    by (metis r rev_rev_ident trim_def)
qed

section \<open>Decimal numbers in template literals\<close>

definition digit :: "nat \<Rightarrow> char" where
  "digit d = char_of (48 + d)"

fun show_nat :: "nat \<Rightarrow> string" where
  "show_nat n = (if n < 10 then [digit n] else show_nat (n div 10) @ [digit (n mod 10)])"

declare show_nat.simps [simp del]

definition show_int :: "int \<Rightarrow> string" where
  "show_int i = (if i < 0 then CHR ''-'' # show_nat (nat (- i)) else show_nat (nat i))"

definition is_digit :: "char \<Rightarrow> bool" where
  "is_digit c \<longleftrightarrow> 48 \<le> (of_char c :: nat) \<and> (of_char c :: nat) \<le> 57"

definition parse_nat :: "string \<Rightarrow> nat" where
  "parse_nat s = foldl (\<lambda>n c. 10 * n + (of_char c - 48)) 0 s"

lemma of_char_digit: "d < 10 \<Longrightarrow> (of_char (digit d) :: nat) = 48 + d"
  by (simp add: digit_def)

lemma show_nat_digits: "c \<in> set (show_nat n) \<Longrightarrow> is_digit c"
proof (induction n rule: show_nat.induct)
  case (1 n)
  then show ?case
    by (subst (asm) (2) show_nat.simps) (auto simp: is_digit_def of_char_digit split: if_splits)
qed

lemma show_nat_not_Nil [simp]: "show_nat n \<noteq> []"
  by (subst show_nat.simps) simp

lemma parse_show_nat [simp]: "parse_nat (show_nat n) = n"
proof (induction n rule: show_nat.induct)
  case (1 n)
  then show ?case
    by (subst show_nat.simps) (auto simp: parse_nat_def of_char_digit)
qed

lemma show_nat_inject [simp]: "show_nat m = show_nat n \<longleftrightarrow> m = n"
  by (metis parse_show_nat)

lemma colon_not_in_show_nat [simp]: "CHR '':'' \<notin> set (show_nat n)"
  using show_nat_digits [of "CHR '':''" n] by (auto simp: is_digit_def)

lemma minus_not_in_show_nat [simp]: "CHR ''-'' \<notin> set (show_nat n)"
  using show_nat_digits [of "CHR ''-''" n] by (auto simp: is_digit_def)

lemma show_int_inject [simp]: "show_int i = show_int j \<longleftrightarrow> i = j"
proof -
  have "CHR ''-'' # s \<noteq> show_nat n" for s n
    using minus_not_in_show_nat [of n] by (metis list.set_intros(1))
  then have "CHR ''-'' # s \<noteq> show_nat n" and "show_nat n \<noteq> CHR ''-'' # s" for s n
    by metis+
  then show ?thesis by (auto simp: show_int_def)
qed

lemma colon_not_in_show_int [simp]: "CHR '':'' \<notin> set (show_int i)"
  by (simp add: show_int_def)

text \<open>
  A composite key \<open>a:n\<close> determines both parts when the last part has no colon: the fact
  behind every \<open>`${x}:${y}`\<close> key of the source.
\<close>

lemma append_sep_inject:
  assumes "c \<notin> set y" and "c \<notin> set y'" and "x @ c # y = x' @ c # y'"
  shows "x = x' \<and> y = y'"
proof -
  have "rev y @ c # rev x = rev y' @ c # rev x'"
    using arg_cong [OF assms(3), of rev] by simp
  moreover have "takeWhile (\<lambda>d. d \<noteq> c) (rev y @ c # rev x) = rev y"
    using assms(1) by (subst takeWhile_append2) auto
  moreover have "takeWhile (\<lambda>d. d \<noteq> c) (rev y' @ c # rev x') = rev y'"
    using assms(2) by (subst takeWhile_append2) auto
  ultimately have "rev y = rev y'" by simp
  with \<open>rev y @ c # rev x = rev y' @ c # rev x'\<close> show ?thesis by simp
qed

end
