(* ===== verification/Bytes.thy ===== *)
theory Bytes
  imports JsText "HOL-Library.Word"
begin

text \<open>
  Node's \<open>Buffer\<close> as a list of octets, with the encodings the gateway uses: UTF-8 (a string
  is its UTF-8 bytes here), hexadecimal, base64 and base64url, and the 16-bit big-endian
  accessors. \<open>base64_decode\<close> follows Node: characters outside both alphabets are skipped and
  an incomplete last group is dropped.
\<close>

type_synonym bytes = "8 word list"

section \<open>UTF-8 and hexadecimal\<close>

definition utf8 :: "string \<Rightarrow> bytes" where
  "utf8 s = map (\<lambda>c. word_of_nat (of_char c)) s"

definition utf8_string :: "bytes \<Rightarrow> string" where
  "utf8_string b = map (\<lambda>x. char_of (unat x)) b"

lemma unat_byte_of_nat: "n < 256 \<Longrightarrow> unat (word_of_nat n :: 8 word) = n"
  by (simp add: unat_of_nat take_bit_nat_eq_self)

lemma utf8_string_utf8 [simp]: "utf8_string (utf8 s) = s"
proof -
  have "char_of (unat (word_of_nat (of_char c) :: 8 word)) = c" for c
  proof -
    have "(of_char c :: nat) < 256" by simp
    then have "unat (word_of_nat (of_char c) :: 8 word) = of_char c"
      by (rule unat_byte_of_nat)
    then show ?thesis by simp
  qed
  then show ?thesis by (simp add: utf8_string_def utf8_def map_idI)
qed

lemma utf8_inject: "utf8 s = utf8 t \<longleftrightarrow> s = t"
  by (metis utf8_string_utf8)

definition hex_digit :: "nat \<Rightarrow> char" where
  "hex_digit n = (if n < 10 then char_of (48 + n) else char_of (87 + n))"

definition hex :: "bytes \<Rightarrow> string" where
  "hex b = concat (map (\<lambda>x. [hex_digit (unat x div 16), hex_digit (unat x mod 16)]) b)"

lemma of_char_hex_digit: "n < 16 \<Longrightarrow> (of_char (hex_digit n) :: nat) = (if n < 10 then 48 + n else 87 + n)"
  by (simp add: hex_digit_def)

lemma hex_digit_inject:
  assumes "m < 16" and "n < 16" and "hex_digit m = hex_digit n"
  shows "m = n"
proof -
  have "(if m < 10 then 48 + m else 87 + m) = (of_char (hex_digit m) :: nat)"
    using assms(1) by (rule of_char_hex_digit [symmetric])
  also have "\<dots> = (if n < 10 then 48 + n else 87 + n)"
    unfolding assms(3) using assms(2) by (rule of_char_hex_digit)
  finally show ?thesis by (auto split: if_splits)
qed

lemma unat_byte_less [simp]: "unat (x :: 8 word) < 256"
  using unsigned_less [of x] by simp

lemma hex_byte_inject:
  fixes x y :: "8 word"
  assumes "hex_digit (unat x div 16) = hex_digit (unat y div 16)"
    and "hex_digit (unat x mod 16) = hex_digit (unat y mod 16)"
  shows "x = y"
proof -
  have "unat x div 16 < 16" and "unat y div 16 < 16"
    using unat_byte_less [of x] unat_byte_less [of y] by linarith+
  then have "unat x div 16 = unat y div 16" and "unat x mod 16 = unat y mod 16"
    using assms by (auto intro: hex_digit_inject)
  then have "unat x = unat y" by (metis div_mult_mod_eq)
  then show ?thesis by (simp only: word_unat_eq_iff)
qed

lemma hex_inject: "hex a = hex b \<Longrightarrow> a = b"
proof (induction a arbitrary: b)
  case Nil
  then show ?case by (cases b) (auto simp: hex_def)
next
  case (Cons x a)
  then show ?case by (cases b) (auto simp: hex_def dest: hex_byte_inject)
qed

section \<open>Base64\<close>

definition b64_char :: "nat \<Rightarrow> char" where
  "b64_char n = (if n < 26 then char_of (65 + n) else if n < 52 then char_of (71 + n)
     else if n < 62 then char_of (n - 4) else if n = 62 then CHR ''+'' else CHR ''/'')"

text \<open>Decoding accepts the characters of both alphabets, as Node does.\<close>

definition b64_value :: "char \<Rightarrow> nat option" where
  "b64_value c = (let n = (of_char c :: nat) in
     if 65 \<le> n \<and> n \<le> 90 then Some (n - 65)
     else if 97 \<le> n \<and> n \<le> 122 then Some (n - 71)
     else if 48 \<le> n \<and> n \<le> 57 then Some (n + 4)
     else if c = CHR ''+'' \<or> c = CHR ''-'' then Some 62
     else if c = CHR ''/'' \<or> c = CHR ''_'' then Some 63
     else None)"

text \<open>The 6-bit groups of an octet string, and back.\<close>

fun sextets :: "nat list \<Rightarrow> nat list" where
  "sextets [] = []"
| "sextets [a] = [a div 4, (a mod 4) * 16]"
| "sextets [a, b] = [a div 4, (a mod 4) * 16 + b div 16, (b mod 16) * 4]"
| "sextets (a # b # c # xs) =
     (a div 4) # ((a mod 4) * 16 + b div 16) # ((b mod 16) * 4 + c div 64) # (c mod 64) # sextets xs"

fun octets :: "nat list \<Rightarrow> nat list" where
  "octets (p # q # r # s # xs) =
     (p * 4 + q div 16) # ((q mod 16) * 16 + r div 4) # ((r mod 4) * 64 + s) # octets xs"
| "octets [p, q, r] = [p * 4 + q div 16, (q mod 16) * 16 + r div 4]"
| "octets [p, q] = [p * 4 + q div 16]"
| "octets _ = []"

definition b64_pad :: "nat \<Rightarrow> string" where
  "b64_pad n = (if n mod 3 = 1 then ''=='' else if n mod 3 = 2 then ''='' else [])"

definition base64 :: "bytes \<Rightarrow> string" where
  "base64 b = map b64_char (sextets (map unat b)) @ b64_pad (length b)"

definition base64_decode :: "string \<Rightarrow> bytes" where
  "base64_decode s = map word_of_nat (octets (List.map_filter b64_value s))"

definition url_char :: "char \<Rightarrow> char" where
  "url_char c = (if c = CHR ''+'' then CHR ''-'' else if c = CHR ''/'' then CHR ''_'' else c)"

definition base64url :: "bytes \<Rightarrow> string" where
  "base64url b = map (url_char \<circ> b64_char) (sextets (map unat b))"

lemma b64_value_char: "n < 64 \<Longrightarrow> b64_value (b64_char n) = Some n"
  by (auto simp: b64_value_def b64_char_def Let_def)

lemma sextets_less: "\<forall>a \<in> set xs. a < 256 \<Longrightarrow> s \<in> set (sextets xs) \<Longrightarrow> s < 64"
proof (induction xs rule: sextets.induct)
  case (4 a b c xs)
  then have "a < 256" "b < 256" "c < 256" by auto
  then have "a div 4 < 64" "(a mod 4) * 16 + b div 16 < 64" "(b mod 16) * 4 + c div 64 < 64"
    by linarith+
  with 4 show ?case by auto
qed auto

lemma mix_div_mod:
  "y < m \<Longrightarrow> (x * m + y) div m = x" "y < m \<Longrightarrow> (x * m + y) mod m = y" for x y m :: nat
  by simp_all

lemma octets_sextets: "\<forall>a \<in> set xs. a < 256 \<Longrightarrow> octets (sextets xs) = xs"
proof (induction xs rule: sextets.induct)
  case (4 a b c xs)
  then have "b div 16 < 16" and "c div 64 < 4" by auto
  with 4 show ?case by (simp add: mix_div_mod)
next
  case (3 a b)
  then have "b div 16 < 16" by auto
  then show ?case by (simp add: mix_div_mod)
qed auto

lemma map_filter_b64: "\<forall>n \<in> set ns. n < 64 \<Longrightarrow> List.map_filter b64_value (map b64_char ns) = ns"
  by (induction ns) (auto simp: List.map_filter_simps b64_value_char)

lemma map_filter_pad: "List.map_filter b64_value (xs @ b64_pad n) = List.map_filter b64_value xs"
  by (simp add: List.map_filter_def b64_pad_def b64_value_def)

lemma base64_decode_base64 [simp]: "base64_decode (base64 b) = b"
proof -
  have small: "\<forall>a \<in> set (map unat b). a < 256" by simp
  have "List.map_filter b64_value (base64 b) = sextets (map unat b)"
    unfolding base64_def map_filter_pad
    by (rule map_filter_b64) (use sextets_less [OF small] in blast)
  then have "base64_decode (base64 b) = map word_of_nat (map unat b)"
    by (simp add: base64_decode_def octets_sextets [OF small])
  then show ?thesis by (simp add: map_idI)
qed

lemma base64_inject: "base64 a = base64 b \<longleftrightarrow> a = b"
  by (metis base64_decode_base64)

section \<open>writeUInt16BE and readUInt16BE\<close>

text \<open>Node raises a \<open>RangeError\<close> out of range, which is \<open>None\<close> here.\<close>

definition writeUInt16BE :: "nat \<Rightarrow> bytes option" where
  "writeUInt16BE n = (if n < 65536 then Some [word_of_nat (n div 256), word_of_nat (n mod 256)] else None)"

fun readUInt16BE :: "bytes \<Rightarrow> nat option" where
  "readUInt16BE (a # b # _) = Some (unat a * 256 + unat b)"
| "readUInt16BE _ = None"

lemma readUInt16BE_write: "writeUInt16BE n = Some p \<Longrightarrow> readUInt16BE (p @ b) = Some n"
proof -
  assume w: "writeUInt16BE n = Some p"
  then have "n < 65536" by (auto simp: writeUInt16BE_def split: if_splits)
  then have "n div 256 < 256" by linarith
  then have "unat (word_of_nat (n div 256) :: 8 word) = n div 256"
    and "unat (word_of_nat (n mod 256) :: 8 word) = n mod 256"
    by (simp_all add: unat_byte_of_nat)
  with w show ?thesis by (auto simp: writeUInt16BE_def split: if_splits)
qed

lemma length_writeUInt16BE: "writeUInt16BE n = Some p \<Longrightarrow> length p = 2"
  by (auto simp: writeUInt16BE_def split: if_splits)

end
