(* ===== verification/Json.thy ===== *)
theory Json
  imports Bytes
begin

text \<open>
  \<open>JSON.stringify\<close> and \<open>JSON.parse\<close> of the JavaScript standard library, over texts as
  byte sequences (\<open>JsText\<close>). A number is a decimal \<open>mantissa * 10 ^ exponent\<close>; an object
  keeps its members in order, duplicates included, and \<open>member\<close> reads the last one, as
  \<open>JSON.parse\<close> does. The round trip at the end is what the idempotency cache relies on.
\<close>

datatype json =
    JNull
  | JBool bool
  | JNum int int
  | JStr string
  | JArr "json list"
  | JObj "(string \<times> json) list"

definition member :: "string \<Rightarrow> json \<Rightarrow> json option" where
  "member k v = (case v of JObj ms \<Rightarrow> map_of (rev ms) k | _ \<Rightarrow> None)"

definition JInt :: "int \<Rightarrow> json" where
  "JInt i = JNum i 0"

section \<open>JSON.stringify\<close>

definition hex4 :: "nat \<Rightarrow> string" where
  "hex4 n = map hex_digit [n div 4096 mod 16, n div 256 mod 16, n div 16 mod 16, n mod 16]"

definition escape_char :: "char \<Rightarrow> string" where
  "escape_char c = (let n = of_char c :: nat in
     if n = 34 then [CHR 0x5C, CHR 0x22] else if n = 92 then [CHR 0x5C, CHR 0x5C]
     else if n = 8 then CHR 0x5C # ''b'' else if n = 9 then CHR 0x5C # ''t''
     else if n = 10 then CHR 0x5C # ''n'' else if n = 12 then CHR 0x5C # ''f''
     else if n = 13 then CHR 0x5C # ''r''
     else if n < 32 then CHR 0x5C # CHR ''u'' # hex4 n else [c])"

definition quote :: "string \<Rightarrow> string" where
  "quote s = CHR 0x22 # concat (map escape_char s) @ [CHR 0x22]"

fun stringify :: "json \<Rightarrow> string" where
  "stringify JNull = ''null''"
| "stringify (JBool b) = (if b then ''true'' else ''false'')"
| "stringify (JNum m e) = show_int m @ (if e = 0 then [] else ''e'' @ show_int e)"
| "stringify (JStr s) = quote s"
| "stringify (JArr vs) = ''['' @ join '','' (map stringify vs) @ '']''"
| "stringify (JObj ms) = ''{'' @ join '','' (map (\<lambda>(k, v). quote k @ '':'' @ stringify v) ms) @ ''}''"

section \<open>JSON.parse\<close>

definition ws :: "char \<Rightarrow> bool" where
  "ws c \<longleftrightarrow> c \<in> {CHR '' '', CHR 0x09, CHR 0x0A, CHR 0x0D}"

definition skip :: "string \<Rightarrow> string" where
  "skip s = dropWhile ws s"

definition hex_value :: "char \<Rightarrow> nat option" where
  "hex_value c = (let n = of_char c :: nat in
     if 48 \<le> n \<and> n \<le> 57 then Some (n - 48) else if 97 \<le> n \<and> n \<le> 102 then Some (n - 87)
     else if 65 \<le> n \<and> n \<le> 70 then Some (n - 55) else None)"

fun read_hex4 :: "string \<Rightarrow> (nat \<times> string) option" where
  "read_hex4 (a # b # c # d # s) =
     (case (hex_value a, hex_value b, hex_value c, hex_value d) of
        (Some i, Some j, Some k, Some l) \<Rightarrow> Some (4096 * i + 256 * j + 16 * k + l, s)
      | _ \<Rightarrow> None)"
| "read_hex4 _ = None"

definition utf8_char :: "nat \<Rightarrow> string" where
  "utf8_char n = map char_of (
     if n < 128 then [n]
     else if n < 2048 then [192 + n div 64, 128 + n mod 64]
     else if n < 65536 then [224 + n div 4096, 128 + n div 64 mod 64, 128 + n mod 64]
     else [240 + n div 262144, 128 + n div 4096 mod 64, 128 + n div 64 mod 64, 128 + n mod 64])"

text \<open>What follows \<open>\u\<close>: a code unit, or a surrogate pair.\<close>

definition read_unit :: "string \<Rightarrow> (string \<times> string) option" where
  "read_unit s = (case read_hex4 s of None \<Rightarrow> None | Some (n, r) \<Rightarrow>
     if 55296 \<le> n \<and> n < 56320 \<and> take 2 r = [CHR 0x5C, CHR ''u''] then
       (case read_hex4 (drop 2 r) of
          Some (m, r') \<Rightarrow> if 56320 \<le> m \<and> m < 57344
            then Some (utf8_char (65536 + (n - 55296) * 1024 + (m - 56320)), r')
            else Some (utf8_char n, r)
        | None \<Rightarrow> None)
     else Some (utf8_char n, r))"

fun read_escape :: "string \<Rightarrow> (string \<times> string) option" where
  "read_escape [] = None"
| "read_escape (c # s) =
     (let n = of_char c :: nat in
      if n = 34 \<or> n = 92 \<or> n = 47 then Some ([c], s)
      else if c = CHR ''b'' then Some ([CHR 0x08], s) else if c = CHR ''t'' then Some ([CHR 0x09], s)
      else if c = CHR ''n'' then Some ([CHR 0x0A], s) else if c = CHR ''f'' then Some ([CHR 0x0C], s)
      else if c = CHR ''r'' then Some ([CHR 0x0D], s)
      else if c = CHR ''u'' then read_unit s else None)"

lemma read_hex4_length: "read_hex4 s = Some (n, r) \<Longrightarrow> length r < length s"
  by (cases s rule: read_hex4.cases) (auto split: option.splits)

lemma read_escape_length: "read_escape s = Some (d, r) \<Longrightarrow> length r < length s"
  by (cases s) (auto simp: Let_def read_unit_def dest!: read_hex4_length
      split: if_splits option.splits)

text \<open>The rest of a string literal, after its opening quote.\<close>

function read_string :: "string \<Rightarrow> (string \<times> string) option" where
  "read_string [] = None"
| "read_string (c # s) =
     (let n = of_char c :: nat in
      if n = 34 then Some ([], s)
      else if n = 92 then (case read_escape s of None \<Rightarrow> None
        | Some (d, r) \<Rightarrow> map_option (\<lambda>(t, r'). (d @ t, r')) (read_string r))
      else if n < 32 then None
      else map_option (\<lambda>(t, r'). (c # t, r')) (read_string s))"
  by pat_completeness auto
termination
  by (relation "measure length") (auto dest: read_escape_length)

definition read_digits :: "string \<Rightarrow> string \<times> string" where
  "read_digits s = (takeWhile is_digit s, dropWhile is_digit s)"

text \<open>\<open>-? (0 | [1-9][0-9]*) (. [0-9]+)? ([eE] [+-]? [0-9]+)?\<close>\<close>

definition read_frac :: "string \<Rightarrow> (string \<times> string) option" where
  "read_frac s = (if take 1 s = ''.'' then
       (case read_digits (drop 1 s) of (ds, r) \<Rightarrow> if ds = [] then None else Some (ds, r))
     else Some ([], s))"

definition read_exp :: "string \<Rightarrow> (int \<times> string) option" where
  "read_exp s = (if take 1 s = ''e'' \<or> take 1 s = ''E'' then
       (let r = drop 1 s; neg = (take 1 r = ''-''); r1 = (if neg \<or> take 1 r = ''+'' then drop 1 r else r)
        in case read_digits r1 of (ds, r2) \<Rightarrow>
             if ds = [] then None
             else Some ((if neg then - int (parse_nat ds) else int (parse_nat ds)), r2))
     else Some (0, s))"

definition read_number :: "string \<Rightarrow> (json \<times> string) option" where
  "read_number s = (let neg = (take 1 s = ''-''); r = (if neg then drop 1 s else s) in
     case read_digits r of (ds, r1) \<Rightarrow>
       if ds = [] \<or> (1 < length ds \<and> hd ds = CHR ''0'') then None
       else (case read_frac r1 of None \<Rightarrow> None | Some (fs, r2) \<Rightarrow>
         (case read_exp r2 of None \<Rightarrow> None | Some (e, r3) \<Rightarrow>
           let m = int (parse_nat (ds @ fs)) in
           Some (JNum (if neg then - m else m) (e - int (length fs)), r3))))"

text \<open>
  Values, elements, members. The tests \<open>length r < length s\<close> always hold; they make the
  recursion visibly terminating.
\<close>

function read_value :: "string \<Rightarrow> (json \<times> string) option"
  and read_elems :: "string \<Rightarrow> (json list \<times> string) option"
  and read_members :: "string \<Rightarrow> ((string \<times> json) list \<times> string) option" where
  "read_value s = (case skip s of [] \<Rightarrow> None
     | c # r \<Rightarrow>
        if c = CHR 0x22 then map_option (\<lambda>(t, r'). (JStr t, r')) (read_string r)
        else if c = CHR ''['' then
          (if take 1 (skip r) = '']'' then Some (JArr [], drop 1 (skip r))
           else if length r < length s
             then map_option (\<lambda>(vs, r'). (JArr vs, r')) (read_elems r) else None)
        else if c = CHR ''{'' then
          (if take 1 (skip r) = ''}'' then Some (JObj [], drop 1 (skip r))
           else if length r < length s
             then map_option (\<lambda>(ms, r'). (JObj ms, r')) (read_members r) else None)
        else if take 4 (c # r) = ''true'' then Some (JBool True, drop 3 r)
        else if take 5 (c # r) = ''false'' then Some (JBool False, drop 4 r)
        else if take 4 (c # r) = ''null'' then Some (JNull, drop 3 r)
        else read_number (c # r))"
| "read_elems s = (case read_value s of None \<Rightarrow> None
     | Some (v, r) \<Rightarrow> (case skip r of [] \<Rightarrow> None
        | c # r' \<Rightarrow>
           if c = CHR '']'' then Some ([v], r')
           else if c = CHR '','' \<and> length r' < length s
             then map_option (\<lambda>(vs, r''). (v # vs, r'')) (read_elems r')
           else None))"
| "read_members s = (case skip s of [] \<Rightarrow> None
     | q # r0 \<Rightarrow> if q \<noteq> CHR 0x22 then None else (case read_string r0 of None \<Rightarrow> None
        | Some (k, r1) \<Rightarrow> (case skip r1 of [] \<Rightarrow> None
           | c1 # r2 \<Rightarrow> if c1 \<noteq> CHR '':'' \<or> \<not> length r2 < length s then None
              else (case read_value r2 of None \<Rightarrow> None
                 | Some (v, r3) \<Rightarrow> (case skip r3 of [] \<Rightarrow> None
                    | c # r' \<Rightarrow>
                       if c = CHR ''}'' then Some ([(k, v)], r')
                       else if c = CHR '','' \<and> length r' < length s
                         then map_option (\<lambda>(ms, r''). ((k, v) # ms, r'')) (read_members r')
                       else None)))))"
  by pat_completeness auto
termination
  by (relation "measure (\<lambda>x. case x of Inl s \<Rightarrow> 2 * length s
      | Inr (Inl s) \<Rightarrow> 2 * length s + 1 | Inr (Inr s) \<Rightarrow> 2 * length s + 1)") auto

declare read_value.simps [simp del] read_elems.simps [simp del] read_members.simps [simp del]

definition parse :: "string \<Rightarrow> json option" where
  "parse s = (case read_value s of None \<Rightarrow> None
     | Some (v, r) \<Rightarrow> if skip r = [] then Some v else None)"

section \<open>The round trip\<close>

lemma hex_value_digit: "d < 16 \<Longrightarrow> hex_value (hex_digit d) = Some d"
  by (auto simp: hex_value_def hex_digit_def Let_def)

lemma hex4_sum:
  fixes n :: nat
  assumes "n < 65536"
  shows "4096 * (n div 4096) + 256 * (n div 256 mod 16) + 16 * (n div 16 mod 16) + n mod 16 = n"
proof -
  define q1 q2 q3 r0 r1 r2 where "q1 = n div 16" and "q2 = q1 div 16" and "q3 = q2 div 16"
    and "r0 = n mod 16" and "r1 = q1 mod 16" and "r2 = q2 mod 16"
  note defs = this
  have "n div 256 = q2" and "n div 4096 = q3"
    unfolding defs by (simp_all only: div_mult2_eq [symmetric]) simp_all
  moreover have "n = 16 * q1 + r0" and "q1 = 16 * q2 + r1" and "q2 = 16 * q3 + r2"
    unfolding defs by simp_all
  then have "4096 * q3 + 256 * r2 + 16 * r1 + r0 = n" by linarith
  ultimately show ?thesis by (simp flip: defs)
qed

lemma read_hex4_hex4: "n < 65536 \<Longrightarrow> read_hex4 (hex4 n @ r) = Some (n, r)"
  by (simp add: hex4_def hex_value_digit hex4_sum)

lemma char_code: "(of_char c :: nat) = of_char d \<Longrightarrow> c = d"
  by simp

lemma read_string_step:
  "read_string (escape_char c @ s) = map_option (\<lambda>(t, r). (c # t, r)) (read_string s)"
proof -
  let ?n = "of_char c :: nat"
  have c: "c = char_of ?n" by simp
  consider "?n = 34 \<or> ?n = 92" | "?n \<in> {8, 9, 10, 12, 13}" | "?n < 32" "?n \<notin> {8, 9, 10, 12, 13}"
    | "32 \<le> ?n" "?n \<noteq> 34" "?n \<noteq> 92" by force
  then show ?thesis
  proof cases
    case 1
    then have "c = CHR 0x22 \<or> c = CHR 0x5C" by (auto intro: char_code)
    then show ?thesis by (elim disjE) (simp_all add: escape_char_def Let_def)
  next
    case 2
    then have "c \<in> {CHR 0x08, CHR 0x09, CHR 0x0A, CHR 0x0C, CHR 0x0D}" by (auto intro: char_code)
    then show ?thesis by (elim insertE emptyE) (simp_all add: escape_char_def Let_def)
  next
    case 3
    then have e: "escape_char c = CHR 0x5C # CHR ''u'' # hex4 ?n"
      by (auto simp: escape_char_def Let_def)
    have "read_unit (hex4 ?n @ s) = Some ([c], s)"
      using 3 by (simp add: read_unit_def read_hex4_hex4 utf8_char_def)
    then show ?thesis by (simp add: e Let_def)
  next
    case 4
    then show ?thesis by (auto simp: escape_char_def Let_def)
  qed
qed

lemma read_string_quote: "read_string (concat (map escape_char s) @ CHR 0x22 # r) = Some (s, r)"
  by (induction s) (simp_all add: read_string_step)

text \<open>What may follow a value inside a text.\<close>

definition sep :: "string \<Rightarrow> bool" where
  "sep r \<longleftrightarrow> r = [] \<or> hd r \<in> {CHR '','', CHR '']'', CHR ''}''}"

lemma sep_simps [simp]: "sep []" "sep (CHR '','' # r)" "sep (CHR '']'' # r)" "sep (CHR ''}'' # r)"
  by (simp_all add: sep_def)

lemma sep_digits: "sep r \<Longrightarrow> takeWhile is_digit (show_nat n @ r) = show_nat n"
  "sep r \<Longrightarrow> dropWhile is_digit (show_nat n @ r) = r"
proof -
  assume "sep r"
  then have "takeWhile is_digit r = [] \<and> dropWhile is_digit r = r"
    by (cases r) (auto simp: sep_def is_digit_def)
  then show "takeWhile is_digit (show_nat n @ r) = show_nat n"
    "dropWhile is_digit (show_nat n @ r) = r"
    using show_nat_digits by (simp_all add: takeWhile_append dropWhile_append)
qed

lemma hd_show_nat: "0 < n \<Longrightarrow> hd (show_nat n) \<noteq> CHR ''0''"
proof (induction n rule: show_nat.induct)
  case (1 n)
  show ?case
  proof (cases "n < 10")
    case True
    have "digit n \<noteq> CHR ''0''"
    proof
      assume "digit n = CHR ''0''"
      then have "48 + n = of_char (CHR ''0'')" using of_char_digit [OF True] by simp
      then show False using 1(2) by simp
    qed
    then show ?thesis using True by (simp add: show_nat.simps)
  next
    case False
    then have "hd (show_nat (n div 10)) \<noteq> CHR ''0''" using 1(1) by auto
    then show ?thesis using False by (simp add: show_nat.simps [of n])
  qed
qed

lemma show_nat_lead: "\<not> (Suc 0 < length (show_nat n) \<and> hd (show_nat n) = CHR ''0'')"
  using hd_show_nat [of n] by (cases "n = 0") (simp_all add: show_nat.simps [of 0])

lemma show_nat_hd: "\<exists>c t. show_nat n = c # t \<and> is_digit c"
  using show_nat_digits [of "hd (show_nat n)" n] by (cases "show_nat n") auto

lemma read_number_show:
  assumes "sep r"
  shows "read_number (show_int i @ r) = Some (JInt i, r)"
proof -
  have frac: "read_frac r = Some ([], r)" and exp: "read_exp r = Some (0, r)"
    using assms by (auto simp: read_frac_def read_exp_def sep_def) (cases r; auto)+
  have digits: "read_digits (show_nat n @ r) = (show_nat n, r)" for n
    by (simp add: read_digits_def sep_digits [OF assms])
  have head: "take (Suc 0) (show_nat n @ r) \<noteq> ''-''" for n
    using show_nat_hd [of n] by (auto simp: is_digit_def)
  show ?thesis
    using show_nat_lead [of "nat i"] show_nat_lead [of "nat (- i)"]
    by (cases "i < 0") (simp_all add: read_number_def show_int_def Let_def digits head frac exp JInt_def
        del: take_append drop_append)
qed

text \<open>Texts without fractions and exponents: what the gateway writes.\<close>

fun wire_json :: "json \<Rightarrow> bool" where
  "wire_json (JNum m e) = (e = 0)"
| "wire_json (JArr vs) = list_all wire_json vs"
| "wire_json (JObj ms) = list_all (\<lambda>(k, v). wire_json v) ms"
| "wire_json _ = True"

lemma stringify_hd:
  "\<exists>c t. stringify v = c # t \<and> \<not> ws c \<and> c \<noteq> CHR '']'' \<and> c \<noteq> CHR ''}''"
proof (cases v)
  case (JNum m e)
  obtain c t where "show_nat (nat m) = c # t" "is_digit c" using show_nat_hd by blast
  with JNum show ?thesis by (auto simp: show_int_def ws_def is_digit_def)
qed (auto simp: ws_def quote_def)

lemma skip_stringify: "skip (stringify v @ r) = stringify v @ r"
  using stringify_hd [of v] by (auto simp: skip_def)

lemma skip_sep: "sep r \<Longrightarrow> skip r = r"
  by (cases r) (auto simp: sep_def skip_def ws_def)

lemma skip_quote: "skip (quote k @ r) = quote k @ r"
  by (simp add: skip_def quote_def ws_def)

lemma read_elems_join:
  assumes "\<And>v r. v \<in> set vs \<Longrightarrow> sep r \<Longrightarrow> read_value (stringify v @ r) = Some (v, r)" and "vs \<noteq> []"
  shows "read_elems (join '','' (map stringify vs) @ CHR '']'' # r) = Some (vs, r)"
  using assms
proof (induction vs)
  case (Cons v vs)
  show ?case
  proof (cases vs)
    case Nil
    then show ?thesis using Cons(2) by (simp add: read_elems.simps skip_def ws_def)
  next
    case (Cons u us)
    have "read_value (stringify v @ CHR '','' # join '','' (map stringify vs) @ CHR '']'' # r) =
        Some (v, CHR '','' # join '','' (map stringify vs) @ CHR '']'' # r)"
      using Cons.prems(1) by simp
    moreover have "read_elems (join '','' (map stringify vs) @ CHR '']'' # r) = Some (vs, r)"
      using Cons.IH Cons.prems(1) Cons by simp
    ultimately show ?thesis
      by (subst read_elems.simps) (simp add: Cons skip_def ws_def)
  qed
qed simp

lemma join_Cons: "xs \<noteq> [] \<Longrightarrow> join d (x # xs) = x @ d @ join d xs"
  by (cases xs) simp_all

lemma read_member:
  assumes v: "\<And>r. sep r \<Longrightarrow> read_value (stringify v @ r) = Some (v, r)" and "sep r"
  shows "read_members (quote k @ CHR '':'' # stringify v @ r) =
    (case r of [] \<Rightarrow> None | c # r' \<Rightarrow>
       if c = CHR ''}'' then Some ([(k, v)], r')
       else if c = CHR '','' then map_option (\<lambda>(ms, r''). ((k, v) # ms, r'')) (read_members r')
       else None)"
proof -
  have colon: "skip (CHR '':'' # stringify v @ r) = CHR '':'' # stringify v @ r"
    by (simp add: skip_def ws_def)
  show ?thesis
    by (subst read_members.simps)
      (simp add: skip_quote, simp add: quote_def read_string_quote colon v [OF assms(2)] skip_sep [OF assms(2)] split: list.split)
qed

lemma read_members_join:
  assumes "\<And>k v r. (k, v) \<in> set ms \<Longrightarrow> sep r \<Longrightarrow> read_value (stringify v @ r) = Some (v, r)"
    and "ms \<noteq> []"
  shows "read_members (join '','' (map (\<lambda>(k, v). quote k @ '':'' @ stringify v) ms) @ CHR ''}'' # r) =
    Some (ms, r)"
  using assms
proof (induction ms)
  case (Cons m ms)
  obtain k v where m: "m = (k, v)" by fastforce
  have v: "\<And>r. sep r \<Longrightarrow> read_value (stringify v @ r) = Some (v, r)"
    by (rule Cons.prems(1) [of k]) (simp_all add: m)
  show ?case
  proof (cases "ms = []")
    case True
    then show ?thesis using read_member [of v "CHR ''}'' # r" k, OF v] by (simp add: m)
  next
    case False
    have "read_members (join '','' (map (\<lambda>(k, v). quote k @ '':'' @ stringify v) ms) @ CHR ''}'' # r) =
        Some (ms, r)"
      by (rule Cons.IH [OF _ False]) (auto intro: Cons.prems(1))
    then show ?thesis
      using read_member [of v "CHR '','' # join '','' (map (\<lambda>(k, v). quote k @ '':'' @ stringify v) ms) @ CHR ''}'' # r" k, OF v]
      by (simp add: m join_Cons False)
  qed
qed simp

lemma read_value_cons:
  "\<not> ws c \<Longrightarrow> read_value (c # r) = (
        if c = CHR 0x22 then map_option (\<lambda>(t, r'). (JStr t, r')) (read_string r)
        else if c = CHR ''['' then
          (if take 1 (skip r) = '']'' then Some (JArr [], drop 1 (skip r))
           else map_option (\<lambda>(vs, r'). (JArr vs, r')) (read_elems r))
        else if c = CHR ''{'' then
          (if take 1 (skip r) = ''}'' then Some (JObj [], drop 1 (skip r))
           else map_option (\<lambda>(ms, r'). (JObj ms, r')) (read_members r))
        else if take 4 (c # r) = ''true'' then Some (JBool True, drop 3 r)
        else if take 5 (c # r) = ''false'' then Some (JBool False, drop 4 r)
        else if take 4 (c # r) = ''null'' then Some (JNull, drop 3 r)
        else read_number (c # r))"
  by (subst read_value.simps) (simp add: skip_def)

lemma digit_not_ws: "is_digit c \<Longrightarrow> \<not> ws c"
  by (auto simp: is_digit_def ws_def)

lemma read_value_stringify:
  "wire_json v \<Longrightarrow> sep r \<Longrightarrow> read_value (stringify v @ r) = Some (v, r)"
proof (induction v arbitrary: r)
  case JNull
  then show ?case by (simp add: read_value_cons ws_def)
next
  case (JBool b)
  then show ?case by (simp add: read_value_cons ws_def)
next
  case (JNum m e)
  obtain c t where c: "show_int m = c # t" "\<not> ws c" "c = CHR ''-'' \<or> is_digit c"
    using show_nat_hd [of "nat m"]
    by (cases "m < 0") (auto simp: show_int_def digit_not_ws, simp add: ws_def)
  then have ne: "c \<notin> {CHR 0x22, CHR ''['', CHR ''{'', CHR ''t'', CHR ''f'', CHR ''n''}"
    by (auto simp: is_digit_def)
  have "read_number (c # t @ r) = Some (JNum m 0, r)"
    using read_number_show [OF JNum(2), of m] c(1) by (simp add: JInt_def)
  moreover have "e = 0" using JNum(1) by simp
  ultimately show ?case using c(1) ne by (simp add: read_value_cons [OF c(2)])
next
  case (JStr s)
  then show ?case by (simp add: quote_def read_value_cons ws_def read_string_quote)
next
  case (JArr vs)
  show ?case
  proof (cases "vs = []")
    case True
    then show ?thesis by (simp add: read_value_cons ws_def skip_def)
  next
    case False
    then obtain v us where vs: "vs = v # us" by (cases vs) auto
    obtain c t where hd: "stringify v = c # t" "\<not> ws c" "c \<noteq> CHR '']''"
      using stringify_hd [of v] by blast
    have "\<exists>t'. join '','' (map stringify vs) = c # t'"
      using hd(1) vs by (cases us) simp_all
    then obtain t' where "join '','' (map stringify vs) = c # t'" ..
    moreover have "read_elems (join '','' (map stringify vs) @ CHR '']'' # r) = Some (vs, r)"
      using JArr False by (intro read_elems_join) (auto simp: list_all_iff)
    ultimately show ?thesis using hd by (simp add: read_value_cons [of "CHR ''[''"] ws_def skip_def)
  qed
next
  case (JObj ms)
  show ?case
  proof (cases "ms = []")
    case True
    then show ?thesis by (simp add: read_value_cons ws_def skip_def)
  next
    case False
    let ?f = "\<lambda>(k, v). quote k @ '':'' @ stringify v"
    have "\<exists>t'. join '','' (map ?f ms) = CHR 0x22 # t'"
      using False by (cases ms; cases "tl ms") (auto simp: quote_def)
    then obtain t' where "join '','' (map ?f ms) = CHR 0x22 # t'" ..
    moreover have "read_members (join '','' (map ?f ms) @ CHR ''}'' # r) = Some (ms, r)"
      using JObj False by (intro read_members_join) (auto simp: list_all_iff snds.simps)
    ultimately show ?thesis by (simp add: read_value_cons [of "CHR ''{''"] ws_def skip_def)
  qed
qed

lemma parse_stringify: "wire_json v \<Longrightarrow> parse (stringify v) = Some v"
  using read_value_stringify [of v "[]"] by (simp add: parse_def skip_def)

end
