(* ===== verification/Errors.thy ===== *)
theory Errors
  imports JsText
begin

text \<open>
  \<open>src/types/errors.ts\<close> and \<open>src/types/result.ts\<close>: the \<open>AppError\<close> hierarchy, one
  constructor per class with the arguments its JavaScript constructor stores, and the
  \<open>Result\<close> type as a sum. \<open>exn\<close> is everything a function of the gateway can reject
  with: an \<open>AppError\<close>, or an error raised by a service or a library, which the global error
  handler does not know.
\<close>

section \<open>The AppError hierarchy\<close>

type_synonym details = "(string \<times> string) list"

datatype app_error =
    ValidationError string details
  | BadRequestError string "details option"
  | UnauthorizedError string
  | InvalidTokenError string
  | InvalidCredentialsError string
  | TokenExpiredError string
  | TokenRevokedError string
  | TokenReuseDetectedError string
  | ForbiddenError string
  | InsufficientScopeError string
  | NotFoundError string
  | RouteNotFoundError string
  | ConflictError string
  | TooManyRequestsError string
  | UpstreamError string "string option"
  | GatewayTimeoutError string

text \<open>The default messages of the constructors.\<close>

definition unauthorized_default :: app_error where
  "unauthorized_default = UnauthorizedError ''Authentication required''"

definition invalid_credentials_default :: app_error where
  "invalid_credentials_default = InvalidCredentialsError ''Email or password is incorrect''"

definition token_expired_default :: app_error where
  "token_expired_default = TokenExpiredError ''Token has expired''"

definition token_revoked_default :: app_error where
  "token_revoked_default = TokenRevokedError ''Token has been revoked''"

definition token_reuse_default :: app_error where
  "token_reuse_default = TokenReuseDetectedError ''Refresh token reuse detected; session revoked''"

definition too_many_requests_default :: app_error where
  "too_many_requests_default = TooManyRequestsError ''Rate limit exceeded. Please slow down.''"

lemmas error_defaults = unauthorized_default_def invalid_credentials_default_def
  token_expired_default_def token_revoked_default_def token_reuse_default_def
  too_many_requests_default_def

fun code :: "app_error \<Rightarrow> string" where
  "code (ValidationError _ _) = ''VALIDATION_ERROR''"
| "code (BadRequestError _ _) = ''BAD_REQUEST''"
| "code (UnauthorizedError _) = ''unauthorized''"
| "code (InvalidTokenError _) = ''INVALID_TOKEN''"
| "code (InvalidCredentialsError _) = ''invalid_credentials''"
| "code (TokenExpiredError _) = ''token_expired''"
| "code (TokenRevokedError _) = ''token_revoked''"
| "code (TokenReuseDetectedError _) = ''token_reuse_detected''"
| "code (ForbiddenError _) = ''forbidden''"
| "code (InsufficientScopeError _) = ''insufficient_scope''"
| "code (NotFoundError _) = ''NOT_FOUND''"
| "code (RouteNotFoundError _) = ''route_not_found''"
| "code (ConflictError _) = ''CONFLICT''"
| "code (TooManyRequestsError _) = ''rate_limit_exceeded''"
| "code (UpstreamError _ _) = ''bad_gateway''"
| "code (GatewayTimeoutError _) = ''gateway_timeout''"

fun message :: "app_error \<Rightarrow> string" where
  "message (ValidationError m _) = m"
| "message (BadRequestError m _) = m"
| "message (UnauthorizedError m) = m"
| "message (InvalidTokenError m) = m"
| "message (InvalidCredentialsError m) = m"
| "message (TokenExpiredError m) = m"
| "message (TokenRevokedError m) = m"
| "message (TokenReuseDetectedError m) = m"
| "message (ForbiddenError m) = m"
| "message (InsufficientScopeError scope) = ''Requires scope \"'' @ scope @ ''\"''"
| "message (NotFoundError resource) = resource @ '' not found''"
| "message (RouteNotFoundError path) =
     ''No upstream route is configured for '' @ [CHR 0x27] @ path @ [CHR 0x27] @ ''.''"
| "message (ConflictError m) = m"
| "message (TooManyRequestsError m) = m"
| "message (UpstreamError service cause) =
     ''Upstream service \"'' @ service @ ''\" returned an error'' @
       (case cause of Some c \<Rightarrow> if c = [] then ''.'' else '': '' @ c | None \<Rightarrow> ''.'')"
| "message (GatewayTimeoutError service) =
     ''Upstream service \"'' @ service @ ''\" did not respond within the configured timeout.''"

fun statusCode :: "app_error \<Rightarrow> nat" where
  "statusCode (ValidationError _ _) = 400"
| "statusCode (BadRequestError _ _) = 400"
| "statusCode (UnauthorizedError _) = 401"
| "statusCode (InvalidTokenError _) = 401"
| "statusCode (InvalidCredentialsError _) = 401"
| "statusCode (TokenExpiredError _) = 401"
| "statusCode (TokenRevokedError _) = 401"
| "statusCode (TokenReuseDetectedError _) = 401"
| "statusCode (ForbiddenError _) = 403"
| "statusCode (InsufficientScopeError _) = 403"
| "statusCode (NotFoundError _) = 404"
| "statusCode (RouteNotFoundError _) = 404"
| "statusCode (ConflictError _) = 409"
| "statusCode (TooManyRequestsError _) = 429"
| "statusCode (UpstreamError _ _) = 502"
| "statusCode (GatewayTimeoutError _) = 504"

fun error_details :: "app_error \<Rightarrow> details option" where
  "error_details (ValidationError _ d) = Some d"
| "error_details (BadRequestError _ d) = d"
| "error_details (InsufficientScopeError scope) = Some [(''scope'', scope)]"
| "error_details _ = None"

text \<open>The error code alone fixes the HTTP status: clients may switch on either.\<close>

lemma code_determines_status: "code e = code e' \<Longrightarrow> statusCode e = statusCode e'"
  by (cases e; cases e') simp_all

lemma status_is_error: "400 \<le> statusCode e \<and> statusCode e < 600"
  by (cases e) simp_all

section \<open>What a function can reject with\<close>

datatype exn =
    AppExn app_error
  | PgExn string
  | RedisExn string
  | CryptoExn string
  | RangeExn string
  | JsError string

section \<open>Result\<close>

type_synonym ('t, 'e) result = "'e + 't"

definition ok :: "'t \<Rightarrow> ('t, 'e) result" where
  "ok v = Inr v"

definition err :: "'e \<Rightarrow> ('t, 'e) result" where
  "err e = Inl e"

fun isOk :: "('t, 'e) result \<Rightarrow> bool" where
  "isOk (Inr _) = True"
| "isOk (Inl _) = False"

definition isErr :: "('t, 'e) result \<Rightarrow> bool" where
  "isErr r = (\<not> isOk r)"

text \<open>\<open>unwrap\<close> throws the error of an \<open>Err\<close>: \<open>Inl\<close> is the throw.\<close>

definition unwrap :: "('t, 'e) result \<Rightarrow> 'e + 't" where
  "unwrap r = (case r of Inl e \<Rightarrow> Inl e | Inr v \<Rightarrow> Inr v)"

lemma result_cases: "isOk r \<noteq> isErr r"
  by (simp add: isErr_def)

end
