(* ===== verification/Platform.thy ===== *)
theory Platform
  imports Bytes Errors
begin

text \<open>
  What the gateway runs on. \<open>platform\<close> holds the code that is not in the repository (jose,
  bcrypt, the crypto primitives, path-to-regexp, the Redis server, files) as parameters,
  together with the validated environment; \<open>world\<close> is the state: the PostgreSQL tables of
  \<open>src/db/schema.ts\<close>, the Redis server's state, the process's own caches, the clock, the
  random source and the log. Every PostgreSQL or Redis call is one \<open>external call\<close>: it
  takes an unknown time, and PostgreSQL may refuse it or lose its reply. The Redis server is
  specified by the locale \<open>redis_server\<close>; \<open>mem_exec\<close> is a server that satisfies it.
\<close>

section \<open>Environment and tables\<close>

record env =
  PORT :: int
  NODE_ENV :: string
  ALLOWED_ORIGINS :: "string list"
  GATEWAY_BASE_URL :: string
  DATABASE_URL :: string
  REDIS_URL :: string
  JWT_PRIVATE_KEY_PATH :: string
  JWT_PUBLIC_KEY_PATH :: string
  JWT_ALGORITHM :: string
  JWT_KID :: string
  JWT_PREVIOUS_KID :: "string option"
  JWT_PREVIOUS_PUBLIC_KEY_PATH :: "string option"
  ACCESS_TOKEN_TTL_SECONDS :: int
  REFRESH_TOKEN_TTL_SECONDS :: int
  DEFAULT_USER_SCOPE :: string
  ENCRYPTION_KEY :: string
  SAML_SP_ENTITY_ID :: "string option"
  SAML_SP_CALLBACK_URL :: "string option"
  UPSTREAM_SERVICES_CONFIG_PATH :: string
  RATE_LIMIT_WINDOW_MS :: int
  RATE_LIMIT_MAX_REQUESTS :: int
  LOG_LEVEL :: string

text \<open>Timestamps are milliseconds since the epoch; a nullable column is an \<open>option\<close>.\<close>

record user_row =
  ur_id :: string
  ur_email :: string
  ur_emailHash :: string
  ur_passwordHash :: "string option"
  ur_firstName :: "string option"
  ur_lastName :: "string option"
  ur_roles :: "string list"
  ur_authSource :: string
  ur_samlNameId :: "string option"
  ur_tenantId :: "string option"
  ur_isActive :: bool
  ur_emailVerified :: bool
  ur_createdAt :: int
  ur_updatedAt :: int
  ur_lastLoginAt :: "int option"

record refresh_row =
  rt_id :: string
  rt_userId :: string
  rt_tokenHash :: string
  rt_sessionFamily :: string
  rt_clientId :: "string option"
  rt_ipAddress :: "string option"
  rt_userAgent :: "string option"
  rt_issuedAt :: int
  rt_expiresAt :: int
  rt_revokedAt :: "int option"
  rt_revocationReason :: "string option"

record key_row =
  tk_tenantId :: string
  tk_keyVersion :: nat
  tk_wrappedDek :: string
  tk_status :: string
  tk_createdAt :: int
  tk_retiredAt :: "int option"

record audit_row =
  al_id :: string
  al_timestamp :: int
  al_eventType :: string
  al_userId :: "string option"
  al_clientId :: "string option"
  al_ipAddress :: "string option"
  al_userAgent :: "string option"
  al_resource :: "string option"
  al_outcome :: string
  al_failureReason :: "string option"
  al_metadata :: "(string \<times> string) list"

section \<open>Tokens and keys\<close>

datatype auth_method = Password | Saml | Oauth

fun auth_method_string :: "auth_method \<Rightarrow> string" where
  "auth_method_string Password = ''password''"
| "auth_method_string Saml = ''saml''"
| "auth_method_string Oauth = ''oauth''"

record claims =
  cl_sub :: string
  cl_email :: string
  cl_roles :: "string list"
  cl_auth_method :: auth_method
  cl_tenant_id :: "string option"
  cl_scope :: string
  cl_iat :: int
  cl_exp :: int
  cl_nbf :: int
  cl_iss :: string
  cl_aud :: string
  cl_jti :: string

datatype key_like = KeyLike string

record jwk =
  jwk_params :: "(string \<times> string) list"
  jwk_kid :: string
  jwk_use :: string
  jwk_alg :: string

record signing_keys =
  sk_kid :: string
  sk_privateKey :: key_like
  sk_publicKey :: key_like
  sk_previousKid :: "string option"
  sk_previousPublicKey :: "key_like option"

record jwt_header =
  hd_alg :: string
  hd_kid :: string

record verify_options =
  vo_issuer :: string
  vo_audience :: string
  vo_clockTolerance :: int

datatype jose_error = JWTExpired | JoseError string

section \<open>Redis as a command server\<close>

datatype redis_cmd =
    GET string
  | SETEX string string int
  | SETEXNX string string int
  | DEL string
  | INCR string
  | PEXPIRE string int
  | PING

datatype redis_reply = OK | Nil_reply | Bulk string | Num int | Pong

text \<open>A command, the server's time, its state: a reply or an error, and the new state.\<close>

type_synonym 'r redis_fn = "redis_cmd \<Rightarrow> int \<Rightarrow> 'r \<Rightarrow> (string + redis_reply) \<times> 'r"

fun redis_key :: "redis_cmd \<Rightarrow> string option" where
  "redis_key (GET k) = Some k"
| "redis_key (SETEX k _ _) = Some k"
| "redis_key (SETEXNX k _ _) = Some k"
| "redis_key (DEL k) = Some k"
| "redis_key (INCR k) = Some k"
| "redis_key (PEXPIRE k _) = Some k"
| "redis_key PING = None"

text \<open>
  The documented behaviour of the commands, over what a \<open>GET\<close> would see: \<open>view r t k\<close>
  is the live value of \<open>k\<close> at time \<open>t\<close>. A command that fails may or may not have
  been executed.
\<close>

locale redis_server =
  fixes exec :: "'r redis_fn"
    and view :: "'r \<Rightarrow> int \<Rightarrow> string \<Rightarrow> string option"
  assumes other_key:
      "redis_key c \<noteq> Some k \<Longrightarrow> t \<le> t' \<Longrightarrow> view (snd (exec c t r)) t' k = view r t' k"
    and view_expires: "t \<le> t' \<Longrightarrow> view r t' k = Some v \<Longrightarrow> view r t k = Some v"
    and get_reply:
      "exec (GET k) t r = (Inr x, r') \<Longrightarrow>
         x = (case view r t k of None \<Rightarrow> Nil_reply | Some v \<Rightarrow> Bulk v)"
    and get_view: "t \<le> t' \<Longrightarrow> view (snd (exec (GET k) t r)) t' k = view r t' k"
    and set_reply: "0 < s \<Longrightarrow> exec (SETEX k v s) t r = (Inr x, r') \<Longrightarrow> x = OK"
    and set_view:
      "0 < s \<Longrightarrow> exec (SETEX k v s) t r = (Inr x, r') \<Longrightarrow> t \<le> t' \<Longrightarrow>
         view r' t' k = (if t' < t + 1000 * s then Some v else None)"
    and set_fail:
      "0 < s \<Longrightarrow> exec (SETEX k v s) t r = (Inl e, r') \<Longrightarrow>
         (\<forall>t' \<ge> t. view r' t' k = view r t' k) \<or>
         (\<forall>t' \<ge> t. view r' t' k = (if t' < t + 1000 * s then Some v else None))"
    and setnx_taken:
      "view r t k = Some u \<Longrightarrow> exec (SETEXNX k v s) t r = (Inr x, r') \<Longrightarrow>
         x = Nil_reply \<and> (\<forall>t' \<ge> t. view r' t' k = view r t' k)"
    and setnx_free:
      "0 < s \<Longrightarrow> view r t k = None \<Longrightarrow> exec (SETEXNX k v s) t r = (Inr x, r') \<Longrightarrow>
         x = OK \<and> (\<forall>t' \<ge> t. view r' t' k = (if t' < t + 1000 * s then Some v else None))"
    and del_view: "exec (DEL k) t r = (Inr x, r') \<Longrightarrow> t \<le> t' \<Longrightarrow> view r' t' k = None"
    and incr_new:
      "view r t k = None \<Longrightarrow> exec (INCR k) t r = (Inr x, r') \<Longrightarrow>
         x = Num 1 \<and> (\<forall>t' \<ge> t. view r' t' k = Some (show_nat 1))"
    and incr_next:
      "view r t k = Some (show_nat n) \<Longrightarrow> exec (INCR k) t r = (Inr x, r') \<Longrightarrow>
         x = Num (int n + 1) \<and>
         (\<forall>t' \<ge> t. view r' t' k = (if view r t' k = None then None else Some (show_nat (Suc n))))"
    and pexpire_view:
      "exec (PEXPIRE k ms) t r = (Inr x, r') \<Longrightarrow> t \<le> t' \<Longrightarrow>
         view r' t' k = (if t' < t + ms then view r t k else None)"
begin

text \<open>A key no command touches keeps its value until it expires.\<close>

lemma view_frame:
  "redis_key c \<noteq> Some k \<Longrightarrow> t \<le> t' \<Longrightarrow> exec c t r = (x, r') \<Longrightarrow> view r' t' k = view r t' k"
  using other_key [of c k t t' r] by simp

lemma get_frame: "t \<le> t' \<Longrightarrow> exec (GET k) t r = (x, r') \<Longrightarrow> view r' t' k' = view r t' k'"
  by (cases "k' = k") (metis get_view snd_conv, metis other_key redis_key.simps(1) option.inject snd_conv)

lemma view_gone: "t \<le> t' \<Longrightarrow> view r t k = None \<Longrightarrow> view r t' k = None"
  by (metis not_None_eq option.distinct(1) view_expires)

text \<open>Whatever a \<open>SETEX\<close> reports, a live key with the same value stays live.\<close>

lemma set_keeps_value:
  assumes "0 < s" and "view r t' k = Some v" and "t \<le> t'" and "t' < t + 1000 * s"
    and "exec (SETEX k v s) t r = (x, r')"
  shows "view r' t' k = Some v"
  using assms set_view [OF assms(1), of k v t r] set_fail [OF assms(1), of k v t r]
  by (cases x) fastforce+

end

section \<open>A Redis server in memory\<close>

text \<open>Values with an optional expiry instant; a server that is down refuses every command.\<close>

record mem_redis =
  kv :: "string \<Rightarrow> (string \<times> int option) option"
  up :: bool

definition mem_view :: "mem_redis \<Rightarrow> int \<Rightarrow> string \<Rightarrow> string option" where
  "mem_view m t k = (case kv m k of None \<Rightarrow> None
     | Some (v, e) \<Rightarrow> (case e of None \<Rightarrow> Some v | Some x \<Rightarrow> if t < x then Some v else None))"

definition mem_put :: "string \<Rightarrow> (string \<times> int option) option \<Rightarrow> mem_redis \<Rightarrow> mem_redis" where
  "mem_put k e m = m\<lparr>kv := (kv m)(k := e)\<rparr>"

fun mem_cmd :: "redis_cmd \<Rightarrow> int \<Rightarrow> mem_redis \<Rightarrow> (string + redis_reply) \<times> mem_redis" where
  "mem_cmd (GET k) t m = (Inr (case mem_view m t k of None \<Rightarrow> Nil_reply | Some v \<Rightarrow> Bulk v), m)"
| "mem_cmd (SETEX k v s) t m = (Inr OK, mem_put k (Some (v, Some (t + 1000 * s))) m)"
| "mem_cmd (SETEXNX k v s) t m =
     (if mem_view m t k = None then (Inr OK, mem_put k (Some (v, Some (t + 1000 * s))) m)
      else (Inr Nil_reply, m))"
| "mem_cmd (DEL k) t m = (Inr (Num (if mem_view m t k = None then 0 else 1)), mem_put k None m)"
| "mem_cmd (INCR k) t m = (case mem_view m t k of
       None \<Rightarrow> (Inr (Num 1), mem_put k (Some (show_nat 1, None)) m)
     | Some v \<Rightarrow> if v \<noteq> [] \<and> list_all is_digit v
         then (Inr (Num (int (parse_nat v) + 1)),
               mem_put k (Some (show_nat (Suc (parse_nat v)), snd (the (kv m k)))) m)
         else (Inl ''ERR value is not an integer or out of range'', m))"
| "mem_cmd (PEXPIRE k ms) t m = (case mem_view m t k of
       None \<Rightarrow> (Inr (Num 0), mem_put k None m)
     | Some v \<Rightarrow> (Inr (Num 1), mem_put k (Some (v, Some (t + ms))) m))"
| "mem_cmd PING t m = (Inr Pong, m)"

definition mem_exec :: "mem_redis redis_fn" where
  "mem_exec c t m = (if up m then mem_cmd c t m else (Inl ''ECONNREFUSED'', m))"

lemma mem_view_put:
  "mem_view (mem_put k e m) t k' =
     (if k' = k then (case e of None \<Rightarrow> None
        | Some (v, x) \<Rightarrow> (case x of None \<Rightarrow> Some v | Some y \<Rightarrow> if t < y then Some v else None))
      else mem_view m t k')"
  by (simp add: mem_view_def mem_put_def)

lemma mem_other_key:
  "redis_key c \<noteq> Some k \<Longrightarrow> mem_view (snd (mem_exec c t r)) t' k = mem_view r t' k"
  by (cases c) (auto simp: mem_exec_def mem_view_put split: option.splits)

interpretation mem: redis_server mem_exec mem_view
proof (unfold_locales, goal_cases)
  case 1 then show ?case by (simp add: mem_other_key)
next
  case 2 then show ?case by (auto simp: mem_view_def split: option.splits if_splits)
next
  case 12
  then show ?case
    using show_nat_digits
    by (auto simp: mem_exec_def mem_put_def list_all_iff mem_view_def
        split: if_splits option.splits)
qed (auto simp: mem_exec_def mem_put_def mem_view_def split: if_splits option.splits)

end
