(* ===== verification/World.thy ===== *)
theory World
  imports Platform
begin

text \<open>
  The parameters of the model (\<open>platform\<close>), the state of one gateway process and of the
  services it talks to (\<open>world\<close>), and the elementary computations: the clock and the random
  source, a PostgreSQL query, a Redis command, a log line. \<open>src/utils/time.ts\<close> is here too.
\<close>

section \<open>Parameters\<close>

text \<open>
  Code outside the repository: \<open>node:fs\<close>, jose, the primitives of \<open>node:crypto\<close>,
  bcrypt, the Redis server, path-to-regexp (whose \<open>match(pattern)(path)\<close> answers, or throws on
  a pattern it cannot parse or a path it cannot decode) and the string formats of zod. The
  validated environment is here as well.
\<close>

record 'r platform =
  env :: env
  readFile :: "string \<Rightarrow> string + string"
  importPKCS8 :: "string \<Rightarrow> string \<Rightarrow> string + key_like"
  importSPKI :: "string \<Rightarrow> string \<Rightarrow> string + key_like"
  exportJWK :: "key_like \<Rightarrow> (string \<times> string) list"
  jwtSign :: "key_like \<Rightarrow> jwt_header \<Rightarrow> claims \<Rightarrow> string"
  jwtVerify :: "string \<Rightarrow> jwk list \<Rightarrow> verify_options \<Rightarrow> int \<Rightarrow> jose_error + claims"
  sha256 :: "bytes \<Rightarrow> bytes"
  hmacSha256 :: "bytes \<Rightarrow> bytes \<Rightarrow> bytes"
  hkdfSha256 :: "bytes \<Rightarrow> bytes \<Rightarrow> string \<Rightarrow> nat \<Rightarrow> bytes"
  gcmSeal :: "bytes \<Rightarrow> bytes \<Rightarrow> bytes \<Rightarrow> (bytes \<times> bytes) option"
  gcmOpen :: "bytes \<Rightarrow> bytes \<Rightarrow> bytes \<Rightarrow> bytes \<Rightarrow> bytes option"
  bcryptCompare :: "string \<Rightarrow> string \<Rightarrow> bool"
  bcryptHash :: "string \<Rightarrow> nat \<Rightarrow> bytes \<Rightarrow> string"
  redisExec :: "'r redis_fn"
  pathMatch :: "string \<Rightarrow> string \<Rightarrow> string + bool"
  zodEmail :: "string \<Rightarrow> bool"
  zodUuid :: "string \<Rightarrow> bool"
  zodUrl :: "string \<Rightarrow> bool"

section \<open>State\<close>

text \<open>What becomes of the \<open>n\<close>-th external call when it is a PostgreSQL query.\<close>

datatype fate = Served | Refused | ReplyLost

datatype log_level = LogError | LogWarn | LogInfo

record log_line =
  ll_level :: log_level
  ll_message :: string
  ll_meta :: "(string \<times> string) list"

record 'r world =
  users :: "user_row list"
  refresh_tokens :: "refresh_row list"
  tenant_encryption_keys :: "key_row list"
  audit_log :: "audit_row list"
  redis :: 'r
  dekCache :: "(string \<times> bytes) list"
  activeVersionCache :: "(string \<times> nat) list"
  cachedKeys :: "signing_keys option"
  cachedJwksDocument :: "(exn + jwk list) option"
  cachedVerifyKeySet :: "(exn + jwk list) option"
  log_lines :: "log_line list"
  clock :: int
  lag :: "nat \<Rightarrow> nat"
  pg_fate :: "nat \<Rightarrow> fate"
  ext_n :: nat
  uuids :: "nat \<Rightarrow> string"
  entropy :: "nat \<Rightarrow> nat \<Rightarrow> 8 word"
  draws :: nat

type_synonym ('r, 'a) gw = "('r world, exn, 'a) io"

section \<open>Clock, random source, log\<close>

definition tick :: "'r world \<Rightarrow> 'r world" where
  "tick w = w\<lparr>clock := clock w + int (lag w (ext_n w)), ext_n := Suc (ext_n w)\<rparr>"

definition now :: "('r, int) gw" where
  "now = gets clock"

definition randomUUID :: "('r, string) gw" where
  "randomUUID = await (gets (\<lambda>w. uuids w (draws w))) (\<lambda>u.
     await (modify (\<lambda>w. w\<lparr>draws := Suc (draws w)\<rparr>)) (\<lambda>_. pure u))"

definition randomBytes :: "nat \<Rightarrow> ('r, bytes) gw" where
  "randomBytes n = await (gets (\<lambda>w. map (entropy w (draws w)) [0..<n])) (\<lambda>b.
     await (modify (\<lambda>w. w\<lparr>draws := Suc (draws w)\<rparr>)) (\<lambda>_. pure b))"

definition log :: "log_level \<Rightarrow> string \<Rightarrow> (string \<times> string) list \<Rightarrow> ('r, unit) gw" where
  "log l m meta = modify (\<lambda>w. w\<lparr>log_lines := log_lines w @
     [\<lparr>ll_level = l, ll_message = m, ll_meta = meta\<rparr>]\<rparr>)"

lemma randomUUID_run [io_run]:
  "randomUUID w = (Inr (uuids w (draws w)), w\<lparr>draws := Suc (draws w)\<rparr>)"
  by (simp add: randomUUID_def)

lemma randomBytes_run [io_run]:
  "randomBytes n w = (Inr (map (entropy w (draws w)) [0..<n]), w\<lparr>draws := Suc (draws w)\<rparr>)"
  by (simp add: randomBytes_def)

lemma log_run [io_run]:
  "log l m meta w = (Inr (), w\<lparr>log_lines := log_lines w @
     [\<lparr>ll_level = l, ll_message = m, ll_meta = meta\<rparr>]\<rparr>)"
  by (simp add: log_def)

lemma now_run [io_run]: "now w = (Inr (clock w), w)"
  by (simp add: now_def)

lemma keeps_now [io_rules]: "keeps g now"
  by (simp add: now_def keeps_gets)

lemma preserves_now [io_rules]: "preserves I now"
  by (simp add: now_def preserves_gets)

lemma keeps_randomUUID [io_rules]:
  "(\<And>w. g (w\<lparr>draws := Suc (draws w)\<rparr>) = g w) \<Longrightarrow> keeps g randomUUID"
  by (simp add: keeps_def randomUUID_run)

lemma preserves_randomUUID [io_rules]:
  "(\<And>w. I w \<Longrightarrow> I (w\<lparr>draws := Suc (draws w)\<rparr>)) \<Longrightarrow> preserves I randomUUID"
  by (simp add: preserves_def randomUUID_run)

lemma keeps_randomBytes [io_rules]:
  "(\<And>w. g (w\<lparr>draws := Suc (draws w)\<rparr>) = g w) \<Longrightarrow> keeps g (randomBytes n)"
  by (simp add: keeps_def randomBytes_run)

lemma preserves_randomBytes [io_rules]:
  "(\<And>w. I w \<Longrightarrow> I (w\<lparr>draws := Suc (draws w)\<rparr>)) \<Longrightarrow> preserves I (randomBytes n)"
  by (simp add: preserves_def randomBytes_run)

lemma keeps_log [io_rules]:
  "(\<And>w l. g (w\<lparr>log_lines := l\<rparr>) = g w) \<Longrightarrow> keeps g (log l m meta)"
  by (simp add: keeps_def log_run)

lemma preserves_log [io_rules]:
  "(\<And>w l. I w \<Longrightarrow> I (w\<lparr>log_lines := l\<rparr>)) \<Longrightarrow> preserves I (log l m meta)"
  by (simp add: preserves_def log_run)

section \<open>PostgreSQL\<close>

definition pg :: "('r, 'a) gw \<Rightarrow> ('r, 'a) gw" where
  "pg q w = (let w1 = tick w in case pg_fate w (ext_n w) of
       Served \<Rightarrow> q w1
     | Refused \<Rightarrow> (Inl (PgExn ''connection refused''), w1)
     | ReplyLost \<Rightarrow> (Inl (PgExn ''connection terminated''), snd (q w1)))"

text \<open>The rows of a table that satisfy a condition; an update of those rows.\<close>

definition select_rows :: "('r world \<Rightarrow> 'row list) \<Rightarrow> ('row \<Rightarrow> bool) \<Rightarrow> ('r, 'row list) gw" where
  "select_rows table cond = pg (gets (\<lambda>w. filter cond (table w)))"

definition set_where :: "('row \<Rightarrow> bool) \<Rightarrow> ('row \<Rightarrow> 'row) \<Rightarrow> 'row list \<Rightarrow> 'row list" where
  "set_where cond f rows = map (\<lambda>r. if cond r then f r else r) rows"

lemma set_where_Nil [simp]: "set_where c f [] = []"
  by (simp add: set_where_def)

lemma set_where_Cons [simp]: "set_where c f (x # xs) = (if c x then f x else x) # set_where c f xs"
  by (simp add: set_where_def)

lemma map_set_where: "(\<And>r. g (f r) = g r) \<Longrightarrow> map g (set_where c f xs) = map g xs"
  by (induction xs) auto

lemma in_set_where:
  "x \<in> set (set_where c f xs) \<longleftrightarrow> (\<exists>r \<in> set xs. x = (if c r then f r else r))"
  by (auto simp: set_where_def)

lemma set_where_none: "\<forall>r \<in> set xs. \<not> c r \<Longrightarrow> set_where c f xs = xs"
  by (induction xs) auto

text \<open>Every query fails or runs at the ticked world; \<open>served\<close> is the good case.\<close>

lemma pg_Inr:
  "pg q w = (Inr x, w') \<longleftrightarrow> pg_fate w (ext_n w) = Served \<and> q (tick w) = (Inr x, w')"
  by (auto simp: pg_def Let_def split: fate.splits)

lemma pg_cases:
  assumes "pg q w = (r, w')"
  obtains "w' = tick w" | "w' = snd (q (tick w))"
  using assms by (auto simp: pg_def Let_def split: fate.splits)

lemma keeps_pg [io_rules]:
  "(\<And>w. g (tick w) = g w) \<Longrightarrow> keeps g q \<Longrightarrow> keeps g (pg q)"
  by (auto simp: keeps_def pg_def Let_def split: fate.splits)

lemma preserves_pg [io_rules]:
  "(\<And>w. I w \<Longrightarrow> I (tick w)) \<Longrightarrow> preserves I q \<Longrightarrow> preserves I (pg q)"
  by (auto simp: preserves_def pg_def Let_def split: fate.splits)

lemma keeps_select [io_rules]: "(\<And>w. g (tick w) = g w) \<Longrightarrow> keeps g (select_rows t c)"
  by (simp add: select_rows_def keeps_pg keeps_gets)

lemma preserves_select [io_rules]: "(\<And>w. I w \<Longrightarrow> I (tick w)) \<Longrightarrow> preserves I (select_rows t c)"
  by (simp add: select_rows_def preserves_pg preserves_gets)

lemma select_Inr:
  "select_rows t c w = (Inr x, w') \<longleftrightarrow>
     pg_fate w (ext_n w) = Served \<and> w' = tick w \<and> x = filter c (t (tick w))"
  by (auto simp: select_rows_def pg_Inr)

text \<open>Transactions: a failure anywhere, or of the commit, restores the tables.\<close>

definition rollback :: "'r world \<Rightarrow> 'r world \<Rightarrow> 'r world" where
  "rollback w0 w = w\<lparr>users := users w0, refresh_tokens := refresh_tokens w0,
     tenant_encryption_keys := tenant_encryption_keys w0, audit_log := audit_log w0\<rparr>"

definition transaction :: "('r, 'a) gw \<Rightarrow> ('r, 'a) gw" where
  "transaction body w0 = (case body w0 of
       (Inl e, w1) \<Rightarrow> (Inl e, rollback w0 w1)
     | (Inr x, w1) \<Rightarrow> (case pg_fate w1 (ext_n w1) of
           Served \<Rightarrow> (Inr x, tick w1)
         | Refused \<Rightarrow> (Inl (PgExn ''connection refused''), rollback w0 (tick w1))
         | ReplyLost \<Rightarrow> (Inl (PgExn ''connection terminated''), tick w1)))"

section \<open>Redis\<close>

definition redis_call :: "'r platform \<Rightarrow> redis_cmd \<Rightarrow> ('r, redis_reply) gw" where
  "redis_call P c w = (let w1 = tick w in
     case redisExec P c (clock w1) (redis w1) of
       (Inl m, r) \<Rightarrow> (Inl (RedisExn m), w1\<lparr>redis := r\<rparr>)
     | (Inr x, r) \<Rightarrow> (Inr x, w1\<lparr>redis := r\<rparr>))"

lemma keeps_redis [io_rules]:
  "(\<And>w. g (tick w) = g w) \<Longrightarrow> (\<And>w r. g (w\<lparr>redis := r\<rparr>) = g w) \<Longrightarrow> keeps g (redis_call P c)"
  by (auto simp: keeps_def redis_call_def Let_def split: prod.splits sum.splits)

lemma preserves_redis [io_rules]:
  "(\<And>w. I w \<Longrightarrow> I (tick w)) \<Longrightarrow> (\<And>w r. I w \<Longrightarrow> I (w\<lparr>redis := r\<rparr>)) \<Longrightarrow>
     preserves I (redis_call P c)"
  by (auto simp: preserves_def redis_call_def Let_def split: prod.splits sum.splits)

lemma redis_Inr:
  "redis_call P c w = (Inr x, w') \<longleftrightarrow>
     (\<exists>r. redisExec P c (clock (tick w)) (redis w) = (Inr x, r) \<and> w' = (tick w)\<lparr>redis := r\<rparr>)"
  by (auto simp: redis_call_def Let_def tick_def split: prod.splits sum.splits)

lemma redis_run:
  "redis_call P c w = (res, w') \<Longrightarrow>
     \<exists>x r. redisExec P c (clock (tick w)) (redis w) = (x, r) \<and> w' = (tick w)\<lparr>redis := r\<rparr>
       \<and> (case x of Inl m \<Rightarrow> res = Inl (RedisExn m) | Inr y \<Rightarrow> res = Inr y)"
  by (auto simp: redis_call_def Let_def tick_def split: prod.splits sum.splits)

section \<open>Projections of a ticked world\<close>

lemma tick_simps [simp]:
  "users (tick w) = users w" "refresh_tokens (tick w) = refresh_tokens w"
  "tenant_encryption_keys (tick w) = tenant_encryption_keys w" "audit_log (tick w) = audit_log w"
  "redis (tick w) = redis w" "dekCache (tick w) = dekCache w"
  "activeVersionCache (tick w) = activeVersionCache w" "cachedKeys (tick w) = cachedKeys w"
  "cachedJwksDocument (tick w) = cachedJwksDocument w"
  "cachedVerifyKeySet (tick w) = cachedVerifyKeySet w" "log_lines (tick w) = log_lines w"
  "lag (tick w) = lag w" "pg_fate (tick w) = pg_fate w" "ext_n (tick w) = Suc (ext_n w)"
  "uuids (tick w) = uuids w" "entropy (tick w) = entropy w" "draws (tick w) = draws w"
  by (simp_all add: tick_def)

lemma clock_tick: "clock w \<le> clock (tick w)"
  by (simp add: tick_def)

lemma rollback_simps [simp]:
  "users (rollback w0 w) = users w0" "refresh_tokens (rollback w0 w) = refresh_tokens w0"
  "tenant_encryption_keys (rollback w0 w) = tenant_encryption_keys w0"
  "audit_log (rollback w0 w) = audit_log w0"
  "redis (rollback w0 w) = redis w" "dekCache (rollback w0 w) = dekCache w"
  "activeVersionCache (rollback w0 w) = activeVersionCache w" "clock (rollback w0 w) = clock w"
  "log_lines (rollback w0 w) = log_lines w" "ext_n (rollback w0 w) = ext_n w"
  "draws (rollback w0 w) = draws w"
  by (simp_all add: rollback_def)

section \<open>src/utils/time.ts\<close>

definition ceil_div :: "int \<Rightarrow> int \<Rightarrow> int" where
  "ceil_div a b = - ((- a) div b)"

definition secondsFromNow :: "int \<Rightarrow> ('r, int) gw" where
  "secondsFromNow seconds = await now (\<lambda>t. pure (t + seconds * 1000))"

definition isPast :: "int \<Rightarrow> ('r, bool) gw" where
  "isPast date = await now (\<lambda>t. pure (date \<le> t))"

definition ttlSecondsUntil :: "int \<Rightarrow> ('r, int) gw" where
  "ttlSecondsUntil date = await now (\<lambda>t. pure (max 0 (ceil_div (date - t) 1000)))"

lemma secondsFromNow_run [io_run]: "secondsFromNow s w = (Inr (clock w + s * 1000), w)"
  by (simp add: secondsFromNow_def now_def)

lemma isPast_run [io_run]: "isPast d w = (Inr (d \<le> clock w), w)"
  by (simp add: isPast_def now_def)

lemma ttl_run [io_run]: "ttlSecondsUntil d w = (Inr (max 0 (ceil_div (d - clock w) 1000)), w)"
  by (simp add: ttlSecondsUntil_def now_def)

lemma keeps_time [io_rules]: "keeps g (secondsFromNow s)" "keeps g (isPast d)" "keeps g (ttlSecondsUntil d)"
  by (simp_all add: keeps_def io_run)

lemma preserves_time [io_rules]:
  "preserves I (secondsFromNow s)" "preserves I (isPast d)" "preserves I (ttlSecondsUntil d)"
  by (simp_all add: preserves_def io_run)

text \<open>
  The TTL in whole seconds is the least that does not end before the date: a Redis key set
  with it outlives the token it stands for, by less than a second.
\<close>

lemma ttl_covers: "d \<le> t + 1000 * max 0 (ceil_div (d - t) 1000)"
  by (simp add: ceil_div_def)

lemma ttl_tight: "0 < ceil_div (d - t) 1000 \<Longrightarrow> t + 1000 * ceil_div (d - t) 1000 < d + 1000"
  by (simp add: ceil_div_def)

lemma ttl_zero_iff: "max 0 (ceil_div (d - t) 1000) \<le> 0 \<longleftrightarrow> d \<le> t"
  by (simp add: ceil_div_def pos_imp_zdiv_nonneg_iff)

end
