(* ===== verification/Envelope.thy ===== *)
theory Envelope
  imports World
begin

text \<open>
  The symmetric half of \<open>src/utils/crypto.ts\<close>: subkeys derived from \<open>ENCRYPTION_KEY\<close>,
  AES-256-GCM blobs (\<open>iv || authTag || ciphertext\<close> in base64), the DEK envelope with its
  two-byte key version, and the e-mail lookup digest. The primitives of \<open>node:crypto\<close> are
  parameters; what is used of AES-GCM is \<open>gcm_laws\<close>.
\<close>

section \<open>What is documented of AES-256-GCM\<close>

text \<open>
  With a 32-byte key and a 12-byte nonce, sealing succeeds with a 16-byte tag, and opening with
  the same key, nonce and tag returns the plaintext; any other opening with a full tag fails.
\<close>

definition gcm_laws :: "'r platform \<Rightarrow> bool" where
  "gcm_laws P \<longleftrightarrow>
     (\<forall>k iv pt. length k = 32 \<longrightarrow> length iv = 12 \<longrightarrow>
        (\<exists>ct tag. gcmSeal P k iv pt = Some (ct, tag) \<and> length tag = 16 \<and>
           gcmOpen P k iv tag ct = Some pt)) \<and>
     (\<forall>k iv tag ct pt. length tag = 16 \<longrightarrow> gcmOpen P k iv tag ct = Some pt \<longrightarrow>
        gcmSeal P k iv pt = Some (ct, tag))"

definition hkdf_laws :: "'r platform \<Rightarrow> bool" where
  "hkdf_laws P \<longleftrightarrow> (\<forall>k salt info n. length (hkdfSha256 P k salt info n) = n)"

section \<open>Keys\<close>

definition GCM_IV_LENGTH :: nat where
  "GCM_IV_LENGTH = 12"

definition GCM_AUTH_TAG_LENGTH :: nat where
  "GCM_AUTH_TAG_LENGTH = 16"

definition masterKey :: "'r platform \<Rightarrow> bytes" where
  "masterKey P = base64_decode (ENCRYPTION_KEY (env P))"

definition deriveKey :: "'r platform \<Rightarrow> string \<Rightarrow> bytes" where
  "deriveKey P info = hkdfSha256 P (masterKey P) [] info 32"

definition emailHmacKey :: "'r platform \<Rightarrow> bytes" where
  "emailHmacKey P = deriveKey P ''app-gateway:email-lookup:hmac-sha256''"

definition tenantKekKey :: "'r platform \<Rightarrow> bytes" where
  "tenantKekKey P = deriveKey P ''app-gateway:tenant-dek-wrap:aes-256-gcm''"

definition idempotencyCacheKey :: "'r platform \<Rightarrow> bytes" where
  "idempotencyCacheKey P = deriveKey P ''app-gateway:idempotency-cache:aes-256-gcm''"

lemma length_deriveKey: "hkdf_laws P \<Longrightarrow> length (deriveKey P i) = 32"
  by (simp add: hkdf_laws_def deriveKey_def)

section \<open>AES-256-GCM blobs\<close>

definition encryptWithKey :: "'r platform \<Rightarrow> bytes \<Rightarrow> bytes \<Rightarrow> ('r, string) gw" where
  "encryptWithKey P key plaintext =
     await (randomBytes GCM_IV_LENGTH) (\<lambda>iv.
     case gcmSeal P key iv plaintext of
       None \<Rightarrow> throw (CryptoExn ''Invalid key length'')
     | Some (ciphertext, authTag) \<Rightarrow> pure (base64 (iv @ authTag @ ciphertext)))"

definition decryptWithKey :: "'r platform \<Rightarrow> bytes \<Rightarrow> string \<Rightarrow> exn + bytes" where
  "decryptWithKey P key encoded =
     (let raw = base64_decode encoded;
          iv = take GCM_IV_LENGTH raw;
          authTag = take GCM_AUTH_TAG_LENGTH (drop GCM_IV_LENGTH raw);
          ciphertext = drop (GCM_IV_LENGTH + GCM_AUTH_TAG_LENGTH) raw
      in case gcmOpen P key iv authTag ciphertext of
           None \<Rightarrow> Inl (CryptoExn ''Unsupported state or unable to authenticate data'')
         | Some pt \<Rightarrow> Inr pt)"

definition wrapDek :: "'r platform \<Rightarrow> bytes \<Rightarrow> ('r, string) gw" where
  "wrapDek P rawDek = encryptWithKey P (tenantKekKey P) rawDek"

definition unwrapDek :: "'r platform \<Rightarrow> string \<Rightarrow> exn + bytes" where
  "unwrapDek P wrapped = decryptWithKey P (tenantKekKey P) wrapped"

definition encryptIdempotencyCacheValue :: "'r platform \<Rightarrow> string \<Rightarrow> ('r, string) gw" where
  "encryptIdempotencyCacheValue P plaintext = encryptWithKey P (idempotencyCacheKey P) (utf8 plaintext)"

definition decryptIdempotencyCacheValue :: "'r platform \<Rightarrow> string \<Rightarrow> exn + string" where
  "decryptIdempotencyCacheValue P encoded =
     map_sum id utf8_string (decryptWithKey P (idempotencyCacheKey P) encoded)"

section \<open>The DEK envelope\<close>

definition encryptWithDek :: "'r platform \<Rightarrow> bytes \<Rightarrow> nat \<Rightarrow> string \<Rightarrow> ('r, string) gw" where
  "encryptWithDek P dek keyVersion plaintext =
     (case writeUInt16BE keyVersion of
       None \<Rightarrow> throw (RangeExn ''The value of value is out of range'')
     | Some versionPrefix \<Rightarrow>
         await (encryptWithKey P dek (utf8 plaintext)) (\<lambda>s.
         let body = base64_decode s in pure (base64 (versionPrefix @ body))))"

record dek_envelope =
  env_keyVersion :: nat
  env_body :: string

definition parseDekCiphertextEnvelope :: "string \<Rightarrow> exn + dek_envelope" where
  "parseDekCiphertextEnvelope encoded =
     (let raw = base64_decode encoded in case readUInt16BE raw of
        None \<Rightarrow> Inl (RangeExn ''Attempt to access memory outside buffer bounds'')
      | Some keyVersion \<Rightarrow> Inr \<lparr>env_keyVersion = keyVersion, env_body = base64 (drop 2 raw)\<rparr>)"

definition decryptWithDek :: "'r platform \<Rightarrow> bytes \<Rightarrow> string \<Rightarrow> exn + string" where
  "decryptWithDek P dek encoded = (case parseDekCiphertextEnvelope encoded of
       Inl e \<Rightarrow> Inl e
     | Inr e \<Rightarrow> map_sum id utf8_string (decryptWithKey P dek (env_body e)))"

definition hashEmail :: "'r platform \<Rightarrow> string \<Rightarrow> string" where
  "hashEmail P plaintext =
     (let normalized = toLowerCase (trim plaintext)
      in hex (hmacSha256 P (emailHmacKey P) (utf8 normalized)))"

section \<open>Encrypting\<close>

lemma keeps_encryptWithKey [io_rules]:
  "(\<And>w n. g (w\<lparr>draws := n\<rparr>) = g w) \<Longrightarrow> keeps g (encryptWithKey P k pt)"
  unfolding encryptWithKey_def by (intro io_rules) auto

lemma preserves_encryptWithKey [io_rules]:
  "(\<And>w n. I w \<Longrightarrow> I (w\<lparr>draws := n\<rparr>)) \<Longrightarrow> preserves I (encryptWithKey P k pt)"
  unfolding encryptWithKey_def by (intro io_rules) auto

lemma keeps_wrapDek [io_rules]:
  "(\<And>w n. g (w\<lparr>draws := n\<rparr>) = g w) \<Longrightarrow> keeps g (wrapDek P d)"
  unfolding wrapDek_def by (rule keeps_encryptWithKey)

lemma preserves_wrapDek [io_rules]:
  "(\<And>w n. I w \<Longrightarrow> I (w\<lparr>draws := n\<rparr>)) \<Longrightarrow> preserves I (wrapDek P d)"
  unfolding wrapDek_def by (rule preserves_encryptWithKey)

lemma keeps_encryptIdem [io_rules]:
  "(\<And>w n. g (w\<lparr>draws := n\<rparr>) = g w) \<Longrightarrow> keeps g (encryptIdempotencyCacheValue P s)"
  unfolding encryptIdempotencyCacheValue_def by (rule keeps_encryptWithKey)

lemma preserves_encryptIdem [io_rules]:
  "(\<And>w n. I w \<Longrightarrow> I (w\<lparr>draws := n\<rparr>)) \<Longrightarrow>
     preserves I (encryptIdempotencyCacheValue P s)"
  unfolding encryptIdempotencyCacheValue_def by (rule preserves_encryptWithKey)

lemma keeps_encryptWithDek [io_rules]:
  "(\<And>w n. g (w\<lparr>draws := n\<rparr>) = g w) \<Longrightarrow> keeps g (encryptWithDek P d v s)"
  unfolding encryptWithDek_def Let_def by (intro io_rules) auto

lemma encryptWithKey_Inr:
  "encryptWithKey P k pt w = (Inr s, w') \<Longrightarrow>
     \<exists>ct tag. let iv = map (entropy w (draws w)) [0..<12] in
       gcmSeal P k iv pt = Some (ct, tag) \<and> s = base64 (iv @ tag @ ct)
       \<and> w' = w\<lparr>draws := Suc (draws w)\<rparr>"
  by (auto simp: encryptWithKey_def await_run randomBytes_run GCM_IV_LENGTH_def
      split: option.splits)

lemma encryptWithKey_total:
  assumes "gcm_laws P" and "length k = 32"
  shows "\<exists>s. encryptWithKey P k pt w = (Inr s, w\<lparr>draws := Suc (draws w)\<rparr>)"
proof -
  have "length (map (entropy w (draws w)) [0..<12]) = 12" by simp
  then obtain ct tag where "gcmSeal P k (map (entropy w (draws w)) [0..<12]) pt = Some (ct, tag)"
    using assms unfolding gcm_laws_def by blast
  then show ?thesis
    by (simp add: encryptWithKey_def await_run randomBytes_run GCM_IV_LENGTH_def)
qed

lemma decrypt_base64:
  "length iv = 12 \<Longrightarrow> length tag = 16 \<Longrightarrow>
     decryptWithKey P k (base64 (iv @ tag @ ct)) =
       (case gcmOpen P k iv tag ct of
          None \<Rightarrow> Inl (CryptoExn ''Unsupported state or unable to authenticate data'')
        | Some pt \<Rightarrow> Inr pt)"
  by (simp add: decryptWithKey_def GCM_IV_LENGTH_def GCM_AUTH_TAG_LENGTH_def)

text \<open>The round trip of \<open>encryptWithKey\<close> and \<open>decryptWithKey\<close>.\<close>

lemma decrypt_encrypt:
  assumes "gcm_laws P" and "length k = 32" and "encryptWithKey P k pt w = (Inr s, w')"
  shows "decryptWithKey P k s = Inr pt"
proof -
  let ?iv = "map (entropy w (draws w)) [0..<12]"
  obtain ct tag where seal: "gcmSeal P k ?iv pt = Some (ct, tag)"
    and s: "s = base64 (?iv @ tag @ ct)"
    using encryptWithKey_Inr [OF assms(3)] by (auto simp: Let_def)
  have iv: "length ?iv = 12" by simp
  then have "length tag = 16" and "gcmOpen P k ?iv tag ct = Some pt"
    using assms(1,2) seal unfolding gcm_laws_def by (metis option.inject prod.inject)+
  then show ?thesis by (simp only: s decrypt_base64 [OF iv] option.case)
qed

text \<open>A blob with a full-length tag opens only if it is what sealing its plaintext gives.\<close>

lemma decrypt_authentic:
  assumes "gcm_laws P" and "28 \<le> length (base64_decode s)" and "decryptWithKey P k s = Inr pt"
  shows "\<exists>iv ct tag. base64_decode s = iv @ tag @ ct \<and> gcmSeal P k iv pt = Some (ct, tag)"
proof -
  let ?raw = "base64_decode s"
  let ?iv = "take 12 ?raw" let ?tag = "take 16 (drop 12 ?raw)" let ?ct = "drop 28 ?raw"
  have "gcmOpen P k ?iv ?tag ?ct = Some pt"
    using assms(3)
    by (auto simp: decryptWithKey_def Let_def GCM_IV_LENGTH_def GCM_AUTH_TAG_LENGTH_def
        split: option.splits)
  moreover have "length ?tag = 16" using assms(2) by simp
  ultimately have "gcmSeal P k ?iv pt = Some (?ct, ?tag)"
    using assms(1) unfolding gcm_laws_def by blast
  moreover have "?raw = ?iv @ ?tag @ ?ct"
  proof -
    have "?ct = drop 16 (drop 12 ?raw)" by simp
    then show ?thesis by (metis append_take_drop_id)
  qed
  ultimately show ?thesis by blast
qed

section \<open>Envelopes\<close>

lemma encryptWithDek_Inr:
  "encryptWithDek P dek v pt w = (Inr c, w') \<Longrightarrow>
     \<exists>pre s. writeUInt16BE v = Some pre \<and> encryptWithKey P dek (utf8 pt) w = (Inr s, w') \<and>
       c = base64 (pre @ base64_decode s)"
  by (auto simp: encryptWithDek_def await_eq_Inr Let_def split: option.splits)

lemma parse_envelope:
  "writeUInt16BE v = Some pre \<Longrightarrow>
     parseDekCiphertextEnvelope (base64 (pre @ b)) = Inr \<lparr>env_keyVersion = v, env_body = base64 b\<rparr>"
  by (simp add: parseDekCiphertextEnvelope_def readUInt16BE_write length_writeUInt16BE)

lemma encryptWithDek_version:
  "encryptWithDek P dek v pt w = (Inr c, w') \<Longrightarrow>
     \<exists>e. parseDekCiphertextEnvelope c = Inr e \<and> env_keyVersion e = v"
  using encryptWithDek_Inr [of P dek v pt w c w'] by (auto simp: parse_envelope)

lemma encryptWithKey_base64: "encryptWithKey P k pt w = (Inr s, w') \<Longrightarrow> base64 (base64_decode s) = s"
  using encryptWithKey_Inr [of P k pt w s w'] by (auto simp: Let_def)

lemma decryptWithDek_encryptWithDek:
  assumes "gcm_laws P" and "length dek = 32" and "encryptWithDek P dek v pt w = (Inr c, w')"
  shows "decryptWithDek P dek c = Inr pt"
proof -
  obtain pre s where pre: "writeUInt16BE v = Some pre"
    and s: "encryptWithKey P dek (utf8 pt) w = (Inr s, w')"
    and c: "c = base64 (pre @ base64_decode s)"
    using encryptWithDek_Inr [OF assms(3)] by blast
  have "decryptWithKey P dek s = Inr (utf8 pt)"
    using assms(1,2) s by (rule decrypt_encrypt)
  then show ?thesis
    using encryptWithKey_base64 [OF s] by (simp add: decryptWithDek_def c parse_envelope [OF pre])
qed

lemma encryptWithDek_total:
  assumes "gcm_laws P" and "length dek = 32" and "v < 65536"
  shows "\<exists>c. encryptWithDek P dek v pt w = (Inr c, w\<lparr>draws := Suc (draws w)\<rparr>)"
proof -
  obtain pre where "writeUInt16BE v = Some pre"
    using assms(3) by (simp add: writeUInt16BE_def)
  moreover obtain s where "encryptWithKey P dek (utf8 pt) w = (Inr s, w\<lparr>draws := Suc (draws w)\<rparr>)"
    using encryptWithKey_total [OF assms(1,2)] by blast
  ultimately show ?thesis by (simp add: encryptWithDek_def Let_def)
qed

text \<open>\<open>hashEmail\<close> sees only the trimmed, lower-cased address.\<close>

lemma hashEmail_normal: "hashEmail P (toLowerCase (trim s)) = hashEmail P s"
  by (simp add: hashEmail_def js_text)

end
