(* ===== verification/Lru.thy ===== *)
theory Lru
  imports Prelude
begin

text \<open>
  \<open>BoundedLru\<close> of \<open>src/services/tenantKey.service.ts\<close>: a bounded cache on a JavaScript
  \<open>Map\<close>, whose iteration order is insertion order. The \<open>Map\<close> is the list of its entries,
  oldest first. What its clients rely on is the locale \<open>cache\<close>: a lookup returns what is
  stored and changes nothing a client can see, a store may forget other entries but not the
  new one. \<open>BoundedLru\<close> is an instance of it.
\<close>

section \<open>What a client relies on\<close>

locale cache =
  fixes get :: "'k \<Rightarrow> 'c \<Rightarrow> 'v option \<times> 'c"
    and put :: "'k \<Rightarrow> 'v \<Rightarrow> 'c \<Rightarrow> 'c"
    and contents :: "'c \<Rightarrow> 'k \<Rightarrow> 'v option"
    and good :: "'c \<Rightarrow> bool"
  assumes get_value: "good c \<Longrightarrow> get k c = (r, c') \<Longrightarrow> r = contents c k"
    and get_contents: "good c \<Longrightarrow> get k c = (r, c') \<Longrightarrow> contents c' = contents c"
    and get_good: "good c \<Longrightarrow> get k c = (r, c') \<Longrightarrow> good c'"
    and put_hit: "good c \<Longrightarrow> contents (put k v c) k = Some v"
    and put_old: "good c \<Longrightarrow> k' \<noteq> k \<Longrightarrow> contents (put k v c) k' = Some u \<Longrightarrow> contents c k' = Some u"
    and put_good: "good c \<Longrightarrow> good (put k v c)"
begin

text \<open>A cache is coherent with \<open>Q\<close> when every entry satisfies it.\<close>

definition coherent :: "('k \<Rightarrow> 'v \<Rightarrow> bool) \<Rightarrow> 'c \<Rightarrow> bool" where
  "coherent Q c \<longleftrightarrow> good c \<and> (\<forall>k v. contents c k = Some v \<longrightarrow> Q k v)"

lemma coherent_hit: "coherent Q c \<Longrightarrow> get k c = (Some v, c') \<Longrightarrow> Q k v"
  unfolding coherent_def using get_value by fastforce

lemma coherent_get: "coherent Q c \<Longrightarrow> get k c = (v, c') \<Longrightarrow> coherent Q c'"
  unfolding coherent_def using get_contents get_good by metis

lemma coherent_put: "coherent Q c \<Longrightarrow> Q k v \<Longrightarrow> coherent Q (put k v c)"
  unfolding coherent_def by (metis option.inject put_good put_hit put_old)

lemma coherent_mono: "coherent Q c \<Longrightarrow> (\<And>k v. Q k v \<Longrightarrow> Q' k v) \<Longrightarrow> coherent Q' c"
  unfolding coherent_def by blast

end

section \<open>BoundedLru\<close>

type_synonym ('k, 'v) js_map = "('k \<times> 'v) list"

definition map_delete :: "'k \<Rightarrow> ('k, 'v) js_map \<Rightarrow> ('k, 'v) js_map" where
  "map_delete k s = filter (\<lambda>e. fst e \<noteq> k) s"

text \<open>\<open>Map.prototype.set\<close> of a key that is not there appends; both callers delete first.\<close>

definition map_append :: "'k \<Rightarrow> 'v \<Rightarrow> ('k, 'v) js_map \<Rightarrow> ('k, 'v) js_map" where
  "map_append k v s = s @ [(k, v)]"

definition lru_get :: "'k \<Rightarrow> ('k, 'v) js_map \<Rightarrow> 'v option \<times> ('k, 'v) js_map" where
  "lru_get k s = (case map_of s k of
       None \<Rightarrow> (None, s)
     | Some v \<Rightarrow> (Some v, map_append k v (map_delete k s)))"

definition lru_set :: "nat \<Rightarrow> 'k \<Rightarrow> 'v \<Rightarrow> ('k, 'v) js_map \<Rightarrow> ('k, 'v) js_map" where
  "lru_set maxSize k v s =
     (let s1 = map_append k v (map_delete k s)
      in if maxSize < length s1 then map_delete (fst (hd s1)) s1 else s1)"

definition lru_ok :: "('k, 'v) js_map \<Rightarrow> bool" where
  "lru_ok s \<longleftrightarrow> distinct (map fst s)"

definition MAX_CACHED_DEKS :: nat where
  "MAX_CACHED_DEKS = 500"

lemma map_of_delete: "map_of (map_delete k s) k' = (if k' = k then None else map_of s k')"
  by (induction s) (auto simp: map_delete_def)

lemma map_of_append: "k \<notin> fst ` set s \<Longrightarrow> map_of (map_append k v s) = (map_of s)(k \<mapsto> v)"
proof -
  assume "k \<notin> fst ` set s"
  then have "map_of s k = None" by (simp add: map_of_eq_None_iff)
  then show ?thesis by (auto simp: map_append_def map_add_def fun_eq_iff split: option.splits)
qed

lemma delete_not_in [simp]: "k \<notin> fst ` set (map_delete k s)"
  by (auto simp: map_delete_def)

lemma ok_delete: "lru_ok s \<Longrightarrow> lru_ok (map_delete k s)"
  by (auto simp: lru_ok_def map_delete_def distinct_map inj_on_def)

lemma ok_append: "lru_ok s \<Longrightarrow> k \<notin> fst ` set s \<Longrightarrow> lru_ok (map_append k v s)"
  by (simp add: lru_ok_def map_append_def)

lemma length_delete_le: "length (map_delete k s) \<le> length s"
  by (simp add: map_delete_def)

lemma length_delete_mem: "k \<in> fst ` set s \<Longrightarrow> length (map_delete k s) < length s"
  by (auto simp: map_delete_def intro!: length_filter_less)

lemma map_of_touch: "map_of (map_append k v (map_delete k s)) = (map_of s)(k \<mapsto> v)"
  by (rule ext) (simp add: map_of_append map_of_delete)

lemma lru_ok_get: "lru_ok s \<Longrightarrow> lru_ok (snd (lru_get k s))"
  by (auto simp: lru_get_def ok_append ok_delete split: option.splits)

lemma lru_ok_set: "lru_ok s \<Longrightarrow> lru_ok (lru_set n k v s)"
  by (auto simp: lru_set_def Let_def ok_append ok_delete)

lemma lru_get_map: "map_of (snd (lru_get k s)) = map_of s"
  by (auto simp: lru_get_def map_of_touch fun_upd_idem split: option.splits)

lemma lru_get_fst: "fst (lru_get k s) = map_of s k"
  by (simp add: lru_get_def split: option.splits)

text \<open>The entry evicted by a store is the least recently used one, never the one stored.\<close>

lemma lru_set_map:
  "map_of (lru_set n k v s) =
     (let s1 = map_append k v (map_delete k s)
      in if n < length s1 then ((map_of s)(k \<mapsto> v))(fst (hd s1) := None) else (map_of s)(k \<mapsto> v))"
  by (rule ext) (simp add: lru_set_def Let_def map_of_delete map_of_touch)

lemma hd_touch_neq: "map_delete k s \<noteq> [] \<Longrightarrow> fst (hd (map_append k v (map_delete k s))) \<noteq> k"
  by (metis delete_not_in hd_append2 hd_in_set image_eqI map_append_def)

lemma lru_set_hit:
  assumes "0 < n"
  shows "map_of (lru_set n k v s) k = Some v"
proof (cases "map_delete k s = []")
  case True
  then show ?thesis using assms by (simp add: lru_set_def map_append_def)
next
  case False
  then show ?thesis using hd_touch_neq [OF False, of v] by (auto simp: lru_set_map Let_def)
qed

lemma lru_set_old: "k' \<noteq> k \<Longrightarrow> map_of (lru_set n k v s) k' = Some u \<Longrightarrow> map_of s k' = Some u"
  by (auto simp: lru_set_map Let_def split: if_splits)

text \<open>The bound: a store never leaves more than \<open>maxSize\<close> entries, a lookup never adds one.\<close>

lemma lru_set_length:
  assumes "0 < n" and "length s \<le> n"
  shows "length (lru_set n k v s) \<le> n"
proof -
  let ?s1 = "map_append k v (map_delete k s)"
  have "fst (hd ?s1) \<in> fst ` set ?s1"
    by (intro imageI hd_in_set) (simp add: map_append_def)
  then have "length (map_delete (fst (hd ?s1)) ?s1) < length ?s1" by (rule length_delete_mem)
  moreover have "length ?s1 \<le> Suc n"
    using assms(2) length_delete_le [of k s] by (simp add: map_append_def)
  ultimately show ?thesis by (auto simp: lru_set_def Let_def)
qed

lemma lru_get_length: "length (snd (lru_get k s)) \<le> length s"
proof (cases "map_of s k")
  case None
  then show ?thesis by (simp add: lru_get_def)
next
  case (Some v)
  then have "length (map_delete k s) < length s"
    by (intro length_delete_mem) (auto dest: map_of_SomeD intro: rev_image_eqI)
  with Some show ?thesis by (simp add: lru_get_def map_append_def)
qed

interpretation lru: cache lru_get "lru_set MAX_CACHED_DEKS" map_of lru_ok
proof (unfold_locales, goal_cases)
  case (1 c k v c') then show ?case using lru_get_fst [of k c] by simp
next
  case (2 c k v c') then show ?case using lru_get_map [of k c] by simp
next
  case (3 c k v c') then show ?case using lru_ok_get [of c k] by simp
next
  case (4 c k v) show ?case by (rule lru_set_hit) (simp add: MAX_CACHED_DEKS_def)
next
  case (5 c k' k v u) then show ?case by (blast intro: lru_set_old)
next
  case (6 c k v) then show ?case by (rule lru_ok_set)
qed

end
