(* ===== verification/TenantKeys.thy ===== *)
theory TenantKeys
  imports Envelope Lru
begin

text \<open>
  \<open>src/services/tenantKey.service.ts\<close>: per-tenant data-encryption keys, wrapped in
  \<open>tenant_encryption_keys\<close> and cached unwrapped in two bounded in-process caches. The
  functions follow the source call by call; the abstract view is \<open>key_dek\<close>, the partial map
  from (tenant, version) to key that the table stands for.
\<close>

section \<open>Constants, caches and queries\<close>

definition DEFAULT_TENANT_KEY_ID :: string where
  "DEFAULT_TENANT_KEY_ID = ''00000000-0000-0000-0000-000000000000''"

definition DEK_LENGTH_BYTES :: nat where
  "DEK_LENGTH_BYTES = 32"

definition cacheKey :: "string \<Rightarrow> nat \<Rightarrow> string" where
  "cacheKey tenantKeyId keyVersion = tenantKeyId @ '':'' @ show_nat keyVersion"

definition resolveTenantKeyId :: "string option \<Rightarrow> string" where
  "resolveTenantKeyId tenantId = (case tenantId of None \<Rightarrow> DEFAULT_TENANT_KEY_ID | Some t \<Rightarrow> t)"

record resolved_dek =
  dek :: bytes
  keyVersion :: nat

definition dekCache_get :: "string \<Rightarrow> ('r, bytes option) gw" where
  "dekCache_get k = await (gets (\<lambda>w. lru_get k (dekCache w))) (\<lambda>(v, s).
     await (modify (\<lambda>w. w\<lparr>dekCache := s\<rparr>)) (\<lambda>_. pure v))"

definition dekCache_set :: "string \<Rightarrow> bytes \<Rightarrow> ('r, unit) gw" where
  "dekCache_set k v = modify (\<lambda>w. w\<lparr>dekCache := lru_set MAX_CACHED_DEKS k v (dekCache w)\<rparr>)"

definition versionCache_get :: "string \<Rightarrow> ('r, nat option) gw" where
  "versionCache_get k = await (gets (\<lambda>w. lru_get k (activeVersionCache w))) (\<lambda>(v, s).
     await (modify (\<lambda>w. w\<lparr>activeVersionCache := s\<rparr>)) (\<lambda>_. pure v))"

definition versionCache_set :: "string \<Rightarrow> nat \<Rightarrow> ('r, unit) gw" where
  "versionCache_set k v =
     modify (\<lambda>w. w\<lparr>activeVersionCache := lru_set MAX_CACHED_DEKS k v (activeVersionCache w)\<rparr>)"

text \<open>
  The two inserts. The table has the primary key (tenant, version) and a unique index on the
  tenant of the active rows; \<open>onConflictDoNothing\<close> covers the first only. The other
  columns take their defaults.
\<close>

definition new_key_row :: "string \<Rightarrow> nat \<Rightarrow> string \<Rightarrow> int \<Rightarrow> key_row" where
  "new_key_row t v wrapped c = \<lparr>tk_tenantId = t, tk_keyVersion = v, tk_wrappedDek = wrapped,
     tk_status = ''active'', tk_createdAt = c, tk_retiredAt = None\<rparr>"

definition key_exists :: "string \<Rightarrow> nat \<Rightarrow> key_row list \<Rightarrow> bool" where
  "key_exists t v rows = list_ex (\<lambda>r. tk_tenantId r = t \<and> tk_keyVersion r = v) rows"

definition active_exists :: "string \<Rightarrow> key_row list \<Rightarrow> bool" where
  "active_exists t rows = list_ex (\<lambda>r. tk_tenantId r = t \<and> tk_status r = ''active'') rows"

definition insert_key :: "bool \<Rightarrow> string \<Rightarrow> nat \<Rightarrow> string \<Rightarrow> ('r, key_row list) gw" where
  "insert_key doNothing t v wrapped = pg (
     await (gets tenant_encryption_keys) (\<lambda>rows.
     if key_exists t v rows then
       (if doNothing then pure [] else throw (PgExn ''duplicate key value: tenant_encryption_keys_pk''))
     else if active_exists t rows then
       throw (PgExn ''duplicate key value: tenant_encryption_keys_active_idx'')
     else await now (\<lambda>c. let row = new_key_row t v wrapped c in
       await (modify (\<lambda>w. w\<lparr>tenant_encryption_keys := tenant_encryption_keys w @ [row]\<rparr>))
         (\<lambda>_. pure [row]))))"

section \<open>The service\<close>

definition findActiveRow :: "string \<Rightarrow> ('r, (nat \<times> string) option) gw" where
  "findActiveRow tenantKeyId =
     await (select_rows tenant_encryption_keys
       (\<lambda>r. tk_tenantId r = tenantKeyId \<and> tk_status r = ''active'')) (\<lambda>rows.
     pure (map_option (\<lambda>r. (tk_keyVersion r, tk_wrappedDek r)) (row0 (take 1 rows))))"

definition unwrapAndCache :: "'r platform \<Rightarrow> string \<Rightarrow> nat \<Rightarrow> string \<Rightarrow> ('r, resolved_dek) gw" where
  "unwrapAndCache P tenantKeyId version wrappedDek =
     (let key = cacheKey tenantKeyId version in
      await (dekCache_get key) (\<lambda>cached. case cached of
        Some d \<Rightarrow> pure \<lparr>dek = d, keyVersion = version\<rparr>
      | None \<Rightarrow> await (lift (unwrapDek P wrappedDek)) (\<lambda>d.
          await (dekCache_set key d) (\<lambda>_. pure \<lparr>dek = d, keyVersion = version\<rparr>))))"

definition provisionActiveKey :: "'r platform \<Rightarrow> string \<Rightarrow> ('r, resolved_dek) gw" where
  "provisionActiveKey P tenantKeyId =
     await (randomBytes DEK_LENGTH_BYTES) (\<lambda>rawDek.
     await (wrapDek P rawDek) (\<lambda>wrappedDek.
     await (insert_key True tenantKeyId 1 wrappedDek) (\<lambda>inserted.
     case row0 inserted of
       Some _ \<Rightarrow>
         await (dekCache_set (cacheKey tenantKeyId 1) rawDek) (\<lambda>_.
         await (versionCache_set tenantKeyId 1) (\<lambda>_.
         pure \<lparr>dek = rawDek, keyVersion = 1\<rparr>))
     | None \<Rightarrow> await (findActiveRow tenantKeyId) (\<lambda>existing. case existing of
           None \<Rightarrow> throw (JsError (''Failed to provision or resolve an active DEK for tenant key \"''
             @ tenantKeyId @ ''\"''))
         | Some (v, wrapped) \<Rightarrow>
             await (versionCache_set tenantKeyId v) (\<lambda>_. unwrapAndCache P tenantKeyId v wrapped)))))"

definition getActiveDek :: "'r platform \<Rightarrow> string option \<Rightarrow> ('r, resolved_dek) gw" where
  "getActiveDek P tenantId =
     (let tenantKeyId = resolveTenantKeyId tenantId;
          slow = await (findActiveRow tenantKeyId) (\<lambda>active. case active of
             None \<Rightarrow> provisionActiveKey P tenantKeyId
           | Some (v, wrapped) \<Rightarrow>
               await (versionCache_set tenantKeyId v) (\<lambda>_. unwrapAndCache P tenantKeyId v wrapped))
      in await (versionCache_get tenantKeyId) (\<lambda>cachedVersion. case cachedVersion of
           None \<Rightarrow> slow
         | Some v \<Rightarrow> await (dekCache_get (cacheKey tenantKeyId v)) (\<lambda>cachedDek. case cachedDek of
               Some d \<Rightarrow> pure \<lparr>dek = d, keyVersion = v\<rparr>
             | None \<Rightarrow> slow)))"

definition getDekForVersion :: "'r platform \<Rightarrow> string option \<Rightarrow> nat \<Rightarrow> ('r, bytes) gw" where
  "getDekForVersion P tenantId version =
     (let tenantKeyId = resolveTenantKeyId tenantId in
      await (dekCache_get (cacheKey tenantKeyId version)) (\<lambda>cached. case cached of
        Some d \<Rightarrow> pure d
      | None \<Rightarrow>
          await (select_rows tenant_encryption_keys
            (\<lambda>r. tk_tenantId r = tenantKeyId \<and> tk_keyVersion r = version)) (\<lambda>rows.
          case row0 (take 1 rows) of
            None \<Rightarrow> throw (JsError (''No tenant_encryption_keys row for tenant \"'' @ tenantKeyId
              @ ''\" at key_version '' @ show_nat version))
          | Some row \<Rightarrow> await (unwrapAndCache P tenantKeyId version (tk_wrappedDek row)) (\<lambda>r.
              pure (dek r)))))"

definition retire_key :: "string \<Rightarrow> nat \<Rightarrow> ('r, unit) gw" where
  "retire_key t v = await now (\<lambda>c. pg (modify (\<lambda>w. w\<lparr>tenant_encryption_keys :=
     set_where (\<lambda>r. tk_tenantId r = t \<and> tk_keyVersion r = v)
       (\<lambda>r. r\<lparr>tk_status := ''retired'', tk_retiredAt := Some c\<rparr>) (tenant_encryption_keys w)\<rparr>)))"

text \<open>\<open>ORDER BY key_version DESC LIMIT 1\<close>.\<close>

definition latest_first :: "key_row list \<Rightarrow> key_row list" where
  "latest_first rows = rev (sort_key tk_keyVersion rows)"

definition rotate_tx :: "'r platform \<Rightarrow> string \<Rightarrow> ('r, resolved_dek) gw" where
  "rotate_tx P tenantKeyId =
     await (select_rows tenant_encryption_keys
       (\<lambda>r. tk_tenantId r = tenantKeyId \<and> tk_status r = ''active'')) (\<lambda>rows.
     let active = row0 (take 1 (latest_first rows));
         nextVersion = (case active of None \<Rightarrow> 0 | Some a \<Rightarrow> tk_keyVersion a) + 1
     in await (case active of None \<Rightarrow> pure () | Some a \<Rightarrow> retire_key tenantKeyId (tk_keyVersion a)) (\<lambda>_.
        await (randomBytes DEK_LENGTH_BYTES) (\<lambda>rawDek.
        await (wrapDek P rawDek) (\<lambda>wrappedDek.
        await (insert_key False tenantKeyId nextVersion wrappedDek) (\<lambda>_.
        await (dekCache_set (cacheKey tenantKeyId nextVersion) rawDek) (\<lambda>_.
        await (versionCache_set tenantKeyId nextVersion) (\<lambda>_.
        pure \<lparr>dek = rawDek, keyVersion = nextVersion\<rparr>)))))))"

definition rotateTenantKey :: "'r platform \<Rightarrow> string option \<Rightarrow> ('r, resolved_dek) gw" where
  "rotateTenantKey P tenantId = transaction (rotate_tx P (resolveTenantKeyId tenantId))"

section \<open>Running the cache operations\<close>

lemma dekCache_get_run:
  "dekCache_get k w = (Inr (map_of (dekCache w) k), w\<lparr>dekCache := snd (lru_get k (dekCache w))\<rparr>)"
  by (simp add: dekCache_get_def split_beta lru_get_fst)

lemma dekCache_set_run:
  "dekCache_set k v w = (Inr (), w\<lparr>dekCache := lru_set MAX_CACHED_DEKS k v (dekCache w)\<rparr>)"
  by (simp add: dekCache_set_def)

lemma versionCache_get_run:
  "versionCache_get k w = (Inr (map_of (activeVersionCache w) k),
     w\<lparr>activeVersionCache := snd (lru_get k (activeVersionCache w))\<rparr>)"
  by (simp add: versionCache_get_def split_beta lru_get_fst)

lemma versionCache_set_run:
  "versionCache_set k v w =
     (Inr (), w\<lparr>activeVersionCache := lru_set MAX_CACHED_DEKS k v (activeVersionCache w)\<rparr>)"
  by (simp add: versionCache_set_def)

lemmas cache_run = dekCache_get_run dekCache_set_run versionCache_get_run versionCache_set_run

lemma cacheKey_inject [simp]: "cacheKey t v = cacheKey t' v' \<longleftrightarrow> t = t' \<and> v = v'"
proof
  assume "cacheKey t v = cacheKey t' v'"
  then have "t @ CHR '':'' # show_nat v = t' @ CHR '':'' # show_nat v'"
    by (simp add: cacheKey_def)
  from append_sep_inject [OF _ _ this] show "t = t' \<and> v = v'" by simp
qed simp

section \<open>The key map a table stands for\<close>

definition wrapped_of :: "key_row list \<Rightarrow> string \<times> nat \<Rightarrow> string option" where
  "wrapped_of rows = map_of (map (\<lambda>r. ((tk_tenantId r, tk_keyVersion r), tk_wrappedDek r)) rows)"

definition key_dek :: "'r platform \<Rightarrow> key_row list \<Rightarrow> string \<Rightarrow> nat \<Rightarrow> bytes option" where
  "key_dek P rows t v = (case wrapped_of rows (t, v) of None \<Rightarrow> None
     | Some s \<Rightarrow> (case unwrapDek P s of Inl _ \<Rightarrow> None | Inr d \<Rightarrow> Some d))"

lemma row0_wrapped:
  "map_option tk_wrappedDek (row0 (filter (\<lambda>r. tk_tenantId r = t \<and> tk_keyVersion r = v) rows)) =
     wrapped_of rows (t, v)"
  by (induction rows) (auto simp: wrapped_of_def)

lemma wrapped_append:
  "\<not> key_exists t v rows \<Longrightarrow>
     wrapped_of (rows @ [new_key_row t v s c]) = (wrapped_of rows)((t, v) \<mapsto> s)"
  by (induction rows) (auto simp: wrapped_of_def key_exists_def new_key_row_def)

lemma wrapped_retire:
  "wrapped_of (set_where c (\<lambda>r. r\<lparr>tk_status := s, tk_retiredAt := x\<rparr>) rows) = wrapped_of rows"
  unfolding wrapped_of_def by (rule arg_cong [where f = map_of], rule map_set_where) simp

lemma not_key_exists: "\<not> key_exists t v rows \<Longrightarrow> wrapped_of rows (t, v) = None"
  by (induction rows) (auto simp: wrapped_of_def key_exists_def)

text \<open>Versions are only ever added: the order between key tables.\<close>

definition keys_extend :: "'r platform \<Rightarrow> key_row list \<Rightarrow> key_row list \<Rightarrow> bool" where
  "keys_extend P rows rows' \<longleftrightarrow>
     (\<forall>t v d. key_dek P rows t v = Some d \<longrightarrow> key_dek P rows' t v = Some d)"

lemma keys_extend_refl [simp]: "keys_extend P rows rows"
  by (simp add: keys_extend_def)

lemma keys_extend_trans: "keys_extend P a b \<Longrightarrow> keys_extend P b c \<Longrightarrow> keys_extend P a c"
  by (simp add: keys_extend_def)

lemma keys_extend_wrapped: "wrapped_of rows' = wrapped_of rows \<Longrightarrow> keys_extend P rows rows'"
  by (simp add: keys_extend_def key_dek_def)

lemma keys_extend_append:
  "\<not> key_exists t v rows \<Longrightarrow> keys_extend P rows (rows @ [new_key_row t v s c])"
  by (auto simp: keys_extend_def key_dek_def wrapped_append not_key_exists)

end
