(* ===== verification/TenantKeyProofs.thy ===== *)
theory TenantKeyProofs
  imports TenantKeys
begin

text \<open>
  The invariants of the tenant-key service and what its operations keep and return: the table
  has one active row per tenant, of the highest version, and every wrapped key opens to 32
  bytes (\<open>keys_ok\<close>); every cached key is the key the table stands for (\<open>caches_ok\<close>).
  With them, a cached lookup is a lookup in the table, and a rotation only adds keys.
\<close>

definition is_active :: "key_row \<Rightarrow> bool" where
  "is_active r \<longleftrightarrow> tk_status r = ''active''"

definition keys_ok :: "'r platform \<Rightarrow> key_row list \<Rightarrow> bool" where
  "keys_ok P rows \<longleftrightarrow>
     distinct (map (\<lambda>r. (tk_tenantId r, tk_keyVersion r)) rows) \<and>
     (\<forall>r \<in> set rows. 1 \<le> tk_keyVersion r \<and>
        (\<exists>d. unwrapDek P (tk_wrappedDek r) = Inr d \<and> length d = 32)) \<and>
     (\<forall>r \<in> set rows. \<exists>a \<in> set rows.
        is_active a \<and> tk_tenantId a = tk_tenantId r \<and> tk_keyVersion r \<le> tk_keyVersion a) \<and>
     (\<forall>r \<in> set rows. \<forall>a \<in> set rows.
        is_active r \<longrightarrow> is_active a \<longrightarrow> tk_tenantId r = tk_tenantId a \<longrightarrow>
        tk_keyVersion r = tk_keyVersion a)"

definition caches_ok :: "'r platform \<Rightarrow> 'r world \<Rightarrow> bool" where
  "caches_ok P w \<longleftrightarrow>
     lru.coherent (\<lambda>k d. \<exists>t v. k = cacheKey t v \<and>
        key_dek P (tenant_encryption_keys w) t v = Some d) (dekCache w) \<and>
     lru.coherent (\<lambda>t v. key_dek P (tenant_encryption_keys w) t v \<noteq> None) (activeVersionCache w)"

definition dek_inv :: "'r platform \<Rightarrow> 'r world \<Rightarrow> bool" where
  "dek_inv P w \<longleftrightarrow> keys_ok P (tenant_encryption_keys w) \<and> caches_ok P w"

text \<open>The invariant, and that no key of \<open>rows0\<close> has been lost.\<close>

definition keyed :: "'r platform \<Rightarrow> key_row list \<Rightarrow> 'r world \<Rightarrow> bool" where
  "keyed P rows0 w \<longleftrightarrow> dek_inv P w \<and> keys_extend P rows0 (tenant_encryption_keys w)"

section \<open>Consequences of the invariant\<close>

lemma wrapped_of_row:
  "keys_ok P rows \<Longrightarrow> r \<in> set rows \<Longrightarrow>
     wrapped_of rows (tk_tenantId r, tk_keyVersion r) = Some (tk_wrappedDek r)"
  unfolding wrapped_of_def keys_ok_def by (intro map_of_is_SomeI) (auto simp: comp_def)

lemma wrapped_of_in:
  "wrapped_of rows (t, v) = Some s \<Longrightarrow>
     \<exists>r \<in> set rows. tk_tenantId r = t \<and> tk_keyVersion r = v \<and> tk_wrappedDek r = s"
  unfolding wrapped_of_def by (auto dest!: map_of_SomeD)

lemma wrapped_key_dek:
  assumes "keys_ok P rows" and "wrapped_of rows (t, v) = Some s"
  shows "\<exists>d. unwrapDek P s = Inr d \<and> length d = 32 \<and> key_dek P rows t v = Some d"
  using assms wrapped_of_in [OF assms(2)] by (fastforce simp: keys_ok_def key_dek_def)

lemma key_dek_length: "keys_ok P rows \<Longrightarrow> key_dek P rows t v = Some d \<Longrightarrow> length d = 32"
  using wrapped_key_dek by (fastforce simp: key_dek_def split: option.splits sum.splits)

lemma caches_ok_mono:
  assumes "caches_ok P w" and "keys_extend P (tenant_encryption_keys w) (tenant_encryption_keys w')"
    and "dekCache w' = dekCache w" and "activeVersionCache w' = activeVersionCache w"
  shows "caches_ok P w'"
proof -
  have "key_dek P (tenant_encryption_keys w') t v = Some d"
    if "key_dek P (tenant_encryption_keys w) t v = Some d" for t v d
    using assms(2) that by (simp add: keys_extend_def)
  then show ?thesis
    using assms unfolding caches_ok_def
    by (intro conjI) (fastforce elim!: lru.coherent_mono)+
qed

lemma keyed_same:
  "keyed P r0 w \<Longrightarrow> tenant_encryption_keys w' = tenant_encryption_keys w \<Longrightarrow>
     dekCache w' = dekCache w \<Longrightarrow> activeVersionCache w' = activeVersionCache w \<Longrightarrow> keyed P r0 w'"
  by (simp add: keyed_def dek_inv_def caches_ok_def)

lemma keyed_tick [simp]: "keyed P r0 w \<Longrightarrow> keyed P r0 (tick w)"
  by (erule keyed_same) simp_all

lemma keyed_draws [simp]: "keyed P r0 w \<Longrightarrow> keyed P r0 (w\<lparr>draws := n\<rparr>)"
  by (erule keyed_same) simp_all

lemma keyed_dekCache:
  "keyed P r0 w \<Longrightarrow> lru.coherent (\<lambda>k d. \<exists>t v. k = cacheKey t v \<and>
     key_dek P (tenant_encryption_keys w) t v = Some d) c \<Longrightarrow> keyed P r0 (w\<lparr>dekCache := c\<rparr>)"
  by (simp add: keyed_def dek_inv_def caches_ok_def)

lemma keyed_versionCache:
  "keyed P r0 w \<Longrightarrow> lru.coherent (\<lambda>t v. key_dek P (tenant_encryption_keys w) t v \<noteq> None) c \<Longrightarrow>
     keyed P r0 (w\<lparr>activeVersionCache := c\<rparr>)"
  by (simp add: keyed_def dek_inv_def caches_ok_def)

lemma keyed_coherent:
  assumes "keyed P r0 w"
  shows "lru.coherent (\<lambda>k d. \<exists>t v. k = cacheKey t v \<and>
       key_dek P (tenant_encryption_keys w) t v = Some d) (dekCache w)"
    and "lru.coherent (\<lambda>t v. key_dek P (tenant_encryption_keys w) t v \<noteq> None) (activeVersionCache w)"
  using assms by (simp_all add: keyed_def dek_inv_def caches_ok_def)

section \<open>Cache and query steps\<close>

lemma hoare_dekCache_get:
  "hoare (\<lambda>w. keyed P r0 w \<and> X (tenant_encryption_keys w)) (dekCache_get k)
     (\<lambda>r w. keyed P r0 w \<and> X (tenant_encryption_keys w) \<and> (\<exists>o1. r = Inr o1 \<and>
        (\<forall>d. o1 = Some d \<longrightarrow>
          (\<exists>t v. k = cacheKey t v \<and> key_dek P (tenant_encryption_keys w) t v = Some d))))"
proof (rule hoareI, elim conjE)
  fix w r w' assume k: "keyed P r0 w" and X: "X (tenant_encryption_keys w)"
    and run: "dekCache_get k w = (r, w')"
  obtain o1 c where g: "lru_get k (dekCache w) = (o1, c)" by fastforce
  then have r: "r = Inr o1" and w': "w' = w\<lparr>dekCache := c\<rparr>"
    using run lru_get_fst [of k "dekCache w"] by (auto simp: dekCache_get_run)
  have "keyed P r0 w'"
    unfolding w' using k lru.coherent_get [OF keyed_coherent(1) [OF k] g] by (rule keyed_dekCache)
  moreover have "\<exists>t v. k = cacheKey t v \<and> key_dek P (tenant_encryption_keys w) t v = Some d"
    if "o1 = Some d" for d
    using lru.coherent_hit [OF keyed_coherent(1) [OF k]] g that by blast
  ultimately show "keyed P r0 w' \<and> X (tenant_encryption_keys w') \<and> (\<exists>o1. r = Inr o1 \<and>
        (\<forall>d. o1 = Some d \<longrightarrow>
          (\<exists>t v. k = cacheKey t v \<and> key_dek P (tenant_encryption_keys w') t v = Some d)))"
    using X r by (simp add: w')
qed

lemma hoare_dekCache_set:
  "hoare (\<lambda>w. keyed P r0 w \<and> key_dek P (tenant_encryption_keys w) t v = Some d)
     (dekCache_set (cacheKey t v) d)
     (\<lambda>r w. keyed P r0 w \<and> key_dek P (tenant_encryption_keys w) t v = Some d \<and> r = Inr ())"
proof (rule hoareI, elim conjE)
  fix w r w' assume k: "keyed P r0 w" and d: "key_dek P (tenant_encryption_keys w) t v = Some d"
    and run: "dekCache_set (cacheKey t v) d w = (r, w')"
  then have w': "w' = w\<lparr>dekCache := lru_set MAX_CACHED_DEKS (cacheKey t v) d (dekCache w)\<rparr>"
    and r: "r = Inr ()" by (auto simp: dekCache_set_run)
  have "keyed P r0 w'"
    unfolding w' using d by (intro keyed_dekCache k lru.coherent_put keyed_coherent(1) [OF k]) auto
  with d r show "keyed P r0 w' \<and> key_dek P (tenant_encryption_keys w') t v = Some d \<and> r = Inr ()"
    by (simp add: w')
qed

lemma hoare_versionCache_get:
  "hoare (keyed P r0) (versionCache_get t)
     (\<lambda>r w. keyed P r0 w \<and> (\<exists>o1. r = Inr o1 \<and>
        (\<forall>v. o1 = Some v \<longrightarrow> key_dek P (tenant_encryption_keys w) t v \<noteq> None)))"
proof (rule hoareI)
  fix w r w' assume k: "keyed P r0 w" and run: "versionCache_get t w = (r, w')"
  obtain o1 c where g: "lru_get t (activeVersionCache w) = (o1, c)" by fastforce
  then have r: "r = Inr o1" and w': "w' = w\<lparr>activeVersionCache := c\<rparr>"
    using run lru_get_fst [of t "activeVersionCache w"] by (auto simp: versionCache_get_run)
  have "keyed P r0 w'"
    unfolding w' using k lru.coherent_get [OF keyed_coherent(2) [OF k] g] by (rule keyed_versionCache)
  moreover have "key_dek P (tenant_encryption_keys w) t v \<noteq> None" if "o1 = Some v" for v
    using lru.coherent_hit [OF keyed_coherent(2) [OF k]] g that by blast
  ultimately show "keyed P r0 w' \<and> (\<exists>o1. r = Inr o1 \<and>
        (\<forall>v. o1 = Some v \<longrightarrow> key_dek P (tenant_encryption_keys w') t v \<noteq> None))"
    using r by (simp add: w')
qed

lemma hoare_versionCache_set:
  "hoare (\<lambda>w. keyed P r0 w \<and> key_dek P (tenant_encryption_keys w) t v \<noteq> None
       \<and> X (tenant_encryption_keys w))
     (versionCache_set t v) (\<lambda>r w. keyed P r0 w \<and> X (tenant_encryption_keys w) \<and> r = Inr ())"
proof (rule hoareI, elim conjE)
  fix w r w' assume k: "keyed P r0 w" and d: "key_dek P (tenant_encryption_keys w) t v \<noteq> None"
    and X: "X (tenant_encryption_keys w)" and run: "versionCache_set t v w = (r, w')"
  then have w': "w' = w\<lparr>activeVersionCache := lru_set MAX_CACHED_DEKS t v (activeVersionCache w)\<rparr>"
    and r: "r = Inr ()" by (auto simp: versionCache_set_run)
  have "keyed P r0 w'"
    unfolding w' using d by (intro keyed_versionCache k lru.coherent_put keyed_coherent(2) [OF k])
  with X r show "keyed P r0 w' \<and> X (tenant_encryption_keys w') \<and> r = Inr ()"
    by (simp add: w')
qed

lemma hoare_findActiveRow:
  "hoare (keyed P r0) (findActiveRow t)
     (\<lambda>r w. keyed P r0 w \<and> (\<forall>v s. r = Inr (Some (v, s)) \<longrightarrow>
        wrapped_of (tenant_encryption_keys w) (t, v) = Some s))"
proof (rule hoareI)
  fix w r w' assume k: "keyed P r0 w" and run: "findActiveRow t w = (r, w')"
  have "keeps tenant_encryption_keys (findActiveRow t :: ('a, (nat \<times> string) option) gw)"
    unfolding findActiveRow_def by (intro io_rules) simp
  then have rows: "tenant_encryption_keys w' = tenant_encryption_keys w" using run by (rule keepsD)
  have "preserves (keyed P r0) (findActiveRow t)"
    unfolding findActiveRow_def by (intro io_rules) simp
  then have "keyed P r0 w'" using run k by (rule preservesD)
  moreover have "wrapped_of (tenant_encryption_keys w') (t, v) = Some s"
    if r: "r = Inr (Some (v, s))" for v s
  proof -
    obtain row where row: "row0 (filter (\<lambda>r. tk_tenantId r = t \<and> tk_status r = ''active'')
        (tenant_encryption_keys w)) = Some row"
      and vs: "v = tk_keyVersion row" "s = tk_wrappedDek row"
      using run [unfolded r findActiveRow_def await_eq_Inr select_Inr] by auto
    have "row \<in> set (tenant_encryption_keys w)" and "tk_tenantId row = t"
      using row0_filterD [OF row] by auto
    with k vs rows show ?thesis
      using wrapped_of_row by (fastforce simp: keyed_def dek_inv_def)
  qed
  ultimately show "keyed P r0 w' \<and> (\<forall>v s. r = Inr (Some (v, s)) \<longrightarrow>
        wrapped_of (tenant_encryption_keys w') (t, v) = Some s)"
    by blast
qed

section \<open>Resolving keys\<close>

lemma hoare_unwrapAndCache:
  "hoare (\<lambda>w. keyed P r0 w \<and> wrapped_of (tenant_encryption_keys w) (t, v) = Some s)
     (unwrapAndCache P t v s)
     (\<lambda>r w. keyed P r0 w \<and> (\<forall>x. r = Inr x \<longrightarrow>
        keyVersion x = v \<and> key_dek P (tenant_encryption_keys w) t v = Some (dek x)))"
  unfolding unwrapAndCache_def Let_def
proof (rule hoare_await)
  let ?X = "\<lambda>rows. wrapped_of rows (t, v) = Some s"
  let ?Mid = "\<lambda>o1 w. keyed P r0 w \<and> ?X (tenant_encryption_keys w) \<and>
     (\<forall>d. o1 = Some d \<longrightarrow> key_dek P (tenant_encryption_keys w) t v = Some d)"
  let ?Post = "\<lambda>r w. keyed P r0 w \<and> (\<forall>x. r = Inr x \<longrightarrow>
     keyVersion x = v \<and> key_dek P (tenant_encryption_keys w) t v = Some (dek x))"
  show "hoare (\<lambda>w. keyed P r0 w \<and> ?X (tenant_encryption_keys w)) (dekCache_get (cacheKey t v))
     (\<lambda>r w. case r of Inl e \<Rightarrow> ?Post (Inl e) w | Inr x \<Rightarrow> ?Mid x w)"
    by (rule hoare_post [OF hoare_dekCache_get [where X = ?X]]) auto
  fix cached
  show "hoare (?Mid cached)
     (case cached of None \<Rightarrow> await (lift (unwrapDek P s)) (\<lambda>d.
          await (dekCache_set (cacheKey t v) d) (\<lambda>_. pure \<lparr>dek = d, keyVersion = v\<rparr>))
      | Some d \<Rightarrow> pure \<lparr>dek = d, keyVersion = v\<rparr>) ?Post"
  proof (intro hoare_option)
    fix d assume "cached = Some d"
    then show "hoare (?Mid cached) (pure \<lparr>dek = d, keyVersion = v\<rparr>) ?Post"
      by (auto intro: hoare_pure)
  next
    show "hoare (?Mid cached) (await (lift (unwrapDek P s)) (\<lambda>d.
        await (dekCache_set (cacheKey t v) d) (\<lambda>_. pure \<lparr>dek = d, keyVersion = v\<rparr>))) ?Post"
    proof (rule hoareI)
      fix w r w' assume mid: "?Mid cached w"
        and run: "await (lift (unwrapDek P s)) (\<lambda>d.
          await (dekCache_set (cacheKey t v) d) (\<lambda>_. pure \<lparr>dek = d, keyVersion = v\<rparr>)) w = (r, w')"
      then obtain d where u: "unwrapDek P s = Inr d"
        and kd: "key_dek P (tenant_encryption_keys w) t v = Some d"
        using wrapped_key_dek by (fastforce simp: keyed_def dek_inv_def)
      obtain r1 w1 where set: "dekCache_set (cacheKey t v) d w = (r1, w1)" by fastforce
      have "keyed P r0 w1 \<and> key_dek P (tenant_encryption_keys w1) t v = Some d \<and> r1 = Inr ()"
        using hoareD [OF hoare_dekCache_set _ set] mid kd by blast
      then show "?Post r w'" using run u set by auto
    qed
  qed
qed

text \<open>A lookup by version returns the key the table stands for, cached or not.\<close>

lemma hoare_getDekForVersion:
  "hoare (keyed P r0) (getDekForVersion P tid v)
     (\<lambda>r w. keyed P r0 w \<and> (\<forall>d. r = Inr d \<longrightarrow>
        key_dek P (tenant_encryption_keys w) (resolveTenantKeyId tid) v = Some d))"
proof (rule hoareI)
  let ?t = "resolveTenantKeyId tid"
  fix w r w' assume k: "keyed P r0 w" and run: "getDekForVersion P tid v w = (r, w')"
  obtain r1 w1 where get: "dekCache_get (cacheKey ?t v) w = (r1, w1)" by fastforce
  obtain cached where r1: "r1 = Inr cached" and k1: "keyed P r0 w1"
    and hit: "\<And>d. cached = Some d \<Longrightarrow> key_dek P (tenant_encryption_keys w1) ?t v = Some d"
    using hoareD [OF hoare_dekCache_get [where X = "\<lambda>_. True"] _ get] k by auto
  show "keyed P r0 w' \<and> (\<forall>d. r = Inr d \<longrightarrow> key_dek P (tenant_encryption_keys w') ?t v = Some d)"
  proof (cases cached)
    case (Some d)
    with run get r1 k1 hit show ?thesis by (auto simp: getDekForVersion_def Let_def)
  next
    case None
    let ?sel = "select_rows tenant_encryption_keys (\<lambda>r. tk_tenantId r = ?t \<and> tk_keyVersion r = v)"
    obtain r2 w2 where sel: "?sel w1 = (r2, w2)" by fastforce
    have "preserves (keyed P r0) ?sel" by (intro io_rules) simp
    then have k2: "keyed P r0 w2" using sel k1 by (rule preservesD)
    show ?thesis
    proof (cases r2)
      case (Inl e)
      with run get r1 None sel k2 show ?thesis by (auto simp: getDekForVersion_def Let_def)
    next
      case (Inr rows)
      then have rows: "rows = filter (\<lambda>r. tk_tenantId r = ?t \<and> tk_keyVersion r = v)
          (tenant_encryption_keys w2)" using sel by (auto simp: select_Inr)
      show ?thesis
      proof (cases "row0 rows")
        case None
        with run get r1 \<open>cached = None\<close> sel Inr k2 show ?thesis
          by (auto simp: getDekForVersion_def Let_def)
      next
        case (Some row)
        have wr: "wrapped_of (tenant_encryption_keys w2) (?t, v) = Some (tk_wrappedDek row)"
          using Some row0_wrapped [of ?t v "tenant_encryption_keys w2"] by (simp add: rows)
        obtain r3 w3 where un: "unwrapAndCache P ?t v (tk_wrappedDek row) w2 = (r3, w3)" by fastforce
        have "keyed P r0 w3 \<and> (\<forall>x. r3 = Inr x \<longrightarrow> keyVersion x = v \<and>
            key_dek P (tenant_encryption_keys w3) ?t v = Some (dek x))"
          using hoareD [OF hoare_unwrapAndCache _ un] k2 wr by blast
        with run get r1 None sel Inr Some un \<open>cached = None\<close> show ?thesis
          by (cases r3) (auto simp: getDekForVersion_def Let_def)
      qed
    qed
  qed
qed

section \<open>Provisioning\<close>

lemma no_rows_of_tenant:
  "keys_ok P rows \<Longrightarrow> \<not> active_exists t rows \<Longrightarrow> r \<in> set rows \<Longrightarrow> tk_tenantId r \<noteq> t"
  unfolding keys_ok_def active_exists_def is_active_def list_ex_iff by metis

lemma new_key_row_simps [simp]:
  "tk_tenantId (new_key_row t v s c) = t" "tk_keyVersion (new_key_row t v s c) = v"
  "tk_wrappedDek (new_key_row t v s c) = s" "is_active (new_key_row t v s c)"
  by (simp_all add: new_key_row_def is_active_def)

lemma keys_ok_append:
  assumes ok: "keys_ok P rows" and no: "\<not> active_exists t rows" and v: "1 \<le> v"
    and u: "unwrapDek P s = Inr d" "length d = 32"
  shows "keys_ok P (rows @ [new_key_row t v s c])"
proof -
  let ?n = "new_key_row t v s c"
  note other = no_rows_of_tenant [OF ok no]
  have "distinct (map (\<lambda>r. (tk_tenantId r, tk_keyVersion r)) (rows @ [?n]))"
    using ok other by (auto simp: keys_ok_def)
  moreover have "\<forall>r \<in> set (rows @ [?n]). 1 \<le> tk_keyVersion r \<and>
      (\<exists>d. unwrapDek P (tk_wrappedDek r) = Inr d \<and> length d = 32)"
    using ok u v by (auto simp: keys_ok_def)
  moreover have "\<exists>a \<in> set (rows @ [?n]).
      is_active a \<and> tk_tenantId a = tk_tenantId r \<and> tk_keyVersion r \<le> tk_keyVersion a"
    if "r \<in> set (rows @ [?n])" for r
  proof (cases "r \<in> set rows")
    case True
    then have "\<exists>a \<in> set rows.
        is_active a \<and> tk_tenantId a = tk_tenantId r \<and> tk_keyVersion r \<le> tk_keyVersion a"
      using ok unfolding keys_ok_def by blast
    then show ?thesis by (auto intro!: disjI2)
  next
    case False
    then have "r = ?n" using that by simp
    then show ?thesis by (intro bexI [of _ ?n]) auto
  qed
  moreover have "\<forall>r \<in> set (rows @ [?n]). \<forall>a \<in> set (rows @ [?n]). is_active r \<longrightarrow> is_active a \<longrightarrow>
      tk_tenantId r = tk_tenantId a \<longrightarrow> tk_keyVersion r = tk_keyVersion a"
    using ok other by (fastforce simp: keys_ok_def)
  ultimately show ?thesis unfolding keys_ok_def by blast
qed

text \<open>An insert either leaves the table alone or appends the row; nothing else changes.\<close>

definition key_added :: "string \<Rightarrow> nat \<Rightarrow> string \<Rightarrow> 'r world \<Rightarrow> 'r world \<Rightarrow> (exn + key_row list) \<Rightarrow> bool" where
  "key_added t v s w w' r \<longleftrightarrow> (\<exists>c. \<not> key_exists t v (tenant_encryption_keys w) \<and>
     \<not> active_exists t (tenant_encryption_keys w) \<and>
     tenant_encryption_keys w' = tenant_encryption_keys w @ [new_key_row t v s c] \<and>
     dekCache w' = dekCache w \<and> activeVersionCache w' = activeVersionCache w \<and>
     (\<forall>xs. r = Inr xs \<longrightarrow> xs = [new_key_row t v s c]))"

definition key_unchanged :: "bool \<Rightarrow> 'r world \<Rightarrow> 'r world \<Rightarrow> (exn + key_row list) \<Rightarrow> bool" where
  "key_unchanged b w w' r \<longleftrightarrow> tenant_encryption_keys w' = tenant_encryption_keys w \<and>
     dekCache w' = dekCache w \<and> activeVersionCache w' = activeVersionCache w \<and>
     (\<forall>xs. r = Inr xs \<longrightarrow> b \<and> xs = [])"

lemma insert_key_cases:
  assumes run: "insert_key b t v s w = (r, w')"
  shows "key_unchanged b w w' r \<or> key_added t v s w w' r"
proof -
  let ?rows = "tenant_encryption_keys w"
  consider "key_exists t v ?rows" | "\<not> key_exists t v ?rows" "active_exists t ?rows"
    | "\<not> key_exists t v ?rows" "\<not> active_exists t ?rows" by blast
  then show ?thesis
  proof cases
    case 1
    with run have "key_unchanged b w w' r"
      by (cases "pg_fate w (ext_n w)"; cases b)
        (auto simp: insert_key_def pg_def Let_def key_unchanged_def)
    then show ?thesis ..
  next
    case 2
    with run have "key_unchanged b w w' r"
      by (cases "pg_fate w (ext_n w)") (auto simp: insert_key_def pg_def Let_def key_unchanged_def)
    then show ?thesis ..
  next
    case 3
    with run show ?thesis
      by (cases "pg_fate w (ext_n w)")
        (auto simp: insert_key_def pg_def Let_def key_unchanged_def key_added_def now_def)
  qed
qed

lemma keyed_append:
  assumes k: "keyed P r0 w" and "\<not> key_exists t v (tenant_encryption_keys w)"
    and "\<not> active_exists t (tenant_encryption_keys w)"
    and rows: "tenant_encryption_keys w' = tenant_encryption_keys w @ [new_key_row t v s c]"
    and "dekCache w' = dekCache w" and "activeVersionCache w' = activeVersionCache w"
    and "unwrapDek P s = Inr d" and "length d = 32" and "1 \<le> v"
  shows "keyed P r0 w' \<and> key_dek P (tenant_encryption_keys w') t v = Some d"
proof -
  have ext: "keys_extend P (tenant_encryption_keys w) (tenant_encryption_keys w')"
    unfolding rows using assms(2) by (rule keys_extend_append)
  have "keys_ok P (tenant_encryption_keys w')"
    unfolding rows using k assms by (intro keys_ok_append) (auto simp: keyed_def dek_inv_def)
  moreover have "caches_ok P w'"
    using k ext assms(5,6) by (intro caches_ok_mono [of P w w']) (auto simp: keyed_def dek_inv_def)
  moreover have "keys_extend P r0 (tenant_encryption_keys w')"
    using k ext by (auto simp: keyed_def intro: keys_extend_trans)
  moreover have "key_dek P (tenant_encryption_keys w') t v = Some d"
    using assms(2,7) by (simp add: key_dek_def rows wrapped_append)
  ultimately show ?thesis by (simp add: keyed_def dek_inv_def)
qed

text \<open>The key material of a new row: 32 random bytes, wrapped so that it opens again.\<close>

lemma fresh_dek:
  assumes "gcm_laws P" and "hkdf_laws P"
  shows "hoare (keyed P r0) (await (randomBytes DEK_LENGTH_BYTES) (\<lambda>raw.
       await (wrapDek P raw) (\<lambda>s. pure (raw, s))))
     (\<lambda>r w. keyed P r0 w \<and>
        (\<forall>raw s. r = Inr (raw, s) \<longrightarrow> unwrapDek P s = Inr raw \<and> length raw = 32))"
proof (rule hoareI)
  fix w r w' assume k: "keyed P r0 w"
    and run: "await (randomBytes DEK_LENGTH_BYTES) (\<lambda>raw.
       await (wrapDek P raw) (\<lambda>s. pure (raw, s))) w = (r, w')"
  let ?w1 = "w\<lparr>draws := Suc (draws w)\<rparr>"
  let ?raw = "map (entropy w (draws w)) [0..<32]"
  have len: "length (tenantKekKey P) = 32"
    by (simp add: tenantKekKey_def length_deriveKey assms(2))
  obtain s where s: "wrapDek P ?raw ?w1 = (Inr s, ?w1\<lparr>draws := Suc (draws ?w1)\<rparr>)"
    using encryptWithKey_total [OF assms(1) len] unfolding wrapDek_def by blast
  then have r: "r = Inr (?raw, s)" and w': "w' = ?w1\<lparr>draws := Suc (draws ?w1)\<rparr>"
    using run by (auto simp: randomBytes_run await_run DEK_LENGTH_BYTES_def)
  have "unwrapDek P s = Inr ?raw"
    using decrypt_encrypt [OF assms(1) len] s unfolding wrapDek_def unwrapDek_def by blast
  moreover have "keyed P r0 w'" unfolding w' using k by (intro keyed_draws)
  ultimately show "keyed P r0 w' \<and>
      (\<forall>raw s. r = Inr (raw, s) \<longrightarrow> unwrapDek P s = Inr raw \<and> length raw = 32)"
    using r by simp
qed

lemma hoare_insert_key:
  assumes "unwrapDek P s = Inr d" and "length d = 32" and "1 \<le> v"
  shows "hoare (keyed P r0) (insert_key b t v s)
     (\<lambda>r w. keyed P r0 w \<and> (\<forall>xs. r = Inr xs \<longrightarrow> xs \<noteq> [] \<longrightarrow>
        key_dek P (tenant_encryption_keys w) t v = Some d))"
proof (rule hoareI)
  fix w r w' assume k: "keyed P r0 w" and run: "insert_key b t v s w = (r, w')"
  from insert_key_cases [OF run] show "keyed P r0 w' \<and> (\<forall>xs. r = Inr xs \<longrightarrow> xs \<noteq> [] \<longrightarrow>
      key_dek P (tenant_encryption_keys w') t v = Some d)"
  proof
    assume "key_unchanged b w w' r"
    then show ?thesis using keyed_same [OF k] by (auto simp: key_unchanged_def)
  next
    assume "key_added t v s w w' r"
    then show ?thesis using keyed_append [OF k _ _ _ _ _ assms] by (auto simp: key_added_def)
  qed
qed

end
