(* ===== verification/Demo.thy ===== *)
theory Demo
  imports Envelope Json
begin

text \<open>
  A concrete platform and an empty world, at which the hypotheses of the properties are shown to
  hold: an in-memory Redis, a toy cipher with the documented shape of AES-GCM, and constant or
  list-shuffling stand-ins for the rest. Nothing but witnesses uses it.
\<close>

definition demo_env :: env where
  "demo_env = \<lparr>PORT = 3000, NODE_ENV = ''test'', ALLOWED_ORIGINS = [''https://a''],
     GATEWAY_BASE_URL = ''https://gw'', DATABASE_URL = ''pg'', REDIS_URL = ''redis'',
     JWT_PRIVATE_KEY_PATH = ''priv'', JWT_PUBLIC_KEY_PATH = ''pub'', JWT_ALGORITHM = ''RS256'',
     JWT_KID = ''k1'', JWT_PREVIOUS_KID = Some ''k0'', JWT_PREVIOUS_PUBLIC_KEY_PATH = Some ''old'',
     ACCESS_TOKEN_TTL_SECONDS = 900, REFRESH_TOKEN_TTL_SECONDS = 604800,
     DEFAULT_USER_SCOPE = ''read'', ENCRYPTION_KEY = ''AAAA'', SAML_SP_ENTITY_ID = None,
     SAML_SP_CALLBACK_URL = None, UPSTREAM_SERVICES_CONFIG_PATH = ''routes'',
     RATE_LIMIT_WINDOW_MS = 60000, RATE_LIMIT_MAX_REQUESTS = 2, LOG_LEVEL = ''info''\<rparr>"

definition demo_seal :: "bytes \<Rightarrow> bytes \<Rightarrow> bytes \<Rightarrow> (bytes \<times> bytes) option" where
  "demo_seal k iv pt = (if length k = 32 \<and> length iv = 12 then Some (pt, take 16 k) else None)"

definition demo_open :: "bytes \<Rightarrow> bytes \<Rightarrow> bytes \<Rightarrow> bytes \<Rightarrow> bytes option" where
  "demo_open k iv tag ct =
     (if length k = 32 \<and> length iv = 12 \<and> tag = take 16 k then Some ct else None)"

definition demo_hkdf :: "bytes \<Rightarrow> bytes \<Rightarrow> string \<Rightarrow> nat \<Rightarrow> bytes" where
  "demo_hkdf k salt info n = take n (utf8 info @ replicate n 0)"

text \<open>A token is the JSON text of its key id and claims.\<close>

definition opt_json :: "string option \<Rightarrow> json" where
  "opt_json x = (case x of None \<Rightarrow> JNull | Some s \<Rightarrow> JStr s)"

definition claims_json :: "claims \<Rightarrow> json" where
  "claims_json c = JArr [JStr (cl_sub c), JStr (cl_email c), JArr (map JStr (cl_roles c)),
     JStr (auth_method_string (cl_auth_method c)), opt_json (cl_tenant_id c), JStr (cl_scope c),
     JInt (cl_iat c), JInt (cl_exp c), JInt (cl_nbf c), JStr (cl_iss c), JStr (cl_aud c),
     JStr (cl_jti c)]"

fun str_of :: "json \<Rightarrow> string" where
  "str_of (JStr s) = s"
| "str_of _ = []"

fun int_of :: "json \<Rightarrow> int" where
  "int_of (JNum m e) = m"
| "int_of _ = 0"

fun opt_of :: "json \<Rightarrow> string option" where
  "opt_of (JStr s) = Some s"
| "opt_of _ = None"

definition method_of :: "string \<Rightarrow> auth_method" where
  "method_of s = (if s = ''password'' then Password else if s = ''saml'' then Saml else Oauth)"

fun json_claims :: "json \<Rightarrow> claims option" where
  "json_claims (JArr [a, b, JArr c, d, e, f, g, h, i, j, k, l]) =
     Some \<lparr>cl_sub = str_of a, cl_email = str_of b, cl_roles = map str_of c,
       cl_auth_method = method_of (str_of d), cl_tenant_id = opt_of e, cl_scope = str_of f,
       cl_iat = int_of g, cl_exp = int_of h, cl_nbf = int_of i, cl_iss = str_of j,
       cl_aud = str_of k, cl_jti = str_of l\<rparr>"
| "json_claims _ = None"

lemma json_claims_json: "json_claims (claims_json c) = Some c"
  by (cases "cl_auth_method c"; cases "cl_tenant_id c")
    (simp_all add: claims_json_def opt_json_def JInt_def method_of_def comp_def)

definition demo_sign :: "key_like \<Rightarrow> jwt_header \<Rightarrow> claims \<Rightarrow> string" where
  "demo_sign k h c = stringify (JArr [JStr (hd_kid h), claims_json c])"

definition demo_check :: "claims \<Rightarrow> verify_options \<Rightarrow> int \<Rightarrow> jose_error + claims" where
  "demo_check c opts s =
     (if cl_iss c \<noteq> vo_issuer opts \<or> cl_aud c \<noteq> vo_audience opts \<or> s + vo_clockTolerance opts < cl_nbf c
      then Inl (JoseError ''unexpected claim'')
      else if cl_exp c \<le> s - vo_clockTolerance opts then Inl JWTExpired else Inr c)"

definition demo_verify :: "string \<Rightarrow> jwk list \<Rightarrow> verify_options \<Rightarrow> int \<Rightarrow> jose_error + claims" where
  "demo_verify t keys opts s = (case parse t of
       Some (JArr [JStr kid, cj]) \<Rightarrow> (case json_claims cj of
           Some c \<Rightarrow> if list_ex (\<lambda>k. jwk_kid k = kid) keys then demo_check c opts s
             else Inl (JoseError ''no applicable key found'')
         | None \<Rightarrow> Inl (JoseError ''invalid token''))
     | _ \<Rightarrow> Inl (JoseError ''invalid token''))"

lemma demo_verify_sign:
  "list_ex (\<lambda>j. jwk_kid j = hd_kid h) keys \<Longrightarrow>
     demo_verify (demo_sign k h c) keys opts s = demo_check c opts s"
proof -
  have "wire_json (JArr [JStr (hd_kid h), claims_json c])"
    by (simp add: claims_json_def opt_json_def JInt_def list_all_iff split: option.split)
  from parse_stringify [OF this] show "list_ex (\<lambda>j. jwk_kid j = hd_kid h) keys \<Longrightarrow> ?thesis"
    by (simp add: demo_verify_def demo_sign_def json_claims_json del: stringify.simps)
qed

definition demo :: "mem_redis platform" where
  "demo = \<lparr>env = demo_env,
     readFile = (\<lambda>p. if p \<in> {''priv'', ''pub'', ''old''} then Inr p else Inl ''ENOENT''),
     importPKCS8 = (\<lambda>pem alg. Inr (KeyLike pem)), importSPKI = (\<lambda>pem alg. Inr (KeyLike pem)),
     exportJWK = (\<lambda>k. case k of KeyLike s \<Rightarrow> [(''n'', s)]),
     jwtSign = demo_sign, jwtVerify = demo_verify, sha256 = (\<lambda>b. b), hmacSha256 = (\<lambda>k b. b),
     hkdfSha256 = demo_hkdf, gcmSeal = demo_seal, gcmOpen = demo_open,
     bcryptCompare = (\<lambda>p h. h = ''$'' @ p), bcryptHash = (\<lambda>p n b. ''$'' @ p),
     redisExec = mem_exec, pathMatch = (\<lambda>pat p. if CHR ''%'' \<in> set p then Inl ''URI malformed'' else Inr
       (if CHR ''*'' \<in> set pat then startsWith p (takeWhile (\<lambda>c. c \<noteq> CHR ''*'') pat) else pat = p)),
     zodEmail = (\<lambda>s. CHR ''@'' \<in> set s), zodUuid = (\<lambda>s. length s = 36),
     zodUrl = (\<lambda>s. startsWith s ''http'')\<rparr>"

definition redis0 :: mem_redis where
  "redis0 = \<lparr>kv = (\<lambda>_. None), up = True\<rparr>"

definition world0 :: "mem_redis world" where
  "world0 = \<lparr>users = [], refresh_tokens = [], tenant_encryption_keys = [], audit_log = [],
     redis = redis0, dekCache = [], activeVersionCache = [], cachedKeys = None,
     cachedJwksDocument = None, cachedVerifyKeySet = None, log_lines = [], clock = 1000,
     lag = (\<lambda>_. 0), pg_fate = (\<lambda>_. Served), ext_n = 0,
     uuids = (\<lambda>n. ''id'' @ show_nat n), entropy = (\<lambda>n i. of_nat (n + i)), draws = 0\<rparr>"

lemma demo_gcm: "gcm_laws demo"
  by (auto simp: gcm_laws_def demo_def demo_seal_def demo_open_def split: if_splits)

lemma demo_hkdf_laws: "hkdf_laws demo"
  by (auto simp: hkdf_laws_def demo_def demo_hkdf_def min_def)

lemma world0_simps [simp]:
  "users world0 = []" "refresh_tokens world0 = []" "tenant_encryption_keys world0 = []"
  "audit_log world0 = []" "redis world0 = redis0" "dekCache world0 = []"
  "activeVersionCache world0 = []" "cachedKeys world0 = None" "cachedJwksDocument world0 = None"
  "cachedVerifyKeySet world0 = None" "log_lines world0 = []" "clock world0 = 1000"
  "lag world0 = (\<lambda>_. 0)" "pg_fate world0 = (\<lambda>_. Served)" "ext_n world0 = 0" "draws world0 = 0"
  by (simp_all add: world0_def)

lemma demo_simps [simp]:
  "env demo = demo_env" "redisExec demo = mem_exec"
  by (simp_all add: demo_def)

end
