(* ===== verification/TenantKeyRotation.thy ===== *)
theory TenantKeyRotation
  imports TenantKeyProofs Demo
begin

text \<open>
  Provisioning, the active key, and rotation of \<open>src/services/tenantKey.service.ts\<close>:
  \<open>getActiveDek\<close> always hands out a key of the table, a rotation adds the next version and
  retires the one before, and a rotation whose \<open>COMMIT\<close> fails leaves the process with a
  cached key that no row stands for.
\<close>

text \<open>A resolved key is one the table stands for.\<close>

definition resolved :: "'r platform \<Rightarrow> key_row list \<Rightarrow> string \<Rightarrow> exn + resolved_dek \<Rightarrow> 'r world \<Rightarrow> bool" where
  "resolved P r0 t r w \<longleftrightarrow> keyed P r0 w \<and> (\<forall>x. r = Inr x \<longrightarrow>
     key_dek P (tenant_encryption_keys w) t (keyVersion x) = Some (dek x))"

lemma resolvedD: "resolved P r0 t (Inr x) w \<Longrightarrow> key_dek P (tenant_encryption_keys w) t (keyVersion x) = Some (dek x)"
  by (simp add: resolved_def)

lemma resolved_keyed: "resolved P r0 t r w \<Longrightarrow> keyed P r0 w"
  by (simp add: resolved_def)

text \<open>The tail of both lookups: record the version, then unwrap and cache its key.\<close>

lemma hoare_version_unwrap:
  "hoare (\<lambda>w. keyed P r0 w \<and> wrapped_of (tenant_encryption_keys w) (t, v) = Some s)
     (await (versionCache_set t v) (\<lambda>_. unwrapAndCache P t v s)) (resolved P r0 t)"
proof (rule hoare_await)
  let ?X = "\<lambda>rows. wrapped_of rows (t, v) = Some s"
  show "hoare (\<lambda>w. keyed P r0 w \<and> ?X (tenant_encryption_keys w)) (versionCache_set t v)
     (\<lambda>r w. case r of Inl e \<Rightarrow> resolved P r0 t (Inl e) w
       | Inr u \<Rightarrow> keyed P r0 w \<and> ?X (tenant_encryption_keys w))"
    by (rule hoare_weaken [OF hoare_versionCache_set [where X = ?X]])
      (auto simp: keyed_def dek_inv_def dest: wrapped_key_dek)
  show "hoare (\<lambda>w. keyed P r0 w \<and> ?X (tenant_encryption_keys w)) (unwrapAndCache P t v s)
     (resolved P r0 t)"
    by (rule hoare_post [OF hoare_unwrapAndCache]) (auto simp: resolved_def)
qed

lemma hoare_active_or:
  assumes "hoare (keyed P r0) m (resolved P r0 t)"
  shows "hoare (keyed P r0) (await (findActiveRow t) (\<lambda>active. case active of
       None \<Rightarrow> m
     | Some (v, s) \<Rightarrow> await (versionCache_set t v) (\<lambda>_. unwrapAndCache P t v s))) (resolved P r0 t)"
proof (rule hoare_await [where Mid = "\<lambda>o1 w. keyed P r0 w \<and> (\<forall>v s. o1 = Some (v, s) \<longrightarrow>
       wrapped_of (tenant_encryption_keys w) (t, v) = Some s)"], goal_cases)
  case 1
  show ?case
    by (rule hoare_post [OF hoare_findActiveRow]) (auto simp: resolved_def split: sum.splits)
next
  case (2 active)
  show ?case
    using hoare_weaken [OF assms, where Pre = "\<lambda>w. keyed P r0 w \<and> (\<forall>v s. active = Some (v, s) \<longrightarrow>
       wrapped_of (tenant_encryption_keys w) (t, v) = Some s)"] hoare_version_unwrap
    by (auto split: option.split prod.split intro: hoare_weaken [OF hoare_version_unwrap])
qed

section \<open>Provisioning and the active key\<close>

lemma hoare_cache_new:
  "hoare (\<lambda>w. keyed P r0 w \<and> key_dek P (tenant_encryption_keys w) t v = Some d)
     (await (dekCache_set (cacheKey t v) d) (\<lambda>_. await (versionCache_set t v) (\<lambda>_.
       pure \<lparr>dek = d, keyVersion = v\<rparr>))) (resolved P r0 t)"
proof (rule hoareI, elim conjE)
  fix w r w' assume k: "keyed P r0 w" and d: "key_dek P (tenant_encryption_keys w) t v = Some d"
    and run: "await (dekCache_set (cacheKey t v) d) (\<lambda>_. await (versionCache_set t v) (\<lambda>_.
       pure \<lparr>dek = d, keyVersion = v\<rparr>)) w = (r, w')"
  let ?w1 = "snd (dekCache_set (cacheKey t v) d w)"
  have s1: "dekCache_set (cacheKey t v) d w = (Inr (), ?w1)" by (simp add: dekCache_set_run)
  have 1: "keyed P r0 ?w1 \<and> key_dek P (tenant_encryption_keys ?w1) t v = Some d"
    using hoareD [OF hoare_dekCache_set _ s1] k d by blast
  obtain r2 w2 where s2: "versionCache_set t v ?w1 = (r2, w2)" by fastforce
  have "keyed P r0 w2 \<and> key_dek P (tenant_encryption_keys w2) t v = Some d \<and> r2 = Inr ()"
    using hoareD [OF hoare_versionCache_set [where X = "\<lambda>rows. key_dek P rows t v = Some d"] _ s2] 1
    by auto
  with run s1 s2 show "resolved P r0 t r w'" by (auto simp: resolved_def)
qed

lemma provision_alt:
  "provisionActiveKey P t =
     await (await (randomBytes DEK_LENGTH_BYTES) (\<lambda>raw. await (wrapDek P raw) (\<lambda>s. pure (raw, s))))
     (\<lambda>(raw, s). await (insert_key True t 1 s) (\<lambda>inserted. case row0 inserted of
        Some _ \<Rightarrow> await (dekCache_set (cacheKey t 1) raw) (\<lambda>_. await (versionCache_set t 1) (\<lambda>_.
           pure \<lparr>dek = raw, keyVersion = 1\<rparr>))
      | None \<Rightarrow> await (findActiveRow t) (\<lambda>existing. case existing of
           None \<Rightarrow> throw (JsError (''Failed to provision or resolve an active DEK for tenant key \"''
             @ t @ ''\"''))
         | Some (v, wrapped) \<Rightarrow>
             await (versionCache_set t v) (\<lambda>_. unwrapAndCache P t v wrapped))))"
  by (simp add: provisionActiveKey_def await_assoc)

lemma hoare_provisionActiveKey:
  assumes "gcm_laws P" and "hkdf_laws P"
  shows "hoare (keyed P r0) (provisionActiveKey P t) (resolved P r0 t)"
  unfolding provision_alt
proof (rule hoare_await [where Mid = "\<lambda>(raw, s) w. keyed P r0 w \<and>
     unwrapDek P s = Inr raw \<and> length raw = 32"], goal_cases)
  case 1
  show ?case
    by (rule hoare_post [OF fresh_dek [OF assms]]) (auto simp: resolved_def split: sum.splits)
next
  case (2 x)
  obtain raw s where x: "x = (raw, s)" by fastforce
  show ?case unfolding x prod.case
  proof (rule hoare_await [where Mid = "\<lambda>xs w. keyed P r0 w \<and> (xs \<noteq> [] \<longrightarrow>
        key_dek P (tenant_encryption_keys w) t 1 = Some raw)"], goal_cases)
    case 1
    show ?case
    proof (rule hoareI, elim conjE)
      fix w r w' assume "keyed P r0 w" "unwrapDek P s = Inr raw" "length raw = 32"
        and "insert_key True t 1 s w = (r, w')"
      then have "keyed P r0 w' \<and> (\<forall>xs. r = Inr xs \<longrightarrow> xs \<noteq> [] \<longrightarrow>
          key_dek P (tenant_encryption_keys w') t 1 = Some raw)"
        using hoareD [OF hoare_insert_key [where d = raw]] by blast
      then show "case r of Inl e \<Rightarrow> resolved P r0 t (Inl e) w'
          | Inr xs \<Rightarrow> keyed P r0 w' \<and> (xs \<noteq> [] \<longrightarrow>
              key_dek P (tenant_encryption_keys w') t 1 = Some raw)"
        by (auto simp: resolved_def split: sum.splits)
    qed
  next
    case (2 xs)
    show ?case
    proof (rule hoare_option)
      show "hoare (\<lambda>w. keyed P r0 w \<and> (xs \<noteq> [] \<longrightarrow>
          key_dek P (tenant_encryption_keys w) t 1 = Some raw)) (await (findActiveRow t)
          (\<lambda>existing. case existing of
           None \<Rightarrow> throw (JsError (''Failed to provision or resolve an active DEK for tenant key \"''
             @ t @ ''\"''))
         | Some (v, wrapped) \<Rightarrow>
             await (versionCache_set t v) (\<lambda>_. unwrapAndCache P t v wrapped))) (resolved P r0 t)"
        by (rule hoare_weaken [OF hoare_active_or])
          (auto intro!: hoare_throw simp: resolved_def)
    next
      fix y assume "row0 xs = Some y"
      then have "xs \<noteq> []" by auto
      then show "hoare (\<lambda>w. keyed P r0 w \<and> (xs \<noteq> [] \<longrightarrow>
          key_dek P (tenant_encryption_keys w) t 1 = Some raw))
          (await (dekCache_set (cacheKey t 1) raw) (\<lambda>_. await (versionCache_set t 1) (\<lambda>_.
           pure \<lparr>dek = raw, keyVersion = 1\<rparr>))) (resolved P r0 t)"
        by (intro hoare_weaken [OF hoare_cache_new]) auto
    qed
  qed
qed

lemma hoare_getActiveDek:
  assumes "gcm_laws P" and "hkdf_laws P"
  shows "hoare (keyed P r0) (getActiveDek P tid) (resolved P r0 (resolveTenantKeyId tid))"
proof -
  let ?t = "resolveTenantKeyId tid"
  let ?slow = "await (findActiveRow ?t) (\<lambda>active. case active of
             None \<Rightarrow> provisionActiveKey P ?t
           | Some (v, s) \<Rightarrow> await (versionCache_set ?t v) (\<lambda>_. unwrapAndCache P ?t v s))"
  have slow: "hoare (keyed P r0) ?slow (resolved P r0 ?t)"
    by (rule hoare_active_or [OF hoare_provisionActiveKey [OF assms]])
  show ?thesis unfolding getActiveDek_def Let_def
  proof (rule hoare_await [where Mid = "\<lambda>_. keyed P r0"], goal_cases)
    case 1
    show ?case by (rule hoare_post [OF hoare_versionCache_get]) auto
  next
    case (2 cv)
    show ?case
    proof (intro hoare_option slow)
      fix v
      show "hoare (keyed P r0) (await (dekCache_get (cacheKey ?t v)) (\<lambda>cachedDek. case cachedDek of
          None \<Rightarrow> ?slow | Some d \<Rightarrow> pure \<lparr>dek = d, keyVersion = v\<rparr>)) (resolved P r0 ?t)"
      proof (rule hoare_await [where Mid = "\<lambda>o1 w. keyed P r0 w \<and> (\<forall>d. o1 = Some d \<longrightarrow>
          key_dek P (tenant_encryption_keys w) ?t v = Some d)"], goal_cases)
        case 1
        show ?case
          by (rule hoare_weaken [OF hoare_dekCache_get [where X = "\<lambda>_. True"]]) auto
      next
        case (2 o1)
        show ?case
          by (cases o1) (auto intro!: hoare_pure hoare_weaken [OF slow] simp: resolved_def)
      qed
    qed
  qed
qed

section \<open>Rotation\<close>

text \<open>
  The table after a rotation: every row of the tenant made inactive, nothing else touched, and
  a new active row of a version above all of them.
\<close>

lemma keys_ok_rotated:
  assumes ok: "keys_ok P rows"
    and f: "\<And>r. tk_tenantId (f r) = tk_tenantId r" "\<And>r. tk_keyVersion (f r) = tk_keyVersion r"
      "\<And>r. tk_wrappedDek (f r) = tk_wrappedDek r" "\<And>r. tk_tenantId r \<noteq> t \<Longrightarrow> f r = r"
    and inact: "\<And>r. r \<in> set rows \<Longrightarrow> tk_tenantId r = t \<Longrightarrow> \<not> is_active (f r)"
    and below: "\<And>r. r \<in> set rows \<Longrightarrow> tk_tenantId r = t \<Longrightarrow> tk_keyVersion r < v"
    and v: "1 \<le> v" and u: "unwrapDek P s = Inr d" "length d = 32"
  shows "keys_ok P (map f rows @ [new_key_row t v s c])"
proof -
  let ?n = "new_key_row t v s c" and ?rows = "map f rows"
  have "distinct (map (\<lambda>r. (tk_tenantId r, tk_keyVersion r)) rows)"
    using ok by (simp add: keys_ok_def)
  then have "distinct (map (\<lambda>r. (tk_tenantId r, tk_keyVersion r)) (?rows @ [?n]))"
    using below by (auto simp: f comp_def)
  moreover have "\<forall>r \<in> set (?rows @ [?n]). 1 \<le> tk_keyVersion r \<and>
      (\<exists>d. unwrapDek P (tk_wrappedDek r) = Inr d \<and> length d = 32)"
    using ok u v by (auto simp: keys_ok_def f)
  moreover have "\<exists>a \<in> set (?rows @ [?n]).
      is_active a \<and> tk_tenantId a = tk_tenantId r \<and> tk_keyVersion r \<le> tk_keyVersion a"
    if "r \<in> set (?rows @ [?n])" for r
  proof (cases "tk_tenantId r = t")
    case True
    have "tk_keyVersion r \<le> v"
    proof (cases "r = ?n")
      case False
      with that True below show ?thesis by (auto simp: f less_imp_le)
    qed simp
    with True show ?thesis by (intro bexI [of _ ?n]) auto
  next
    case False
    then have "r \<in> set rows" using that f(1,4) by fastforce
    then obtain a where "a \<in> set rows" "is_active a" "tk_tenantId a = tk_tenantId r"
      "tk_keyVersion r \<le> tk_keyVersion a" using ok unfolding keys_ok_def by blast
    moreover have "f a = a" using False calculation f(4) by simp
    ultimately show ?thesis by (metis image_eqI in_set_conv_decomp list.set_map append_is_Nil_conv Un_iff set_append)
  qed
  moreover have "tk_keyVersion r = tk_keyVersion a"
    if "r \<in> set (?rows @ [?n])" "a \<in> set (?rows @ [?n])" "is_active r" "is_active a"
      "tk_tenantId r = tk_tenantId a" for r a
  proof (cases "tk_tenantId r = t")
    case True
    then have "r = ?n" "a = ?n" using that inact by (auto simp: f)
    then show ?thesis by simp
  next
    case False
    then have "r \<in> set rows" "a \<in> set rows" using that f(1,4) by fastforce+
    with that ok show ?thesis unfolding keys_ok_def by blast
  qed
  ultimately show ?thesis unfolding keys_ok_def by blast
qed

lemma keys_ok_distinct: "keys_ok P rows \<Longrightarrow> distinct (map (\<lambda>r. (tk_tenantId r, tk_keyVersion r)) rows)"
  by (simp add: keys_ok_def)

lemma keys_ok_top:
  "keys_ok P rows \<Longrightarrow> r \<in> set rows \<Longrightarrow>
     \<exists>a \<in> set rows. is_active a \<and> tk_tenantId a = tk_tenantId r \<and> tk_keyVersion r \<le> tk_keyVersion a"
  unfolding keys_ok_def by blast

lemma keys_ok_one_active:
  assumes "keys_ok P rows" and "r \<in> set rows" "a \<in> set rows" "is_active r" "is_active a"
    and "tk_tenantId r = tk_tenantId a"
  shows "r = a"
proof -
  have "tk_keyVersion r = tk_keyVersion a" using assms unfolding keys_ok_def by blast
  then show ?thesis using assms
    by (intro distinct_map_unique [OF keys_ok_distinct [OF assms(1)]]) auto
qed

lemma active_rows_single:
  assumes ok: "keys_ok P rows"
  shows "filter (\<lambda>r. tk_tenantId r = t \<and> tk_status r = ''active'') rows = [] \<and>
      (\<forall>r \<in> set rows. tk_tenantId r \<noteq> t) \<or>
    (\<exists>a \<in> set rows. tk_tenantId a = t \<and> is_active a \<and>
      filter (\<lambda>r. tk_tenantId r = t \<and> tk_status r = ''active'') rows = [a] \<and>
      (\<forall>r \<in> set rows. tk_tenantId r = t \<longrightarrow> tk_keyVersion r \<le> tk_keyVersion a))"
proof (cases "\<exists>r \<in> set rows. tk_tenantId r = t")
  case False
  then show ?thesis by (auto simp: filter_empty_conv)
next
  case True
  then obtain r0 where "r0 \<in> set rows" "tk_tenantId r0 = t" by blast
  then obtain a where a: "a \<in> set rows" "is_active a" "tk_tenantId a = t"
    using keys_ok_top [OF ok] by blast
  have same: "r = a" if "r \<in> set rows" "tk_tenantId r = t" "is_active r" for r
    using keys_ok_one_active [OF ok that(1) a(1)] that a by simp
  let ?key = "\<lambda>r. (tk_tenantId r, tk_keyVersion r)"
  have dist: "distinct (map ?key rows)" by (rule keys_ok_distinct [OF ok])
  have "(tk_tenantId r = t \<and> tk_status r = ''active'') = (?key r = ?key a)" if "r \<in> set rows" for r
  proof
    assume "tk_tenantId r = t \<and> tk_status r = ''active''"
    then have "r = a" using same [OF that] by (simp add: is_active_def)
    then show "?key r = ?key a" by simp
  next
    assume "?key r = ?key a"
    then have "r = a" by (rule distinct_map_unique [OF dist that a(1)])
    then show "tk_tenantId r = t \<and> tk_status r = ''active''" using a by (simp add: is_active_def)
  qed
  then have "filter (\<lambda>r. tk_tenantId r = t \<and> tk_status r = ''active'') rows =
      filter (\<lambda>r. ?key r = ?key a) rows"
    by (intro filter_cong refl)
  also have "\<dots> = [a]"
    by (rule filter_eq_single [OF dist a(1)])
  finally have "filter (\<lambda>r. tk_tenantId r = t \<and> tk_status r = ''active'') rows = [a]" .
  moreover have "tk_keyVersion r \<le> tk_keyVersion a" if "r \<in> set rows" "tk_tenantId r = t" for r
    using keys_ok_top [OF ok that(1)] same that by auto
  ultimately show ?thesis using a by blast
qed

subsection \<open>The transaction body\<close>

lemma wrap_fresh:
  assumes "gcm_laws P" and "hkdf_laws P"
  obtains raw s n where "randomBytes DEK_LENGTH_BYTES w = (Inr raw, w\<lparr>draws := Suc (draws w)\<rparr>)"
    and "wrapDek P raw (w\<lparr>draws := Suc (draws w)\<rparr>) = (Inr s, w\<lparr>draws := n\<rparr>)"
    and "unwrapDek P s = Inr raw" and "length raw = 32"
proof -
  let ?raw = "map (entropy w (draws w)) [0..<32]" and ?w1 = "w\<lparr>draws := Suc (draws w)\<rparr>"
  have len: "length (tenantKekKey P) = 32"
    by (simp add: tenantKekKey_def length_deriveKey assms(2))
  obtain s where s: "wrapDek P ?raw ?w1 = (Inr s, ?w1\<lparr>draws := Suc (draws ?w1)\<rparr>)"
    using encryptWithKey_total [OF assms(1) len] unfolding wrapDek_def by blast
  have "unwrapDek P s = Inr ?raw"
    using decrypt_encrypt [OF assms(1) len] s unfolding wrapDek_def unwrapDek_def by blast
  then show thesis
    using s by (intro that [of ?raw s "Suc (Suc (draws w))"])
      (simp_all add: randomBytes_run DEK_LENGTH_BYTES_def)
qed

text \<open>The new key: wrapped, inserted, cached.\<close>

definition rotate_tail :: "'r platform \<Rightarrow> string \<Rightarrow> nat \<Rightarrow> ('r, resolved_dek) gw" where
  "rotate_tail P t v =
     await (randomBytes DEK_LENGTH_BYTES) (\<lambda>rawDek.
     await (wrapDek P rawDek) (\<lambda>wrappedDek.
     await (insert_key False t v wrappedDek) (\<lambda>_.
     await (dekCache_set (cacheKey t v) rawDek) (\<lambda>_.
     await (versionCache_set t v) (\<lambda>_. pure \<lparr>dek = rawDek, keyVersion = v\<rparr>)))))"

definition caches_same :: "'r world \<Rightarrow> 'r world \<Rightarrow> bool" where
  "caches_same w w' \<longleftrightarrow> dekCache w' = dekCache w \<and> activeVersionCache w' = activeVersionCache w"

definition cached_new :: "string \<Rightarrow> resolved_dek \<Rightarrow> 'r world \<Rightarrow> 'r world \<Rightarrow> bool" where
  "cached_new t x w w' \<longleftrightarrow>
     dekCache w' = lru_set MAX_CACHED_DEKS (cacheKey t (keyVersion x)) (dek x) (dekCache w) \<and>
     activeVersionCache w' = lru_set MAX_CACHED_DEKS t (keyVersion x) (activeVersionCache w)"

lemma rotate_tail_run:
  assumes laws: "gcm_laws P" "hkdf_laws P" and run: "rotate_tail P t v w = (r, w')"
  shows "isl r \<and> caches_same w w' \<or>
    (\<exists>x s c. r = Inr x \<and> keyVersion x = v \<and> unwrapDek P s = Inr (dek x) \<and> length (dek x) = 32 \<and>
       tenant_encryption_keys w' = tenant_encryption_keys w @ [new_key_row t v s c] \<and>
       cached_new t x w w')"
proof -
  obtain raw s n where raw: "randomBytes DEK_LENGTH_BYTES w = (Inr raw, w\<lparr>draws := Suc (draws w)\<rparr>)"
    and s: "wrapDek P raw (w\<lparr>draws := Suc (draws w)\<rparr>) = (Inr s, w\<lparr>draws := n\<rparr>)"
    and u: "unwrapDek P s = Inr raw" "length raw = 32"
    using wrap_fresh [OF laws] .
  obtain r1 w1 where ins: "insert_key False t v s (w\<lparr>draws := n\<rparr>) = (r1, w1)" by fastforce
  note cases = insert_key_cases [OF ins]
  show ?thesis
  proof (cases r1)
    case (Inl e)
    with run raw s ins have "r = Inl e" "w' = w1" by (simp_all add: rotate_tail_def)
    with cases Inl show ?thesis by (auto simp: caches_same_def key_unchanged_def key_added_def)
  next
    case (Inr xs)
    with cases obtain c where rows: "tenant_encryption_keys w1 =
        tenant_encryption_keys w @ [new_key_row t v s c]"
      and same: "dekCache w1 = dekCache w" "activeVersionCache w1 = activeVersionCache w"
      by (auto simp: key_unchanged_def key_added_def)
    have "r = Inr \<lparr>dek = raw, keyVersion = v\<rparr>"
      and "cached_new t \<lparr>dek = raw, keyVersion = v\<rparr> w w'"
      and "tenant_encryption_keys w' = tenant_encryption_keys w1"
      using run raw s ins Inr same by (auto simp: rotate_tail_def cache_run cached_new_def)
    with u rows show ?thesis by (auto intro!: exI [of _ s] exI [of _ c])
  qed
qed

lemma rotate_tx_alt:
  "rotate_tx P t = await (select_rows tenant_encryption_keys
       (\<lambda>r. tk_tenantId r = t \<and> tk_status r = ''active'')) (\<lambda>rows.
     case row0 (take 1 (latest_first rows)) of
       None \<Rightarrow> rotate_tail P t 1
     | Some a \<Rightarrow> await (retire_key t (tk_keyVersion a)) (\<lambda>_. rotate_tail P t (tk_keyVersion a + 1)))"
  unfolding rotate_tx_def rotate_tail_def
  by (rule arg_cong [where f = "await _"], rule ext) (simp add: Let_def split: option.split)

text \<open>The key a rotation made: everything its caller and the invariant need.\<close>

definition rotated :: "'r platform \<Rightarrow> string \<Rightarrow> resolved_dek \<Rightarrow> key_row list \<Rightarrow> key_row list \<Rightarrow> bool" where
  "rotated P t x rows rows' \<longleftrightarrow> keys_ok P rows' \<and> keys_extend P rows rows' \<and>
     key_dek P rows' t (keyVersion x) = Some (dek x) \<and>
     (\<forall>r \<in> set rows. tk_tenantId r = t \<longrightarrow> tk_keyVersion r < keyVersion x) \<and>
     (\<forall>r \<in> set rows'. tk_tenantId r = t \<longrightarrow> is_active r \<longrightarrow> tk_keyVersion r = keyVersion x) \<and>
     (\<forall>r \<in> set rows. tk_tenantId r \<noteq> t \<longrightarrow> r \<in> set rows')"

lemma rotatedI:
  assumes ok: "keys_ok P rows"
    and f: "\<And>r. tk_tenantId (f r) = tk_tenantId r" "\<And>r. tk_keyVersion (f r) = tk_keyVersion r"
      "\<And>r. tk_wrappedDek (f r) = tk_wrappedDek r" "\<And>r. tk_tenantId r \<noteq> t \<Longrightarrow> f r = r"
    and inact: "\<And>r. r \<in> set rows \<Longrightarrow> tk_tenantId r = t \<Longrightarrow> \<not> is_active (f r)"
    and below: "\<And>r. r \<in> set rows \<Longrightarrow> tk_tenantId r = t \<Longrightarrow> tk_keyVersion r < v"
    and v: "1 \<le> v" and u: "unwrapDek P s = Inr (dek x)" "length (dek x) = 32" and x: "keyVersion x = v"
  shows "rotated P t x rows (map f rows @ [new_key_row t v s c])"
proof -
  have wrapped: "wrapped_of (map f rows) = wrapped_of rows"
    by (simp add: wrapped_of_def comp_def f)
  have no: "\<not> key_exists t v (map f rows)"
    using below by (fastforce simp: key_exists_def list_ex_iff f)
  have "keys_extend P rows (map f rows @ [new_key_row t v s c])"
    using keys_extend_trans [OF keys_extend_wrapped [OF wrapped] keys_extend_append [OF no]] .
  moreover have "key_dek P (map f rows @ [new_key_row t v s c]) t v = Some (dek x)"
    by (simp add: key_dek_def wrapped_append [OF no] u)
  moreover have "keys_ok P (map f rows @ [new_key_row t v s c])"
    by (rule keys_ok_rotated [OF ok f inact below v u])
  moreover have "\<forall>r \<in> set (map f rows @ [new_key_row t v s c]).
      tk_tenantId r = t \<longrightarrow> is_active r \<longrightarrow> tk_keyVersion r = v"
    using inact by (auto simp: f)
  moreover have "\<forall>r \<in> set rows. tk_tenantId r \<noteq> t \<longrightarrow> r \<in> set (map f rows @ [new_key_row t v s c])"
    using f(4) by force
  ultimately show ?thesis using below x unfolding rotated_def by blast
qed

text \<open>The tail after the previous key has been retired.\<close>

lemma rotate_next:
  assumes laws: "gcm_laws P" "hkdf_laws P" and ok: "keys_ok P (tenant_encryption_keys w)"
    and a: "a \<in> set (tenant_encryption_keys w)" "tk_tenantId a = t" "is_active a"
    and top: "\<forall>r \<in> set (tenant_encryption_keys w). tk_tenantId r = t \<longrightarrow> tk_keyVersion r \<le> tk_keyVersion a"
    and run: "await (retire_key t (tk_keyVersion a)) (\<lambda>_. rotate_tail P t (tk_keyVersion a + 1)) w = (r, w')"
  shows "isl r \<and> caches_same w w' \<or>
    (\<exists>x. r = Inr x \<and> rotated P t x (tenant_encryption_keys w) (tenant_encryption_keys w') \<and> cached_new t x w w')"
proof -
  let ?rows = "tenant_encryption_keys w"
  let ?retire = "\<lambda>r. if tk_tenantId r = t \<and> tk_keyVersion r = tk_keyVersion a
      then r\<lparr>tk_status := ''retired'', tk_retiredAt := Some (clock w)\<rparr> else r"
  obtain r2 w2 where ret: "retire_key t (tk_keyVersion a) w = (r2, w2)" by fastforce
  have same2: "caches_same w w2"
    using ret by (auto simp: retire_key_def now_def pg_def Let_def caches_same_def split: fate.splits)
  show ?thesis
  proof (cases r2)
    case (Inl e)
    with run ret same2 show ?thesis by auto
  next
    case (Inr u)
    have rows2: "tenant_encryption_keys w2 = map ?retire ?rows"
      using ret Inr by (auto simp: retire_key_def now_def pg_Inr set_where_def)
    have "rotate_tail P t (tk_keyVersion a + 1) w2 = (r, w')" using run ret Inr by simp
    from rotate_tail_run [OF laws this] show ?thesis
    proof (elim disjE exE conjE, goal_cases)
      case 1 with same2 show ?case by (simp add: caches_same_def)
    next
      case (2 x s c)
      have "rotated P t x ?rows (tenant_encryption_keys w2 @ [new_key_row t (tk_keyVersion a + 1) s c])"
        unfolding rows2
      proof (rule rotatedI [OF ok])
        fix r assume r: "r \<in> set ?rows" "tk_tenantId r = t"
        then show "tk_keyVersion r < tk_keyVersion a + 1" using top by fastforce
        have "is_active r \<Longrightarrow> r = a" using keys_ok_one_active [OF ok r(1) a(1)] a r by simp
        then show "\<not> is_active (?retire r)" using a by (auto simp: is_active_def)
      qed (use 2 in auto)
      with 2 same2 show ?case by (auto simp: caches_same_def cached_new_def)
    qed
  qed
qed

lemma rotate_tx_run:
  assumes laws: "gcm_laws P" "hkdf_laws P" and ok: "keys_ok P (tenant_encryption_keys w)"
    and run: "rotate_tx P t w = (r, w')"
  shows "isl r \<and> caches_same w w' \<or>
    (\<exists>x. r = Inr x \<and> rotated P t x (tenant_encryption_keys w) (tenant_encryption_keys w') \<and>
       cached_new t x w w')"
proof -
  let ?rows = "tenant_encryption_keys w"
  let ?cond = "\<lambda>r. tk_tenantId r = t \<and> tk_status r = ''active''"
  obtain r1 w1 where sel: "select_rows tenant_encryption_keys ?cond w = (r1, w1)" by fastforce
  have w1: "tenant_encryption_keys w1 = ?rows" "caches_same w w1"
    using sel by (auto simp: select_rows_def pg_def Let_def caches_same_def split: fate.splits)
  show ?thesis
  proof (cases r1)
    case (Inl e)
    with run sel w1 show ?thesis by (auto simp: rotate_tx_alt)
  next
    case (Inr rows)
    then have rows: "rows = filter ?cond ?rows" using sel by (auto simp: select_Inr)
    from active_rows_single [OF ok, of t] show ?thesis
    proof (elim disjE conjE bexE)
      assume none: "filter ?cond ?rows = []" "\<forall>r \<in> set ?rows. tk_tenantId r \<noteq> t"
      then have "rotate_tail P t 1 w1 = (r, w')"
        using run sel Inr rows by (simp add: rotate_tx_alt latest_first_def)
      from rotate_tail_run [OF laws this] show ?thesis
      proof (elim disjE exE conjE, goal_cases)
        case 1 with w1 show ?case by (simp add: caches_same_def)
      next
        case (2 x s c)
        have "rotated P t x ?rows (map id ?rows @ [new_key_row t 1 s c])"
          using none 2 by (intro rotatedI [OF ok]) auto
        with 2 w1 show ?case by (auto simp: caches_same_def cached_new_def)
      qed
    next
      fix a assume a: "a \<in> set ?rows" "tk_tenantId a = t" "is_active a" "filter ?cond ?rows = [a]"
        and top: "\<forall>r \<in> set ?rows. tk_tenantId r = t \<longrightarrow> tk_keyVersion r \<le> tk_keyVersion a"
      have "await (retire_key t (tk_keyVersion a)) (\<lambda>_. rotate_tail P t (tk_keyVersion a + 1)) w1 = (r, w')"
        using run sel Inr rows a by (simp add: rotate_tx_alt latest_first_def)
      from rotate_next [OF laws _ _ a(2,3) _ this] show ?thesis
        using ok a(1) top w1 by (auto simp: caches_same_def cached_new_def)
    qed
  qed
qed

section \<open>Properties of the service\<close>

lemma keyed_start: "dek_inv P w \<Longrightarrow> keyed P (tenant_encryption_keys w) w"
  by (simp add: keyed_def)

lemma dek_inv_world0: "dek_inv demo world0"
  by (simp add: dek_inv_def keys_ok_def caches_ok_def lru.coherent_def lru_ok_def)

text \<open>
  C16. The key that \<open>getActiveDek\<close> hands out for encryption is always one the key table stands
  for, so what it encrypts stays decryptable; the table and both caches keep their invariant,
  on success and on error, and no earlier key is lost.
\<close>

theorem getActiveDek_sound:
  assumes "gcm_laws P" and "hkdf_laws P" and "dek_inv P w"
  shows "case getActiveDek P tenantId w of (r, w') \<Rightarrow>
    dek_inv P w' \<and> keys_extend P (tenant_encryption_keys w) (tenant_encryption_keys w') \<and>
    (case r of Inl _ \<Rightarrow> True | Inr x \<Rightarrow> key_dek P (tenant_encryption_keys w')
       (resolveTenantKeyId tenantId) (keyVersion x) = Some (dek x))"
proof -
  obtain r w' where run: "getActiveDek P tenantId w = (r, w')" by fastforce
  have "resolved P (tenant_encryption_keys w) (resolveTenantKeyId tenantId) r w'"
    using hoareD [OF hoare_getActiveDek [OF assms(1,2)] keyed_start [OF assms(3)] run] .
  then show ?thesis by (auto simp: run resolved_def keyed_def split: sum.split)
qed

lemma getActiveDek_sound_witness:
  "case getActiveDek demo None world0 of (r, w') \<Rightarrow>
    dek_inv demo w' \<and> keys_extend demo (tenant_encryption_keys world0) (tenant_encryption_keys w') \<and>
    (case r of Inl _ \<Rightarrow> True | Inr x \<Rightarrow> key_dek demo (tenant_encryption_keys w')
       (resolveTenantKeyId None) (keyVersion x) = Some (dek x))"
  by (rule getActiveDek_sound [OF demo_gcm demo_hkdf_laws dek_inv_world0])



lemma rotateTenantKey_unfold:
  "rotate_tx P (resolveTenantKeyId tid) w = (Inr x, w1) \<Longrightarrow> rotateTenantKey P tid w =
     (case pg_fate w1 (ext_n w1) of
           Served \<Rightarrow> (Inr x, tick w1)
         | Refused \<Rightarrow> (Inl (PgExn ''connection refused''), rollback w (tick w1))
         | ReplyLost \<Rightarrow> (Inl (PgExn ''connection terminated''), tick w1))"
  by (simp add: rotateTenantKey_def transaction_def)

lemma caches_ok_cached_new:
  assumes ok: "caches_ok P w" and ext: "keys_extend P (tenant_encryption_keys w) (tenant_encryption_keys w')"
    and new: "key_dek P (tenant_encryption_keys w') t (keyVersion x) = Some (dek x)"
    and c: "cached_new t x w w'"
  shows "caches_ok P w'"
proof -
  let ?w = "w\<lparr>tenant_encryption_keys := tenant_encryption_keys w'\<rparr>"
  have "caches_ok P ?w" by (rule caches_ok_mono [OF ok]) (simp_all add: ext)
  then show ?thesis
    using new c unfolding caches_ok_def cached_new_def by (auto intro!: lru.coherent_put)
qed


lemma rotate_tx_empty:
  assumes "gcm_laws P" and "hkdf_laws P" and "tenant_encryption_keys w = []"
    and "pg_fate w (ext_n w) = Served" and "pg_fate w (Suc (ext_n w)) = Served"
  shows "\<exists>x w1. rotate_tx P t w = (Inr x, w1) \<and> pg_fate w1 = pg_fate w \<and> ext_n w1 = Suc (Suc (ext_n w))"
proof -
  obtain raw s n where "randomBytes DEK_LENGTH_BYTES (tick w) =
        (Inr raw, (tick w)\<lparr>draws := Suc (draws (tick w))\<rparr>)"
    and "wrapDek P raw ((tick w)\<lparr>draws := Suc (draws (tick w))\<rparr>) = (Inr s, (tick w)\<lparr>draws := n\<rparr>)"
    using wrap_fresh [OF assms(1,2)] .
  then show ?thesis using assms(3-)
    by (simp add: rotate_tx_alt rotate_tail_def select_rows_def pg_def Let_def latest_first_def
        insert_key_def key_exists_def active_exists_def cache_run now_def)
qed


text \<open>
  When the \<open>COMMIT\<close> of a rotation is refused, the rotation is reported as failed and the
  tables are as before, but the process goes on handing out the key it generated: a version
  that no row of the table stands for, without asking the database. What is encrypted with it
  cannot be decrypted by anybody else.
\<close>

theorem rotate_commit_refused:
  assumes "gcm_laws P" and "hkdf_laws P" and "dek_inv P w"
    and "rotate_tx P (resolveTenantKeyId tenantId) w = (Inr x, w1)"
    and "pg_fate w1 (ext_n w1) = Refused"
  shows "case rotateTenantKey P tenantId w of (r, w') \<Rightarrow>
     isl r \<and> tenant_encryption_keys w' = tenant_encryption_keys w \<and>
     key_dek P (tenant_encryption_keys w') (resolveTenantKeyId tenantId) (keyVersion x) = None \<and>
     fst (getActiveDek P tenantId w') = Inr x"
proof -
  let ?t = "resolveTenantKeyId tenantId"
  have "keys_ok P (tenant_encryption_keys w)" using assms(3) by (simp add: dek_inv_def)
  from rotate_tx_run [OF assms(1,2) this assms(4)]
  have rot: "rotated P ?t x (tenant_encryption_keys w) (tenant_encryption_keys w1)"
    and c: "cached_new ?t x w w1" by auto
  have "wrapped_of (tenant_encryption_keys w) (?t, keyVersion x) = None"
    using rot wrapped_of_in [of "tenant_encryption_keys w" ?t "keyVersion x"]
    by (cases "wrapped_of (tenant_encryption_keys w) (?t, keyVersion x)") (auto simp: rotated_def)
  moreover have "map_of (activeVersionCache w1) ?t = Some (keyVersion x)"
    and "map_of (dekCache w1) (cacheKey ?t (keyVersion x)) = Some (dek x)"
    using c by (simp_all add: cached_new_def lru_set_hit MAX_CACHED_DEKS_def)
  ultimately show ?thesis
    using assms(5) by (simp add: rotateTenantKey_unfold [OF assms(4)] key_dek_def getActiveDek_def
        Let_def await_run cache_run)
qed

lemma rotate_commit_refused_witness:
  "\<exists>x w1. rotate_tx demo (resolveTenantKeyId None) (world0\<lparr>pg_fate := (\<lambda>n. if n = 2 then Refused else Served)\<rparr>) = (Inr x, w1) \<and>
    (case rotateTenantKey demo None (world0\<lparr>pg_fate := (\<lambda>n. if n = 2 then Refused else Served)\<rparr>) of (r, w') \<Rightarrow>
     isl r \<and> tenant_encryption_keys w' = [] \<and>
     key_dek demo (tenant_encryption_keys w') (resolveTenantKeyId None) (keyVersion x) = None \<and>
     fst (getActiveDek demo None w') = Inr x)"
proof -
  let ?w = "world0\<lparr>pg_fate := (\<lambda>n. if n = 2 then Refused else Served)\<rparr>"
  have inv: "dek_inv demo ?w" using dek_inv_world0 by (simp add: dek_inv_def caches_ok_def)
  obtain x w1 where "rotate_tx demo (resolveTenantKeyId None) ?w = (Inr x, w1)"
    and "pg_fate w1 (ext_n w1) = Refused"
    using rotate_tx_empty [OF demo_gcm demo_hkdf_laws, of ?w "resolveTenantKeyId None"] by auto
  with rotate_commit_refused [OF demo_gcm demo_hkdf_laws inv this] show ?thesis by auto
qed

section \<open>With the database answering, a key is always resolved\<close>

definition pg_up :: "'r world \<Rightarrow> bool" where
  "pg_up w \<longleftrightarrow> (\<forall>n. pg_fate w n = Served)"

lemma unwrapAndCache_Inr:
  assumes "keyed P r0 w" and "wrapped_of (tenant_encryption_keys w) (t, v) = Some s"
  shows "\<exists>x w'. unwrapAndCache P t v s w = (Inr x, w')"
proof -
  obtain d where "unwrapDek P s = Inr d"
    using assms wrapped_key_dek by (fastforce simp: keyed_def dek_inv_def)
  then show ?thesis
    by (cases "map_of (dekCache w) (cacheKey t v)")
      (simp_all add: unwrapAndCache_def Let_def await_run cache_run)
qed

lemma version_unwrap_Inr:
  assumes "keyed P r0 w" and "wrapped_of (tenant_encryption_keys w) (t, v) = Some s"
  shows "\<exists>x w'. await (versionCache_set t v) (\<lambda>_. unwrapAndCache P t v s) w = (Inr x, w')"
proof -
  let ?X = "\<lambda>rows. wrapped_of rows (t, v) = Some s"
  obtain r1 w1 where set: "versionCache_set t v w = (r1, w1)" by fastforce
  have "key_dek P (tenant_encryption_keys w) t v \<noteq> None"
    using assms wrapped_key_dek by (fastforce simp: keyed_def dek_inv_def)
  then have "keyed P r0 w1 \<and> ?X (tenant_encryption_keys w1) \<and> r1 = Inr ()"
    using hoareD [OF hoare_versionCache_set [where X = ?X] _ set] assms by blast
  then show ?thesis using unwrapAndCache_Inr set by fastforce
qed

lemma slow_path_Inr:
  assumes laws: "gcm_laws P" "hkdf_laws P" and k: "keyed P r0 w" and up: "pg_up w"
  shows "\<exists>x w'. await (findActiveRow t) (\<lambda>active. case active of None \<Rightarrow> provisionActiveKey P t
     | Some (v, s) \<Rightarrow> await (versionCache_set t v) (\<lambda>_. unwrapAndCache P t v s)) w = (Inr x, w')"
proof -
  let ?cond = "\<lambda>r. tk_tenantId r = t \<and> tk_status r = ''active''"
  have find: "findActiveRow t w = (Inr (map_option (\<lambda>r. (tk_keyVersion r, tk_wrappedDek r))
      (row0 (filter ?cond (tenant_encryption_keys w)))), tick w)"
    using up by (simp add: findActiveRow_def select_rows_def pg_def Let_def pg_up_def await_run)
  have ok: "keys_ok P (tenant_encryption_keys w)" using k by (simp add: keyed_def dek_inv_def)
  show ?thesis
  proof (cases "row0 (filter ?cond (tenant_encryption_keys w))")
    case None
    then have no: "\<not> active_exists t (tenant_encryption_keys w)"
      by (auto simp: active_exists_def list_ex_iff filter_empty_conv)
    then have "\<not> key_exists t 1 (tenant_encryption_keys w)"
      using no_rows_of_tenant [OF ok no] by (auto simp: key_exists_def list_ex_iff)
    moreover obtain raw s n where
      "randomBytes DEK_LENGTH_BYTES (tick w) = (Inr raw, (tick w)\<lparr>draws := Suc (draws (tick w))\<rparr>)"
      and "wrapDek P raw ((tick w)\<lparr>draws := Suc (draws (tick w))\<rparr>) = (Inr s, (tick w)\<lparr>draws := n\<rparr>)"
      using wrap_fresh [OF laws] .
    ultimately have "\<exists>x w'. provisionActiveKey P t (tick w) = (Inr x, w')"
      using no up by (simp add: provisionActiveKey_def insert_key_def pg_def Let_def pg_up_def cache_run now_def)
    then show ?thesis by (simp add: await_run find None)
  next
    case (Some row)
    then have "row \<in> set (tenant_encryption_keys w)" "tk_tenantId row = t"
      using row0_filterD [OF Some] by auto
    then have "wrapped_of (tenant_encryption_keys (tick w)) (t, tk_keyVersion row) = Some (tk_wrappedDek row)"
      using wrapped_of_row [OF ok] by fastforce
    from version_unwrap_Inr [OF keyed_tick [OF k] this]
    show ?thesis by (simp add: await_run find Some)
  qed
qed

text \<open>
  With the invariant, and every query answered, \<open>getActiveDek\<close> returns a key: on first use
  it provisions one, otherwise it finds the active row; the error \<open>Failed to provision or
  resolve\<close> cannot occur.
\<close>

theorem getActiveDek_returns:
  assumes "gcm_laws P" and "hkdf_laws P" and "dek_inv P w" and "pg_up w"
  shows "\<exists>x. fst (getActiveDek P tenantId w) = Inr x"
proof -
  let ?t = "resolveTenantKeyId tenantId"
  let ?w1 = "snd (versionCache_get ?t w)"
  have k: "keyed P (tenant_encryption_keys w) w" using keyed_start [OF assms(3)] .
  obtain cv where g1: "versionCache_get ?t w = (Inr cv, ?w1)" by (simp add: versionCache_get_run)
  have k1: "keyed P (tenant_encryption_keys w) ?w1" using hoareD [OF hoare_versionCache_get k g1] by blast
  have up1: "pg_up ?w1" using assms(4) by (simp add: versionCache_get_run pg_up_def)
  show ?thesis
  proof (cases cv)
    case None
    with slow_path_Inr [OF assms(1,2) k1 up1, of ?t] g1 show ?thesis
      by (auto simp: getActiveDek_def Let_def)
  next
    case (Some v)
    let ?w2 = "snd (dekCache_get (cacheKey ?t v) ?w1)"
    obtain d where g2: "dekCache_get (cacheKey ?t v) ?w1 = (Inr d, ?w2)" by (simp add: dekCache_get_run)
    have k2: "keyed P (tenant_encryption_keys w) ?w2"
      using hoareD [OF hoare_dekCache_get [where X = "\<lambda>_. True"] _ g2] k1 by blast
    have up2: "pg_up ?w2" using up1 by (simp add: dekCache_get_run pg_up_def)
    show ?thesis
      using slow_path_Inr [OF assms(1,2) k2 up2, of ?t] g1 g2 Some
      by (cases d) (auto simp: getActiveDek_def Let_def)
  qed
qed

lemma getActiveDek_returns_witness: "\<exists>x. fst (getActiveDek demo (Some ''t'') world0) = Inr x"
  by (rule getActiveDek_returns [OF demo_gcm demo_hkdf_laws dek_inv_world0]) (simp add: pg_up_def)

end
