(* ===== verification/AuditLog.thy ===== *)
theory AuditLog
  imports World "HOL-Library.Sublist"
begin

text \<open>
  \<open>src/services/audit.service.ts\<close>: append-only writes to \<open>audit_log\<close>. The insert can fail
  (the query is refused, its reply is lost, or \<open>user_id\<close> names no user); the failure is logged
  and swallowed.
\<close>

record audit_entry =
  event_type :: string
  user_id :: "string option"
  client_id :: "string option"
  ip_address :: "string option"
  user_agent :: "string option"
  resource :: "string option"
  outcome :: string
  failure_reason :: "string option"
  metadata :: "(string \<times> string) list option"

text \<open>An entry with the optional fields absent, for record updates at the call sites.\<close>

definition audit_event :: "string \<Rightarrow> string \<Rightarrow> audit_entry" where
  "audit_event ev out = \<lparr>event_type = ev, user_id = None, client_id = None, ip_address = None,
     user_agent = None, resource = None, outcome = out, failure_reason = None, metadata = None\<rparr>"

fun exn_text :: "exn \<Rightarrow> string" where
  "exn_text (AppExn e) = message e"
| "exn_text (PgExn m) = m"
| "exn_text (RedisExn m) = m"
| "exn_text (CryptoExn m) = m"
| "exn_text (RangeExn m) = m"
| "exn_text (JsError m) = m"

definition audit_row_of :: "audit_entry \<Rightarrow> string \<Rightarrow> int \<Rightarrow> audit_row" where
  "audit_row_of entry i t = \<lparr>al_id = i, al_timestamp = t, al_eventType = event_type entry,
     al_userId = user_id entry, al_clientId = client_id entry, al_ipAddress = ip_address entry,
     al_userAgent = user_agent entry, al_resource = resource entry, al_outcome = outcome entry,
     al_failureReason = failure_reason entry,
     al_metadata = (case metadata entry of Some m \<Rightarrow> m | None \<Rightarrow> [])\<rparr>"

text \<open>The foreign key \<open>audit_log.user_id -> users.id\<close>; the primary key is checked by the insert.\<close>

definition user_fk :: "string option \<Rightarrow> 'r world \<Rightarrow> bool" where
  "user_fk u w = (case u of None \<Rightarrow> True | Some i \<Rightarrow> i \<in> ur_id ` set (users w))"

definition insert_audit :: "audit_entry \<Rightarrow> ('r, unit) gw" where
  "insert_audit entry = pg (
     await randomUUID (\<lambda>i. await now (\<lambda>t. await (gets (\<lambda>w. w)) (\<lambda>w.
     if \<not> user_fk (user_id entry) w then throw (PgExn ''violates foreign key constraint audit_log_user_id_users_id_fk'')
     else if i \<in> al_id ` set (audit_log w) then throw (PgExn ''duplicate key value: audit_log_pkey'')
     else modify (\<lambda>w. w\<lparr>audit_log := audit_log w @ [audit_row_of entry i t]\<rparr>)))))"

definition writeAuditEvent :: "audit_entry \<Rightarrow> ('r, unit) gw" where
  "writeAuditEvent entry = try_catch (insert_audit entry) (\<lambda>error.
     log LogError ''Failed to write audit log entry''
       [(''err'', exn_text error), (''eventType'', event_type entry), (''outcome'', outcome entry)])"

section \<open>What it leaves alone\<close>

lemma keeps_writeAudit [io_rules]:
  assumes "\<And>w. g (tick w) = g w" and "\<And>w n. g (w\<lparr>draws := n\<rparr>) = g w"
    and "\<And>w l. g (w\<lparr>audit_log := l\<rparr>) = g w" and "\<And>w l. g (w\<lparr>log_lines := l\<rparr>) = g w"
  shows "keeps g (writeAuditEvent entry)"
  unfolding writeAuditEvent_def insert_audit_def
  by (intro io_rules assms)

lemma preserves_writeAudit [io_rules]:
  assumes "\<And>w. I w \<Longrightarrow> I (tick w)" and "\<And>w n. I w \<Longrightarrow> I (w\<lparr>draws := n\<rparr>)"
    and "\<And>w r. I w \<Longrightarrow> I (w\<lparr>audit_log := audit_log w @ [r]\<rparr>)"
    and "\<And>w l. I w \<Longrightarrow> I (w\<lparr>log_lines := l\<rparr>)"
  shows "preserves I (writeAuditEvent entry)"
  unfolding writeAuditEvent_def insert_audit_def
  by (intro io_rules assms)

section \<open>What it does\<close>

text \<open>\<open>entry\<close> was appended between the two worlds, stamped no earlier than the first.\<close>

definition audited :: "audit_entry \<Rightarrow> 'r world \<Rightarrow> 'r world \<Rightarrow> bool" where
  "audited entry w w' \<longleftrightarrow>
     (\<exists>i t. clock w \<le> t \<and> audit_log w' = audit_log w @ [audit_row_of entry i t])"

lemma auditedI [intro]:
  "clock w \<le> t \<Longrightarrow> audit_log w' = audit_log w @ [audit_row_of entry i t] \<Longrightarrow> audited entry w w'"
  unfolding audited_def by blast

lemma user_fk_simps [simp]: "user_fk u (tick w) = user_fk u w" "user_fk u (w\<lparr>draws := n\<rparr>) = user_fk u w"
  by (cases u; simp add: user_fk_def)+

lemma insert_audit_run:
  "pg_fate w (ext_n w) = Served \<Longrightarrow> user_fk (user_id entry) w \<Longrightarrow> uuids w (draws w) \<notin> al_id ` set (audit_log w) \<Longrightarrow>
     insert_audit entry w = (Inr (), (tick w)\<lparr>draws := Suc (draws w),
       audit_log := audit_log w @ [audit_row_of entry (uuids w (draws w)) (clock (tick w))]\<rparr>)"
  by (simp add: insert_audit_def pg_def Let_def io_run)

lemma insert_audit_log:
  assumes "insert_audit entry w = (r, w')"
  shows "audit_log w' = audit_log w \<or> audited entry w w'"
    and "log_lines w' = log_lines w" and "isl r \<or> audited entry w w'"
  using assms clock_tick [of w]
  by (auto simp: insert_audit_def pg_def Let_def io_run split: fate.splits if_splits)

lemma writeAudit_cases:
  assumes "writeAuditEvent entry w = (r, w')"
  obtains (written) "insert_audit entry w = (Inr (), w')" and "audited entry w w'"
  | (failed) e w1 ln where "insert_audit entry w = (Inl e, w1)"
      and "w' = w1\<lparr>log_lines := log_lines w @ [ln]\<rparr>" and "ll_level ln = LogError"
proof (cases "insert_audit entry w")
  case (Pair q w1)
  note log = insert_audit_log [OF Pair]
  show thesis
  proof (cases q)
    case (Inl e)
    with Pair assms log show thesis
      by (intro failed) (auto simp: writeAuditEvent_def log_run)
  next
    case (Inr u)
    with Pair assms log show thesis
      by (intro written) (auto simp: writeAuditEvent_def)
  qed
qed

lemma writeAudit_Inr: "\<exists>w'. writeAuditEvent entry w = (Inr (), w')"
  by (cases "insert_audit entry w"; cases "fst (insert_audit entry w)")
    (auto simp: writeAuditEvent_def try_catch_def log_run)

lemma writeAudit_log:
  assumes "writeAuditEvent entry w = (r, w')"
  shows "audit_log w' = audit_log w \<or> audited entry w w'"
  using assms
proof (cases rule: writeAudit_cases)
  case (failed e w1 ln)
  then show ?thesis using insert_audit_log(1) [OF failed(1)] by (auto simp: audited_def)
qed simp

text \<open>With the database answering and the user known, exactly the entry is appended.\<close>

lemma writeAudit_served:
  assumes "pg_fate w (ext_n w) = Served" and "user_fk (user_id entry) w"
    and "uuids w (draws w) \<notin> al_id ` set (audit_log w)"
  shows "audited entry w (snd (writeAuditEvent entry w))"
  using insert_audit_run [OF assms] clock_tick [of w]
  by (auto simp: writeAuditEvent_def)

text \<open>A write that did not succeed has left a line at level \<open>error\<close>.\<close>

lemma writeAudit_logged:
  assumes "writeAuditEvent entry w = (r, w')"
  shows "audited entry w w' \<or>
     (\<exists>ln. log_lines w' = log_lines w @ [ln] \<and> ll_level ln = LogError)"
  using assms by (cases rule: writeAudit_cases) auto

text \<open>The log only grows: rows written once stay, in order.\<close>

lemma prefix_append_row: "prefix l xs \<Longrightarrow> prefix l (xs @ [r])"
  by (auto simp: prefix_def)

lemma writeAudit_prefix: "preserves (\<lambda>w. prefix l (audit_log w)) (writeAuditEvent entry)"
  by (intro io_rules) (auto simp: prefix_append_row)

end
