(* ===== verification/Users.thy ===== *)
theory Users
  imports TenantKeyRotation AuditLog
begin

text \<open>
  \<open>encryptEmail\<close> and \<open>decryptEmail\<close> of \<open>src/utils/crypto.ts\<close>, and
  \<open>src/services/user.service.ts\<close>: e-mail addresses are stored encrypted under the tenant's
  key and looked up by their HMAC; passwords are checked by bcrypt.
\<close>

section \<open>E-mail encryption\<close>

definition encryptEmail :: "'r platform \<Rightarrow> string \<Rightarrow> string option \<Rightarrow> ('r, string) gw" where
  "encryptEmail P plaintext tenantId =
     await (getActiveDek P tenantId) (\<lambda>r. encryptWithDek P (dek r) (keyVersion r) plaintext)"

definition decryptEmail :: "'r platform \<Rightarrow> string \<Rightarrow> string option \<Rightarrow> ('r, string) gw" where
  "decryptEmail P encoded tenantId =
     await (lift (parseDekCiphertextEnvelope encoded)) (\<lambda>e.
     await (getDekForVersion P tenantId (env_keyVersion e)) (\<lambda>d.
     lift (decryptWithDek P d encoded)))"

lemma keeps_dekCache [io_rules]:
  "(\<And>w c. g (w\<lparr>dekCache := c\<rparr>) = g w) \<Longrightarrow> keeps g (dekCache_get k)"
  "(\<And>w c. g (w\<lparr>dekCache := c\<rparr>) = g w) \<Longrightarrow> keeps g (dekCache_set k v)"
  unfolding dekCache_get_def dekCache_set_def by (intro io_rules; simp)+

lemma preserves_dekCache [io_rules]:
  "(\<And>w c. I w \<Longrightarrow> I (w\<lparr>dekCache := c\<rparr>)) \<Longrightarrow> preserves I (dekCache_get k)"
  "(\<And>w c. I w \<Longrightarrow> I (w\<lparr>dekCache := c\<rparr>)) \<Longrightarrow> preserves I (dekCache_set k v)"
  unfolding dekCache_get_def dekCache_set_def by (intro io_rules; simp)+

lemma keeps_getDek [io_rules]:
  "(\<And>w. g (tick w) = g w) \<Longrightarrow> (\<And>w c. g (w\<lparr>dekCache := c\<rparr>) = g w) \<Longrightarrow>
     keeps g (getDekForVersion P tid v)"
  unfolding getDekForVersion_def unwrapAndCache_def Let_def by (intro io_rules)

lemma preserves_getDek [io_rules]:
  "(\<And>w. I w \<Longrightarrow> I (tick w)) \<Longrightarrow> (\<And>w c. I w \<Longrightarrow> I (w\<lparr>dekCache := c\<rparr>)) \<Longrightarrow>
     preserves I (getDekForVersion P tid v)"
  unfolding getDekForVersion_def unwrapAndCache_def Let_def by (intro io_rules)

lemma keeps_decryptEmail [io_rules]:
  "(\<And>w. g (tick w) = g w) \<Longrightarrow> (\<And>w c. g (w\<lparr>dekCache := c\<rparr>) = g w) \<Longrightarrow>
     keeps g (decryptEmail P c tid)"
  unfolding decryptEmail_def by (intro io_rules)

lemma preserves_decryptEmail [io_rules]:
  "(\<And>w. I w \<Longrightarrow> I (tick w)) \<Longrightarrow> (\<And>w c. I w \<Longrightarrow> I (w\<lparr>dekCache := c\<rparr>)) \<Longrightarrow>
     preserves I (decryptEmail P c tid)"
  unfolding decryptEmail_def by (intro io_rules)

text \<open>With a row for the version, only the database can make the lookup fail.\<close>

definition pg_error :: "exn \<Rightarrow> bool" where
  "pg_error e \<longleftrightarrow> (\<exists>m. e = PgExn m)"

lemma pg_error_simps [simp]: "pg_error (PgExn m)" "\<not> pg_error (JsError m)" "\<not> pg_error (AppExn a)"
  "\<not> pg_error (RedisExn m)" "\<not> pg_error (CryptoExn m)" "\<not> pg_error (RangeExn m)"
  by (simp_all add: pg_error_def)

lemma select_error: "select_rows t c w = (Inl e, w') \<Longrightarrow> pg_error e \<and> \<not> pg_up w"
  by (auto simp: select_rows_def pg_def Let_def pg_up_def split: fate.splits)
    (metis fate.distinct(1), metis fate.distinct(3))

lemma getDekForVersion_finds:
  assumes inv: "dek_inv P w"
    and kd: "key_dek P (tenant_encryption_keys w) (resolveTenantKeyId tid) v = Some d"
    and run: "getDekForVersion P tid v w = (r, w')"
  shows "r = Inr d \<or> (\<exists>e. r = Inl e \<and> pg_error e \<and> \<not> pg_up w)"
proof (cases r)
  case (Inr d')
  have "key_dek P (tenant_encryption_keys w') (resolveTenantKeyId tid) v = Some d'"
    using hoareD [OF hoare_getDekForVersion keyed_start [OF inv] run] Inr by blast
  moreover have "keeps tenant_encryption_keys (getDekForVersion P tid v :: ('a, bytes) gw)"
    by (intro io_rules) simp_all
  then have "tenant_encryption_keys w' = tenant_encryption_keys w" using run by (rule keepsD)
  ultimately show ?thesis using kd Inr by simp
next
  case (Inl e)
  let ?t = "resolveTenantKeyId tid"
  let ?sel = "select_rows tenant_encryption_keys (\<lambda>r. tk_tenantId r = ?t \<and> tk_keyVersion r = v)"
  let ?w1 = "snd (dekCache_get (cacheKey ?t v) w)"
  have w1: "tenant_encryption_keys ?w1 = tenant_encryption_keys w" "pg_up ?w1 = pg_up w"
    by (simp_all add: dekCache_get_run pg_up_def)
  have get: "dekCache_get (cacheKey ?t v) w = (Inr (map_of (dekCache w) (cacheKey ?t v)), ?w1)"
    by (simp add: dekCache_get_run)
  have miss: "map_of (dekCache w) (cacheKey ?t v) = None"
    using run Inl get by (cases "map_of (dekCache w) (cacheKey ?t v)") (auto simp: getDekForVersion_def Let_def)
  obtain r2 w2 where sel: "?sel ?w1 = (r2, w2)" by fastforce
  show ?thesis
  proof (cases r2)
    case (Inl e2)
    with run get miss sel have "r = Inl e2" by (simp add: getDekForVersion_def Let_def)
    with select_error [of _ _ ?w1 e2 w2] sel Inl w1 show ?thesis by auto
  next
    case (Inr rows)
    then have rows: "rows = filter (\<lambda>r. tk_tenantId r = ?t \<and> tk_keyVersion r = v)
        (tenant_encryption_keys w)" and w2: "w2 = tick ?w1" using sel w1 by (auto simp: select_Inr)
    obtain s where s: "wrapped_of (tenant_encryption_keys w) (?t, v) = Some s" and u: "unwrapDek P s = Inr d"
      using kd by (auto simp: key_dek_def split: option.splits sum.splits)
    then obtain row where row: "row0 rows = Some row" "tk_wrappedDek row = s"
      using row0_wrapped [of ?t v "tenant_encryption_keys w"] by (auto simp: rows)
    have u': "unwrapDek P (tk_wrappedDek row) = Inr d" using u row by simp
    have "isl r \<Longrightarrow> False"
      using run get miss sel Inr row(1)
      by (cases "map_of (dekCache w2) (cacheKey ?t v)")
        (auto simp: u' getDekForVersion_def unwrapAndCache_def Let_def await_run cache_run)
    with \<open>r = Inl e\<close> show ?thesis by simp
  qed
qed

text \<open>
  \<open>opens P rows tid c m\<close>: the ciphertext \<open>c\<close> of tenant \<open>tid\<close> is under a key the table
  \<open>rows\<close> stands for, and decrypts to \<open>m\<close>. It stays so when keys are added.
\<close>

definition opens :: "'r platform \<Rightarrow> key_row list \<Rightarrow> string option \<Rightarrow> string \<Rightarrow> string \<Rightarrow> bool" where
  "opens P rows tid c m \<longleftrightarrow> (\<exists>e d. parseDekCiphertextEnvelope c = Inr e \<and>
     key_dek P rows (resolveTenantKeyId tid) (env_keyVersion e) = Some d \<and>
     decryptWithDek P d c = Inr m)"

lemma opens_extend: "opens P rows tid c m \<Longrightarrow> keys_extend P rows rows' \<Longrightarrow> opens P rows' tid c m"
  unfolding opens_def keys_extend_def by blast

lemma decryptEmail_opens:
  assumes "dek_inv P w" and "opens P (tenant_encryption_keys w) tid c m"
    and "decryptEmail P c tid w = (r, w')"
  shows "r = Inr m \<or> (\<exists>e. r = Inl e \<and> pg_error e \<and> \<not> pg_up w)"
proof -
  obtain e d where e: "parseDekCiphertextEnvelope c = Inr e"
    and kd: "key_dek P (tenant_encryption_keys w) (resolveTenantKeyId tid) (env_keyVersion e) = Some d"
    and dec: "decryptWithDek P d c = Inr m" using assms(2) by (auto simp: opens_def)
  obtain r1 w1 where get: "getDekForVersion P tid (env_keyVersion e) w = (r1, w1)" by fastforce
  from getDekForVersion_finds [OF assms(1) kd get] show ?thesis
    using assms(3) e dec get by (auto simp: decryptEmail_def)
qed

lemma encryptEmail_opens:
  assumes "gcm_laws P" and "hkdf_laws P" and "dek_inv P w"
    and run: "encryptEmail P m tid w = (Inr c, w')"
  shows "dek_inv P w' \<and> keys_extend P (tenant_encryption_keys w) (tenant_encryption_keys w') \<and>
    opens P (tenant_encryption_keys w') tid c m"
proof -
  let ?t = "resolveTenantKeyId tid"
  obtain x w1 where get: "getActiveDek P tid w = (Inr x, w1)"
    and enc: "encryptWithDek P (dek x) (keyVersion x) m w1 = (Inr c, w')"
    using run by (auto simp: encryptEmail_def elim: await_InrE)
  have "resolved P (tenant_encryption_keys w) ?t (Inr x) w1"
    using hoareD [OF hoare_getActiveDek [OF assms(1,2)] keyed_start [OF assms(3)] get] .
  then have k1: "keyed P (tenant_encryption_keys w) w1"
    and kd: "key_dek P (tenant_encryption_keys w1) ?t (keyVersion x) = Some (dek x)"
    by (simp_all add: resolved_def)
  have w': "w' = w1\<lparr>draws := draws w'\<rparr>"
    using encryptWithDek_Inr [OF enc] encryptWithKey_Inr by (fastforce simp: Let_def)
  have k2: "keyed P (tenant_encryption_keys w) w'"
    by (subst w') (rule keyed_draws [OF k1])
  have rows: "tenant_encryption_keys w' = tenant_encryption_keys w1" by (subst w') simp
  have "length (dek x) = 32"
    using key_dek_length kd k1 by (auto simp: keyed_def dek_inv_def)
  then have "decryptWithDek P (dek x) c = Inr m"
    using decryptWithDek_encryptWithDek [OF assms(1) _ enc] by simp
  then have "opens P (tenant_encryption_keys w') tid c m"
    using encryptWithDek_version [OF enc] kd unfolding opens_def rows by auto
  with k2 show ?thesis by (simp add: keyed_def)
qed

text \<open>
  C27. An address encrypted under a tenant decrypts to itself under that tenant at any later time,
  in any process whose key table has grown since by rotations or provisioning and whose caches
  keep their invariant; the only thing that can go wrong is the database not answering.
\<close>

theorem email_round_trip:
  assumes "gcm_laws P" and "hkdf_laws P" and "dek_inv P w"
    and "encryptEmail P plaintext tenantId w = (Inr c, w1)"
    and "dek_inv P w2" and "keys_extend P (tenant_encryption_keys w1) (tenant_encryption_keys w2)"
  shows "case fst (decryptEmail P c tenantId w2) of
      Inr m \<Rightarrow> m = plaintext | Inl e \<Rightarrow> pg_error e \<and> \<not> pg_up w2"
proof -
  obtain r w' where run: "decryptEmail P c tenantId w2 = (r, w')" by fastforce
  have "opens P (tenant_encryption_keys w2) tenantId c plaintext"
    using encryptEmail_opens [OF assms(1-4)] assms(6) opens_extend by blast
  from decryptEmail_opens [OF assms(5) this run] show ?thesis by (auto simp: run)
qed

lemma encryptEmail_total:
  assumes "gcm_laws P" and "hkdf_laws P" and "dek_inv P w" and "pg_up w"
    and "\<And>x w1. getActiveDek P tid w = (Inr x, w1) \<Longrightarrow> keyVersion x < 65536"
  shows "\<exists>c w'. encryptEmail P m tid w = (Inr c, w')"
proof -
  obtain x w1 where get: "getActiveDek P tid w = (Inr x, w1)"
    using getActiveDek_returns [OF assms(1-4), of tid] by (metis prod.collapse)
  have "resolved P (tenant_encryption_keys w) (resolveTenantKeyId tid) (Inr x) w1"
    using hoareD [OF hoare_getActiveDek [OF assms(1,2)] keyed_start [OF assms(3)] get] .
  then have "length (dek x) = 32"
    using key_dek_length by (auto simp: resolved_def keyed_def dek_inv_def)
  from encryptWithDek_total [OF assms(1) this assms(5) [OF get], of m w1] get show ?thesis
    by (auto simp: encryptEmail_def)
qed

lemma getActiveDek_first:
  assumes "gcm_laws P" and "hkdf_laws P" and "tenant_encryption_keys w = []"
    and "activeVersionCache w = []" and "pg_up w"
  shows "\<exists>x w'. getActiveDek P tid w = (Inr x, w') \<and> keyVersion x = 1"
proof -
  let ?w = "tick (snd (versionCache_get (resolveTenantKeyId tid) w))"
  obtain raw s n where "randomBytes DEK_LENGTH_BYTES ?w = (Inr raw, ?w\<lparr>draws := Suc (draws ?w)\<rparr>)"
    and "wrapDek P raw (?w\<lparr>draws := Suc (draws ?w)\<rparr>) = (Inr s, ?w\<lparr>draws := n\<rparr>)"
    using wrap_fresh [OF assms(1,2)] .
  then show ?thesis using assms(3-)
    by (simp add: getActiveDek_def provisionActiveKey_def findActiveRow_def select_rows_def pg_def Let_def
        insert_key_def key_exists_def active_exists_def cache_run now_def pg_up_def)
qed

lemma demo_encryptEmail: "\<exists>c w'. encryptEmail demo m None world0 = (Inr c, w')"
proof (rule encryptEmail_total [OF demo_gcm demo_hkdf_laws dek_inv_world0])
  show "pg_up world0" by (simp add: pg_up_def)
  fix x w1 assume "getActiveDek demo None world0 = (Inr x, w1)"
  then show "keyVersion x < 65536"
    using getActiveDek_first [OF demo_gcm demo_hkdf_laws, of world0 None] by (auto simp: pg_up_def)
qed

lemma email_round_trip_witness:
  "\<exists>c w1. encryptEmail demo ''a@b'' None world0 = (Inr c, w1) \<and>
     (case fst (decryptEmail demo c None w1) of
        Inr m \<Rightarrow> m = ''a@b'' | Inl e \<Rightarrow> pg_error e \<and> \<not> pg_up w1)"
proof -
  obtain c w1 where enc: "encryptEmail demo ''a@b'' None world0 = (Inr c, w1)"
    using demo_encryptEmail by blast
  have "dek_inv demo w1" using encryptEmail_opens [OF demo_gcm demo_hkdf_laws dek_inv_world0 enc] by simp
  from email_round_trip [OF demo_gcm demo_hkdf_laws dek_inv_world0 enc this] enc
  show ?thesis by auto
qed

section \<open>The user service\<close>

definition BCRYPT_COST_FACTOR :: nat where
  "BCRYPT_COST_FACTOR = 12"

record authenticated_user =
  au_id :: string
  au_email :: string
  au_firstName :: "string option"
  au_lastName :: "string option"
  au_roles :: "string list"
  au_authSource :: string
  au_tenantId :: "string option"
  au_isActive :: bool
  au_emailVerified :: bool
  au_createdAt :: int
  au_lastLoginAt :: "int option"

definition user_of_row :: "user_row \<Rightarrow> string \<Rightarrow> authenticated_user" where
  "user_of_row row email = \<lparr>au_id = ur_id row, au_email = email, au_firstName = ur_firstName row,
     au_lastName = ur_lastName row, au_roles = ur_roles row, au_authSource = ur_authSource row,
     au_tenantId = ur_tenantId row, au_isActive = ur_isActive row,
     au_emailVerified = ur_emailVerified row, au_createdAt = ur_createdAt row,
     au_lastLoginAt = ur_lastLoginAt row\<rparr>"

definition toAuthenticatedUser :: "'r platform \<Rightarrow> user_row \<Rightarrow> ('r, authenticated_user) gw" where
  "toAuthenticatedUser P row =
     await (decryptEmail P (ur_email row) (ur_tenantId row)) (\<lambda>email. pure (user_of_row row email))"

definition findUserByEmail ::
    "'r platform \<Rightarrow> string \<Rightarrow> ('r, (authenticated_user \<times> string option) option) gw" where
  "findUserByEmail P email =
     await (select_rows users (\<lambda>r. ur_emailHash r = hashEmail P email)) (\<lambda>rows.
     case row0 (take 1 rows) of
       None \<Rightarrow> pure None
     | Some row \<Rightarrow> await (toAuthenticatedUser P row) (\<lambda>user. pure (Some (user, ur_passwordHash row))))"

definition findUserById :: "'r platform \<Rightarrow> string \<Rightarrow> ('r, authenticated_user option) gw" where
  "findUserById P i = await (select_rows users (\<lambda>r. ur_id r = i)) (\<lambda>rows.
     case row0 (take 1 rows) of
       None \<Rightarrow> pure None
     | Some row \<Rightarrow> await (toAuthenticatedUser P row) (\<lambda>user. pure (Some user)))"

definition verifyPassword :: "'r platform \<Rightarrow> string \<Rightarrow> string \<Rightarrow> ('r, bool) gw" where
  "verifyPassword P plaintext hash = pure (bcryptCompare P plaintext hash)"

definition hashPassword :: "'r platform \<Rightarrow> string \<Rightarrow> ('r, string) gw" where
  "hashPassword P plaintext = await (randomBytes 16) (\<lambda>salt.
     pure (bcryptHash P plaintext BCRYPT_COST_FACTOR salt))"

definition markLastLogin :: "string \<Rightarrow> ('r, unit) gw" where
  "markLastLogin userId = await now (\<lambda>t1. await now (\<lambda>t2. pg (modify (\<lambda>w. w\<lparr>users :=
     set_where (\<lambda>r. ur_id r = userId)
       (\<lambda>r. r\<lparr>ur_lastLoginAt := Some t1, ur_updatedAt := t2\<rparr>) (users w)\<rparr>))))"

subsection \<open>Date.prototype.toISOString\<close>

text \<open>
  The proleptic Gregorian date of a day number since 1970-01-01, by 400-year eras counted from
  0000-03-01.
\<close>

definition civil :: "int \<Rightarrow> int \<times> int \<times> int" where
  "civil days = (let z = days + 719468;
       era = z div 146097;
       doe = z mod 146097;
       yoe = (doe - doe div 1460 + doe div 36524 - doe div 146096) div 365;
       doy = doe - (365 * yoe + yoe div 4 - yoe div 100);
       mp = (5 * doy + 2) div 153;
       d = doy - (153 * mp + 2) div 5 + 1;
       m = (if mp < 10 then mp + 3 else mp - 9)
     in (yoe + era * 400 + (if m \<le> 2 then 1 else 0), m, d))"

definition pad :: "nat \<Rightarrow> int \<Rightarrow> string" where
  "pad n i = (let s = show_nat (nat i) in replicate (n - length s) (CHR ''0'') @ s)"

definition iso_year :: "int \<Rightarrow> string" where
  "iso_year y = (if 0 \<le> y \<and> y \<le> 9999 then pad 4 y
     else (if y < 0 then ''-'' else ''+'') @ pad 6 \<bar>y\<bar>)"

definition toISOString :: "int \<Rightarrow> string" where
  "toISOString ms = (let (y, m, d) = civil (ms div 86400000); t = ms mod 86400000 in
     iso_year y @ ''-'' @ pad 2 m @ ''-'' @ pad 2 d @ ''T'' @ pad 2 (t div 3600000) @ '':'' @
     pad 2 (t div 60000 mod 60) @ '':'' @ pad 2 (t div 1000 mod 60) @ ''.'' @ pad 3 (t mod 1000) @ ''Z'')"

record user_profile =
  up_id :: string
  up_email :: string
  up_first_name :: "string option"
  up_last_name :: "string option"
  up_roles :: "string list"
  up_auth_method :: string
  up_tenant_id :: "string option"
  up_email_verified :: bool
  up_created_at :: string
  up_last_login_at :: "string option"

definition toUserProfile :: "authenticated_user \<Rightarrow> string \<Rightarrow> user_profile" where
  "toUserProfile user authMethod = \<lparr>up_id = au_id user, up_email = au_email user,
     up_first_name = au_firstName user, up_last_name = au_lastName user, up_roles = au_roles user,
     up_auth_method = authMethod, up_tenant_id = au_tenantId user,
     up_email_verified = au_emailVerified user, up_created_at = toISOString (au_createdAt user),
     up_last_login_at = map_option toISOString (au_lastLoginAt user)\<rparr>"

lemma toISOString_examples:
  "toISOString 0 = ''1970-01-01T00:00:00.000Z''"
  "toISOString 951782400123 = ''2000-02-29T00:00:00.123Z''"
  "toISOString (-1) = ''1969-12-31T23:59:59.999Z''"
  by code_simp+

section \<open>Frames of the user service\<close>

lemma keeps_user_lookup [io_rules]:
  "(\<And>w. g (tick w) = g w) \<Longrightarrow> (\<And>w c. g (w\<lparr>dekCache := c\<rparr>) = g w) \<Longrightarrow> keeps g (findUserByEmail P e)"
  "(\<And>w. g (tick w) = g w) \<Longrightarrow> (\<And>w c. g (w\<lparr>dekCache := c\<rparr>) = g w) \<Longrightarrow> keeps g (findUserById P i)"
  unfolding findUserByEmail_def findUserById_def toAuthenticatedUser_def by (intro io_rules; simp)+

lemma preserves_user_lookup [io_rules]:
  "(\<And>w. I w \<Longrightarrow> I (tick w)) \<Longrightarrow> (\<And>w c. I w \<Longrightarrow> I (w\<lparr>dekCache := c\<rparr>)) \<Longrightarrow>
     preserves I (findUserByEmail P e)"
  "(\<And>w. I w \<Longrightarrow> I (tick w)) \<Longrightarrow> (\<And>w c. I w \<Longrightarrow> I (w\<lparr>dekCache := c\<rparr>)) \<Longrightarrow>
     preserves I (findUserById P i)"
  unfolding findUserByEmail_def findUserById_def toAuthenticatedUser_def by (intro io_rules; simp)+

lemma keeps_verifyPassword [io_rules]: "keeps g (verifyPassword P p h)"
  unfolding verifyPassword_def by (intro io_rules)

lemma preserves_verifyPassword [io_rules]: "preserves I (verifyPassword P p h)"
  unfolding verifyPassword_def by (intro io_rules)

lemma keeps_markLastLogin [io_rules]:
  "(\<And>w. g (tick w) = g w) \<Longrightarrow> (\<And>w u. g (w\<lparr>users := u\<rparr>) = g w) \<Longrightarrow> keeps g (markLastLogin i)"
  unfolding markLastLogin_def by (intro io_rules)

section \<open>Looking users up\<close>

lemma toAuthenticatedUser_opens:
  assumes "dek_inv P w" and "opens P (tenant_encryption_keys w) (ur_tenantId row) (ur_email row) m"
    and "pg_up w"
  shows "fst (toAuthenticatedUser P row w) = Inr (user_of_row row m)"
proof -
  obtain r w' where run: "decryptEmail P (ur_email row) (ur_tenantId row) w = (r, w')" by fastforce
  from decryptEmail_opens [OF assms(1,2) run] have "r = Inr m" using assms(3) by auto
  with run show ?thesis by (simp add: toAuthenticatedUser_def)
qed

lemma dek_inv_tick: "dek_inv P w \<Longrightarrow> dek_inv P (tick w)"
  by (simp add: dek_inv_def caches_ok_def)

lemma user_found:
  assumes "dek_inv P w" and "pg_up w" and "distinct (map ur_emailHash (users w))"
    and "row \<in> set (users w)" and "ur_emailHash row = hashEmail P stored"
    and "opens P (tenant_encryption_keys w) (ur_tenantId row) (ur_email row) plain"
    and "toLowerCase (trim email) = toLowerCase (trim stored)"
  shows "fst (findUserByEmail P email w) = Inr (Some (user_of_row row plain, ur_passwordHash row))"
proof -
  have hash: "hashEmail P email = hashEmail P stored"
    using assms(7) by (simp add: hashEmail_def)
  have "row0 (filter (\<lambda>r. ur_emailHash r = hashEmail P email) (users w)) = Some row"
    using row0_filter_unique [OF assms(3,4)] assms(5) hash by simp
  then have sel: "select_rows users (\<lambda>r. ur_emailHash r = hashEmail P email) w =
      (Inr (filter (\<lambda>r. ur_emailHash r = hashEmail P email) (users w)), tick w)"
    and row: "row0 (filter (\<lambda>r. ur_emailHash r = hashEmail P email) (users w)) = Some row"
    using assms(2) by (simp_all add: select_rows_def pg_def Let_def pg_up_def)
  obtain r w' where run: "toAuthenticatedUser P row (tick w) = (r, w')" by fastforce
  have "r = Inr (user_of_row row plain)"
    using toAuthenticatedUser_opens [OF dek_inv_tick [OF assms(1)]] assms(2,6) run
    by (fastforce simp: pg_up_def)
  with run show ?thesis by (simp add: findUserByEmail_def await_run sel row)
qed

text \<open>
  A user is found by any spelling of the address that trims and lower-cases to the same text,
  with the address decrypted and the stored password hash, whatever the version of the tenant's
  key the address was encrypted under.
\<close>

theorem findUserByEmail_finds:
  assumes "dek_inv P w" and "pg_up w" and "distinct (map ur_emailHash (users w))"
    and "row \<in> set (users w)" and "ur_emailHash row = hashEmail P stored"
    and "opens P (tenant_encryption_keys w) (ur_tenantId row) (ur_email row) plain"
    and "toLowerCase (trim email) = toLowerCase (trim stored)"
  shows "fst (findUserByEmail P email w) = Inr (Some (user_of_row row plain, ur_passwordHash row))"
  by (rule user_found [OF assms])

definition demo_row :: "string \<Rightarrow> user_row" where
  "demo_row c = \<lparr>ur_id = ''u1'', ur_email = c, ur_emailHash = hashEmail demo ''a@b'',
     ur_passwordHash = Some ''$pw'', ur_firstName = None, ur_lastName = None, ur_roles = [''user''],
     ur_authSource = ''password'', ur_samlNameId = None, ur_tenantId = None, ur_isActive = True,
     ur_emailVerified = True, ur_createdAt = 0, ur_updatedAt = 0, ur_lastLoginAt = None\<rparr>"

lemma findUserByEmail_finds_witness:
  "\<exists>c w. users w = [demo_row c] \<and> fst (findUserByEmail demo '' A@B '' w) =
     Inr (Some (user_of_row (demo_row c) ''a@b'', Some ''$pw''))"
proof -
  obtain c w1 where enc: "encryptEmail demo ''a@b'' None world0 = (Inr c, w1)"
    using demo_encryptEmail by blast
  let ?w = "w1\<lparr>users := [demo_row c], pg_fate := (\<lambda>_. Served)\<rparr>"
  have o: "opens demo (tenant_encryption_keys w1) None c ''a@b''" and inv: "dek_inv demo w1"
    using encryptEmail_opens [OF demo_gcm demo_hkdf_laws dek_inv_world0 enc] by simp_all
  have inv': "dek_inv demo ?w" using inv by (simp add: dek_inv_def caches_ok_def)
  have eq: "toLowerCase (trim '' A@B '') = toLowerCase (trim ''a@b'')" by code_simp
  have "fst (findUserByEmail demo '' A@B '' ?w) =
      Inr (Some (user_of_row (demo_row c) ''a@b'', ur_passwordHash (demo_row c)))"
    by (rule findUserByEmail_finds [OF inv' _ _ _ _ _ eq])
      (use o in \<open>simp_all add: pg_up_def demo_row_def\<close>)
  then show ?thesis by (intro exI [of _ c] exI [of _ ?w]) (simp add: demo_row_def)
qed

end
