(* ===== verification/Tokens.thy ===== *)
theory Tokens
  imports Json Users
begin

text \<open>
  \<open>src/services/token.service.ts\<close> and \<open>loadSigningKeys\<close> of \<open>src/utils/crypto.ts\<close>:
  the signing keys and the JWKS document, access-token signing and verification, revocation
  marks in Redis, and the idempotency slots of the refresh endpoint. jose and Redis are
  parameters; the revocation and idempotency lemmas hold for every server that satisfies
  \<open>redis_server\<close>.
\<close>

section \<open>Keys a Redis command cannot disturb\<close>

text \<open>\<open>k\<close> holds \<open>v\<close> until \<open>e\<close>.\<close>

definition live :: "('r \<Rightarrow> int \<Rightarrow> string \<Rightarrow> string option) \<Rightarrow> string \<Rightarrow> string \<Rightarrow> int \<Rightarrow> 'r world \<Rightarrow> bool" where
  "live view k v e w \<longleftrightarrow> (\<forall>t. clock w \<le> t \<longrightarrow> t < e \<longrightarrow> view (redis w) t k = Some v)"

lemma live_same:
  "live view k v e w \<Longrightarrow> redis w' = redis w \<Longrightarrow> clock w \<le> clock w' \<Longrightarrow> live view k v e w'"
  unfolding live_def by force

lemma live_tick: "live view k v e w \<Longrightarrow> live view k v e (tick w)"
  by (erule live_same) (simp, rule clock_tick)

lemma live_redis [io_rules]:
  assumes srv: "redis_server (redisExec P) view"
    and c: "redis_key c \<noteq> Some k \<or> (\<exists>k'. c = GET k')"
  shows "preserves (live view k v e) (redis_call P c)"
proof (rule preservesI)
  fix w assume "live view k v e w"
  then have l: "live view k v e (tick w)" by (rule live_tick)
  obtain res w' where run: "redis_call P c w = (res, w')" by fastforce
  then obtain x r where ex: "redisExec P c (clock (tick w)) (redis w) = (x, r)"
    and w': "w' = (tick w)\<lparr>redis := r\<rparr>" using redis_run by blast
  have "view r t k = view (redis w) t k" if "clock (tick w) \<le> t" for t
    using c redis_server.view_frame [OF srv _ that ex] redis_server.get_frame [OF srv that] ex
    by blast
  then have "live view k v e w'" using l by (auto simp: live_def w')
  then show "live view k v e (snd (redis_call P c w))" by (simp add: run)
qed

section \<open>Revocation marks\<close>

definition REVOKED_JTI_PREFIX :: string where
  "REVOKED_JTI_PREFIX = ''revoked:jti:''"

definition REVOKED_REFRESH_PREFIX :: string where
  "REVOKED_REFRESH_PREFIX = ''revoked:refresh:''"

definition revokeToken :: "'r platform \<Rightarrow> string \<Rightarrow> int \<Rightarrow> ('r, unit) gw" where
  "revokeToken P jti expiresAt = await (ttlSecondsUntil expiresAt) (\<lambda>ttlSeconds.
     if ttlSeconds \<le> 0 then pure ()
     else await (redis_call P (SETEX (REVOKED_JTI_PREFIX @ jti) ''1'' ttlSeconds)) (\<lambda>_.
       log LogInfo ''Token revoked'' [(''jti'', jti)]))"

definition isTokenRevoked :: "'r platform \<Rightarrow> string \<Rightarrow> ('r, bool) gw" where
  "isTokenRevoked P jti = await (redis_call P (GET (REVOKED_JTI_PREFIX @ jti))) (\<lambda>val.
     pure (val \<noteq> Nil_reply))"

definition cacheRefreshTokenRevocation :: "'r platform \<Rightarrow> string \<Rightarrow> int \<Rightarrow> ('r, unit) gw" where
  "cacheRefreshTokenRevocation P tokenHash expiresAt = await (ttlSecondsUntil expiresAt) (\<lambda>ttlSeconds.
     if ttlSeconds \<le> 0 then pure ()
     else await (redis_call P (SETEX (REVOKED_REFRESH_PREFIX @ tokenHash) ''1'' ttlSeconds)) (\<lambda>_. pure ()))"

section \<open>Idempotency slots\<close>

definition IDEMPOTENCY_REFRESH_PREFIX :: string where
  "IDEMPOTENCY_REFRESH_PREFIX = ''idempotency:refresh:''"

definition IDEMPOTENCY_REFRESH_TTL_SECONDS :: int where
  "IDEMPOTENCY_REFRESH_TTL_SECONDS = 30"

record cached_refresh_result =
  cr_userId :: string
  cr_accessToken :: string
  cr_refreshToken :: string
  cr_presentedTokenHash :: string

datatype idempotency_entry = Pending | Done cached_refresh_result

fun entry_json :: "idempotency_entry \<Rightarrow> json" where
  "entry_json Pending = JObj [(''status'', JStr ''pending'')]"
| "entry_json (Done r) = JObj [(''status'', JStr ''done''), (''result'', JObj
     [(''userId'', JStr (cr_userId r)), (''accessToken'', JStr (cr_accessToken r)),
      (''refreshToken'', JStr (cr_refreshToken r)),
      (''presentedTokenHash'', JStr (cr_presentedTokenHash r))])]"

definition str_member :: "string \<Rightarrow> json \<Rightarrow> string option" where
  "str_member k v = (case member k v of Some (JStr s) \<Rightarrow> Some s | _ \<Rightarrow> None)"

text \<open>
  The type assertion on the parsed text. The gateway writes the two shapes above only; any other
  value reaching it is an error here.
\<close>

definition entry_of_json :: "json \<Rightarrow> idempotency_entry option" where
  "entry_of_json v = (case str_member ''status'' v of
       None \<Rightarrow> None
     | Some s \<Rightarrow> if s \<noteq> ''done'' then Some Pending else
         (case member ''result'' v of None \<Rightarrow> None
          | Some r \<Rightarrow> (case (str_member ''userId'' r, str_member ''accessToken'' r,
                str_member ''refreshToken'' r, str_member ''presentedTokenHash'' r) of
              (Some u, Some a, Some f, Some h) \<Rightarrow> Some (Done \<lparr>cr_userId = u, cr_accessToken = a,
                 cr_refreshToken = f, cr_presentedTokenHash = h\<rparr>)
            | _ \<Rightarrow> None)))"

definition idempotencyRedisKey :: "string \<Rightarrow> string" where
  "idempotencyRedisKey idempotencyKey = IDEMPOTENCY_REFRESH_PREFIX @ idempotencyKey"

definition claimIdempotencyKey :: "'r platform \<Rightarrow> string \<Rightarrow> ('r, bool) gw" where
  "claimIdempotencyKey P k =
     await (encryptIdempotencyCacheValue P (stringify (entry_json Pending))) (\<lambda>encrypted.
     await (redis_call P (SETEXNX (idempotencyRedisKey k) encrypted IDEMPOTENCY_REFRESH_TTL_SECONDS)) (\<lambda>result.
     pure (result = OK)))"

definition completeIdempotentRefresh :: "'r platform \<Rightarrow> string \<Rightarrow> cached_refresh_result \<Rightarrow> ('r, unit) gw" where
  "completeIdempotentRefresh P k result =
     await (encryptIdempotencyCacheValue P (stringify (entry_json (Done result)))) (\<lambda>encrypted.
     await (redis_call P (SETEX (idempotencyRedisKey k) encrypted IDEMPOTENCY_REFRESH_TTL_SECONDS)) (\<lambda>_.
     pure ()))"

definition releaseIdempotencyKey :: "'r platform \<Rightarrow> string \<Rightarrow> ('r, unit) gw" where
  "releaseIdempotencyKey P k = await (redis_call P (DEL (idempotencyRedisKey k))) (\<lambda>_. pure ())"

definition getIdempotencyCacheEntry :: "'r platform \<Rightarrow> string \<Rightarrow> ('r, idempotency_entry option) gw" where
  "getIdempotencyCacheEntry P k =
     await (redis_call P (GET (idempotencyRedisKey k))) (\<lambda>raw. case raw of
       Bulk s \<Rightarrow> if s = [] then pure None else
         await (lift (decryptIdempotencyCacheValue P s)) (\<lambda>text.
         case parse text of
           None \<Rightarrow> throw (JsError ''Unexpected token in JSON'')
         | Some v \<Rightarrow> if v = JNull then pure None else (case entry_of_json v of
               None \<Rightarrow> throw (JsError ''Cannot read properties of undefined'')
             | Some e \<Rightarrow> pure (Some e)))
     | _ \<Rightarrow> pure None)"

section \<open>Signing keys and the JWKS document\<close>

definition read_file :: "'r platform \<Rightarrow> string \<Rightarrow> exn + string" where
  "read_file P path = (case readFile P path of Inl m \<Rightarrow> Inl (JsError m) | Inr s \<Rightarrow> Inr s)"

definition import_private :: "'r platform \<Rightarrow> string \<Rightarrow> exn + key_like" where
  "import_private P path = (case read_file P path of Inl e \<Rightarrow> Inl e
     | Inr pem \<Rightarrow> (case importPKCS8 P pem (JWT_ALGORITHM (env P)) of
         Inl m \<Rightarrow> Inl (JsError m) | Inr k \<Rightarrow> Inr k))"

definition import_public :: "'r platform \<Rightarrow> string \<Rightarrow> exn + key_like" where
  "import_public P path = (case read_file P path of Inl e \<Rightarrow> Inl e
     | Inr pem \<Rightarrow> (case importSPKI P pem (JWT_ALGORITHM (env P)) of
         Inl m \<Rightarrow> Inl (JsError m) | Inr k \<Rightarrow> Inr k))"

text \<open>A string option that is present and not empty: what \<open>if (x)\<close> tests.\<close>

definition truthy :: "string option \<Rightarrow> bool" where
  "truthy x \<longleftrightarrow> (case x of None \<Rightarrow> False | Some s \<Rightarrow> s \<noteq> [])"

definition loadSigningKeys :: "'r platform \<Rightarrow> ('r, signing_keys) gw" where
  "loadSigningKeys P = await (gets cachedKeys) (\<lambda>cached. case cached of
     Some keys \<Rightarrow> pure keys
   | None \<Rightarrow>
       await (lift (import_private P (JWT_PRIVATE_KEY_PATH (env P)))) (\<lambda>privateKey.
       await (lift (import_public P (JWT_PUBLIC_KEY_PATH (env P)))) (\<lambda>publicKey.
       await (if truthy (JWT_PREVIOUS_KID (env P)) \<and> truthy (JWT_PREVIOUS_PUBLIC_KEY_PATH (env P))
              then await (lift (import_public P (the (JWT_PREVIOUS_PUBLIC_KEY_PATH (env P))))) (\<lambda>k. pure (Some k))
              else pure None) (\<lambda>previousPublicKey.
       let keys = \<lparr>sk_kid = JWT_KID (env P), sk_privateKey = privateKey, sk_publicKey = publicKey,
             sk_previousKid = JWT_PREVIOUS_KID (env P), sk_previousPublicKey = previousPublicKey\<rparr>
       in await (modify (\<lambda>w. w\<lparr>cachedKeys := Some keys\<rparr>)) (\<lambda>_. pure keys)))))"

definition jwk_of :: "'r platform \<Rightarrow> key_like \<Rightarrow> string \<Rightarrow> jwk" where
  "jwk_of P key kid = \<lparr>jwk_params = exportJWK P key, jwk_kid = kid, jwk_use = ''sig'',
     jwk_alg = JWT_ALGORITHM (env P)\<rparr>"

definition buildJwksDocument :: "'r platform \<Rightarrow> signing_keys \<Rightarrow> jwk list" where
  "buildJwksDocument P keys = jwk_of P (sk_publicKey keys) (sk_kid keys) #
     (case (sk_previousKid keys, sk_previousPublicKey keys) of
        (Some kid, Some key) \<Rightarrow> if kid \<noteq> [] then [jwk_of P key kid] else []
      | _ \<Rightarrow> [])"

text \<open>\<open>cache ??= promise\<close>: the promise is stored whether it will resolve or reject.\<close>

definition getJwksDocument :: "'r platform \<Rightarrow> ('r, jwk list) gw" where
  "getJwksDocument P w = (case cachedJwksDocument w of
       Some r \<Rightarrow> (r, w)
     | None \<Rightarrow> (case await (loadSigningKeys P) (\<lambda>keys. pure (buildJwksDocument P keys)) w of
         (r, w1) \<Rightarrow> (r, w1\<lparr>cachedJwksDocument := Some r\<rparr>)))"

definition getVerifyKeySet :: "'r platform \<Rightarrow> ('r, jwk list) gw" where
  "getVerifyKeySet P w = (case cachedVerifyKeySet w of
       Some r \<Rightarrow> (r, w)
     | None \<Rightarrow> (case getJwksDocument P w of (r, w1) \<Rightarrow> (r, w1\<lparr>cachedVerifyKeySet := Some r\<rparr>)))"

definition getJwks :: "'r platform \<Rightarrow> ('r, jwk list) gw" where
  "getJwks P = getJwksDocument P"

section \<open>Access tokens\<close>

record access_token_subject =
  as_sub :: string
  as_email :: string
  as_roles :: "string list"
  as_authMethod :: auth_method
  as_tenantId :: "string option"
  as_scope :: string
  as_audience :: "string option"

record signed_access_token =
  sat_token :: string
  sat_jti :: string
  sat_expiresAt :: int

definition access_claims :: "'r platform \<Rightarrow> access_token_subject \<Rightarrow> string \<Rightarrow> int \<Rightarrow> claims" where
  "access_claims P subject jti nowSeconds = \<lparr>cl_sub = as_sub subject, cl_email = as_email subject,
     cl_roles = as_roles subject, cl_auth_method = as_authMethod subject,
     cl_tenant_id = as_tenantId subject, cl_scope = as_scope subject, cl_iat = nowSeconds,
     cl_exp = nowSeconds + ACCESS_TOKEN_TTL_SECONDS (env P), cl_nbf = nowSeconds,
     cl_iss = GATEWAY_BASE_URL (env P),
     cl_aud = (case as_audience subject of None \<Rightarrow> ''platform'' | Some a \<Rightarrow> a), cl_jti = jti\<rparr>"

definition signAccessToken :: "'r platform \<Rightarrow> access_token_subject \<Rightarrow> ('r, signed_access_token) gw" where
  "signAccessToken P subject =
     await (loadSigningKeys P) (\<lambda>keys.
     await randomUUID (\<lambda>jti.
     await now (\<lambda>t.
     let nowSeconds = t div 1000;
         expSeconds = nowSeconds + ACCESS_TOKEN_TTL_SECONDS (env P);
         token = jwtSign P (sk_privateKey keys)
           \<lparr>hd_alg = JWT_ALGORITHM (env P), hd_kid = sk_kid keys\<rparr> (access_claims P subject jti nowSeconds)
     in pure \<lparr>sat_token = token, sat_jti = jti, sat_expiresAt = expSeconds * 1000\<rparr>)))"

definition verify_opts :: "'r platform \<Rightarrow> verify_options" where
  "verify_opts P = \<lparr>vo_issuer = GATEWAY_BASE_URL (env P), vo_audience = ''platform'',
     vo_clockTolerance = 30\<rparr>"

definition verifyAccessToken :: "'r platform \<Rightarrow> string \<Rightarrow> ('r, (claims, app_error) result) gw" where
  "verifyAccessToken P token =
     await (getVerifyKeySet P) (\<lambda>keySet.
     await now (\<lambda>t.
     case jwtVerify P token keySet (verify_opts P) (t div 1000) of
       Inl JWTExpired \<Rightarrow> pure (err token_expired_default)
     | Inl (JoseError m) \<Rightarrow> await (log LogWarn ''Access token verification failed'' [(''err'', m)]) (\<lambda>_.
         pure (err (UnauthorizedError ''Token is invalid'')))
     | Inr payload \<Rightarrow> await (isTokenRevoked P (cl_jti payload)) (\<lambda>revoked.
         if revoked then pure (err token_revoked_default) else pure (ok payload))))"

end
