(* ===== verification/Http.thy ===== *)
theory Http
  imports Tokens
begin

text \<open>
  Requests, responses and the middleware of \<open>src/middleware\<close>: request ids, the access log,
  body validation, the fixed-window rate limiter, bearer authentication and the global error
  handler. A middleware calls \<open>next\<close> (\<open>Continue\<close>, or \<open>Fail\<close> with the error it
  passes), or it answers the request itself.
\<close>

section \<open>Requests and responses\<close>

text \<open>Header names are lower case, as Node delivers them; each name occurs once.\<close>

record request =
  rq_method :: string
  rq_originalUrl :: string
  rq_url :: string
  rq_path :: string
  rq_headers :: "(string \<times> string) list"
  rq_ip :: "string option"
  rq_body :: json
  rq_requestId :: string
  rq_auth :: "claims option"

record response =
  rs_status :: nat
  rs_headers :: "(string \<times> string) list"
  rs_body :: "json option"

datatype next_step =
    Continue request response
  | Fail app_error request response
  | Respond response

definition header :: "string \<Rightarrow> request \<Rightarrow> string option" where
  "header name req = map_of (rq_headers req) name"

text \<open>\<open>res.setHeader\<close>, and \<open>res.status(s).json(b)\<close>.\<close>

definition setHeader :: "string \<Rightarrow> string \<Rightarrow> response \<Rightarrow> response" where
  "setHeader name value res = res\<lparr>rs_headers :=
     (name, value) # filter (\<lambda>(n, _). n \<noteq> name) (rs_headers res)\<rparr>"

definition send_json :: "nat \<Rightarrow> json \<Rightarrow> response \<Rightarrow> response" where
  "send_json status body res = res\<lparr>rs_status := status, rs_body := Some body\<rparr>"

definition response_header :: "string \<Rightarrow> response \<Rightarrow> string option" where
  "response_header name res = map_of (rs_headers res) name"

lemma response_header_set [simp]:
  "response_header n (setHeader n' v res) = (if n = n' then Some v else response_header n res)"
proof -
  have "map_of (filter (\<lambda>(k, _). k \<noteq> n') xs) n = (if n = n' then None else map_of xs n)" for xs :: "(string \<times> string) list"
    by (induction xs) auto
  then show ?thesis by (simp add: response_header_def setHeader_def)
qed

lemma response_header_send [simp]: "response_header n (send_json s b res) = response_header n res"
  by (simp add: response_header_def send_json_def)

section \<open>Request id and access log\<close>

definition requestId :: "request \<Rightarrow> response \<Rightarrow> ('r, next_step) gw" where
  "requestId req res =
     await (case header ''x-request-id'' req of Some i \<Rightarrow> pure i | None \<Rightarrow> randomUUID) (\<lambda>i.
     pure (Continue (req\<lparr>rq_requestId := i\<rparr>) (setHeader ''X-Request-ID'' i res)))"

definition EXCLUDED_PATHS :: "string list" where
  "EXCLUDED_PATHS = [''/health'', ''/ready'']"

text \<open>The line written when the response is finished; its latency is not modelled.\<close>

definition httpLogger :: "request \<Rightarrow> response \<Rightarrow> ('r, unit) gw" where
  "httpLogger req res = (if List.member EXCLUDED_PATHS (rq_path req) then pure ()
     else log LogInfo ''HTTP request'' [(''requestId'', rq_requestId req), (''method'', rq_method req),
       (''path'', rq_path req), (''status'', show_nat (rs_status res))])"

section \<open>The error handler\<close>

definition error_body :: "string \<Rightarrow> string \<Rightarrow> string \<Rightarrow> json" where
  "error_body error description i = JObj [(''error'', JStr error),
     (''error_description'', JStr description), (''request_id'', JStr i)]"

definition errorHandler :: "exn \<Rightarrow> request \<Rightarrow> response \<Rightarrow> ('r, response) gw" where
  "errorHandler e req res = (case e of
       AppExn a \<Rightarrow>
         await (log LogWarn (message a) [(''requestId'', rq_requestId req), (''code'', code a),
           (''statusCode'', show_nat (statusCode a)), (''path'', rq_path req), (''method'', rq_method req)]) (\<lambda>_.
         pure (send_json (statusCode a) (error_body (code a) (message a) (rq_requestId req)) res))
     | _ \<Rightarrow>
         await (log LogError ''Unhandled error'' [(''requestId'', rq_requestId req), (''path'', rq_path req),
           (''method'', rq_method req), (''err'', exn_text e)]) (\<lambda>_.
         pure (send_json 500 (error_body ''internal_server_error''
           ''An unexpected error occurred. Please try again later.'' (rq_requestId req)) res)))"

section \<open>Validation\<close>

text \<open>
  The schemas of \<open>src/schemas/auth.schemas.ts\<close>: the parsed body, or the issues per field.
  \<open>string_field\<close> is what \<open>z.string()\<close> makes of a member. The issue texts the source does
  not name are zod's, abbreviated here; no response contains them.
\<close>

record login_body =
  lb_email :: string
  lb_password :: string

record refresh_body =
  rb_refresh_token :: string
  rb_idempotency_key :: "string option"

record logout_body =
  ob_refresh_token :: "string option"

datatype field = Missing | NotString | Str string

definition string_field :: "string \<Rightarrow> json \<Rightarrow> field" where
  "string_field k v = (case member k v of None \<Rightarrow> Missing | Some (JStr s) \<Rightarrow> Str s | Some _ \<Rightarrow> NotString)"

definition is_object :: "json \<Rightarrow> bool" where
  "is_object v = (case v of JObj _ \<Rightarrow> True | _ \<Rightarrow> False)"

fun check_string :: "string \<Rightarrow> field \<Rightarrow> (string \<Rightarrow> details) \<Rightarrow> details + string" where
  "check_string k (Str s) checks = (if checks s = [] then Inr s else Inl (checks s))"
| "check_string k Missing checks = Inl [(k, ''Required'')]"
| "check_string k NotString checks = Inl [(k, ''Expected string'')]"

fun optional_string :: "string \<Rightarrow> field \<Rightarrow> (string \<Rightarrow> details) \<Rightarrow> details + string option" where
  "optional_string k Missing checks = Inr None"
| "optional_string k f checks = map_sum id Some (check_string k f checks)"

definition issues :: "'d list + 'a \<Rightarrow> 'd list" where
  "issues r = (case r of Inl d \<Rightarrow> d | Inr _ \<Rightarrow> [])"

definition loginSchema :: "'r platform \<Rightarrow> json \<Rightarrow> details + login_body" where
  "loginSchema P v = (if \<not> is_object v then Inl [([], ''Expected object'')] else
     let email = (case string_field ''email'' v of Str s \<Rightarrow> check_string ''email'' (Str (trim s)) (\<lambda>s.
             (if length s < 1 then [(''email'', ''email is required'')] else []) @
             (if \<not> zodEmail P s then [(''email'', ''email must be a valid address'')] else []))
           | f \<Rightarrow> check_string ''email'' f (\<lambda>_. []));
         password = check_string ''password'' (string_field ''password'' v) (\<lambda>s.
             if length s < 1 then [(''password'', ''password is required'')] else [])
     in case (email, password) of
          (Inr e, Inr p) \<Rightarrow> Inr \<lparr>lb_email = e, lb_password = p\<rparr>
        | _ \<Rightarrow> Inl (issues email @ issues password))"

definition refreshSchema :: "'r platform \<Rightarrow> json \<Rightarrow> details + refresh_body" where
  "refreshSchema P v = (if \<not> is_object v then Inl [([], ''Expected object'')] else
     let token = check_string ''refresh_token'' (string_field ''refresh_token'' v) (\<lambda>s.
             if length s < 1 then [(''refresh_token'', ''refresh_token is required'')] else []);
         key = optional_string ''idempotency_key'' (string_field ''idempotency_key'' v) (\<lambda>s.
             if \<not> zodUuid P s then [(''idempotency_key'', ''idempotency_key must be a valid UUID'')] else [])
     in case (token, key) of
          (Inr t, Inr k) \<Rightarrow> Inr \<lparr>rb_refresh_token = t, rb_idempotency_key = k\<rparr>
        | _ \<Rightarrow> Inl (issues token @ issues key))"

definition logoutSchema :: "json \<Rightarrow> details + logout_body" where
  "logoutSchema v = (if \<not> is_object v then Inl [([], ''Expected object'')] else
     case optional_string ''refresh_token'' (string_field ''refresh_token'' v) (\<lambda>s.
             if length s < 1 then [(''refresh_token'', ''String must contain at least 1 character(s)'')] else []) of
       Inl d \<Rightarrow> Inl d
     | Inr t \<Rightarrow> Inr \<lparr>ob_refresh_token = t\<rparr>)"

text \<open>\<open>validate(schema)\<close> before a handler that takes the parsed body.\<close>

definition validate ::
    "(json \<Rightarrow> details + 'b) \<Rightarrow> ('b \<Rightarrow> request \<Rightarrow> response \<Rightarrow> ('r, next_step) gw) \<Rightarrow>
     request \<Rightarrow> response \<Rightarrow> ('r, next_step) gw" where
  "validate schema handler req res = (case schema (rq_body req) of
       Inl d \<Rightarrow> pure (Fail (ValidationError ''Request validation failed'' d) req res)
     | Inr body \<Rightarrow> handler body req res)"

section \<open>Rate limiter\<close>

record rate_options =
  ro_windowMs :: "int option"
  ro_maxRequests :: "int option"
  ro_keyPrefix :: "string option"

definition window_ms :: "'r platform \<Rightarrow> rate_options \<Rightarrow> int" where
  "window_ms P o1 = (case ro_windowMs o1 of Some m \<Rightarrow> m | None \<Rightarrow> RATE_LIMIT_WINDOW_MS (env P))"

definition max_requests :: "'r platform \<Rightarrow> rate_options \<Rightarrow> int" where
  "max_requests P o1 = (case ro_maxRequests o1 of Some m \<Rightarrow> m | None \<Rightarrow> RATE_LIMIT_MAX_REQUESTS (env P))"

definition rate_key :: "rate_options \<Rightarrow> request \<Rightarrow> int \<Rightarrow> string" where
  "rate_key o1 req windowStart = (case ro_keyPrefix o1 of Some k \<Rightarrow> k | None \<Rightarrow> ''ratelimit'') @ '':'' @
     (case rq_ip req of Some i \<Rightarrow> i | None \<Rightarrow> ''unknown'') @ '':'' @ show_int windowStart"

text \<open>The logged message, with its dash in UTF-8.\<close>

definition RATE_LIMIT_FAIL_OPEN :: string where
  "RATE_LIMIT_FAIL_OPEN = ''Rate limiter Redis error '' @ [CHR 0xE2, CHR 0x80, CHR 0x94] @ '' failing open''"

text \<open>\<open>INCR\<close>, then \<open>PEXPIRE\<close> for the first request of the window.\<close>

definition count_request :: "'r platform \<Rightarrow> string \<Rightarrow> int \<Rightarrow> ('r, int) gw" where
  "count_request P key windowMs = await (redis_call P (INCR key)) (\<lambda>reply. case reply of
       Num count \<Rightarrow> await (if count = 1 then await (redis_call P (PEXPIRE key windowMs)) (\<lambda>_. pure ()) else pure ())
         (\<lambda>_. pure count)
     | _ \<Rightarrow> throw (RedisExn ''unexpected reply''))"

definition rateLimiter :: "'r platform \<Rightarrow> rate_options \<Rightarrow> request \<Rightarrow> response \<Rightarrow> ('r, next_step) gw" where
  "rateLimiter P o1 req res = await now (\<lambda>t.
     let windowMs = window_ms P o1; maxRequests = max_requests P o1;
         windowStart = t div windowMs; key = rate_key o1 req windowStart;
         windowResetAtMs = (windowStart + 1) * windowMs
     in await (try_catch (await (count_request P key windowMs) (\<lambda>n. pure (Some n))) (\<lambda>error.
          await (log LogError RATE_LIMIT_FAIL_OPEN [(''err'', exn_text error)]) (\<lambda>_. pure None)))
        (\<lambda>counted. case counted of
           None \<Rightarrow> pure (Continue req res)
         | Some count \<Rightarrow>
             let res1 = setHeader ''X-RateLimit-Reset'' (show_int (windowResetAtMs div 1000))
                  (setHeader ''X-RateLimit-Remaining'' (show_int (max 0 (maxRequests - count)))
                  (setHeader ''X-RateLimit-Limit'' (show_int maxRequests) res))
             in if maxRequests < count then
                  await now (\<lambda>t2.
                  let retryAfterSeconds = max 1 (ceil_div (windowResetAtMs - t2) 1000) in
                  pure (Fail too_many_requests_default req
                    (setHeader ''Retry-After'' (show_int retryAfterSeconds) res1)))
                else pure (Continue req res1)))"

section \<open>Bearer authentication\<close>

definition validateAccessToken :: "'r platform \<Rightarrow> bool \<Rightarrow> request \<Rightarrow> response \<Rightarrow> ('r, next_step) gw" where
  "validateAccessToken P optional req res =
     (let unauthenticated = (if optional then pure (Continue req res)
            else pure (Fail (UnauthorizedError ''Missing or malformed Authorization header'') req res))
      in case header ''authorization'' req of
           None \<Rightarrow> unauthenticated
         | Some h \<Rightarrow> if \<not> startsWith h ''Bearer '' then unauthenticated
             else let token = trim (drop (length ''Bearer '') h) in
               await (verifyAccessToken P token) (\<lambda>result. case result of
                 Inl e \<Rightarrow> pure (Fail e req res)
               | Inr c \<Rightarrow> pure (Continue (req\<lparr>rq_auth := Some c\<rparr>) res)))"

end
