(* ===== verification/TokenProofs.thy ===== *)
theory TokenProofs
  imports Tokens
begin

text \<open>
  What the token service guarantees: revocation marks last until the token's expiry and are
  undisturbed by everything else, verification accepts only what jose verified and Redis does not
  list, a signed token verifies, the JWKS document holds the public keys, and an idempotency slot
  has one owner and returns what it was completed with.
\<close>

section \<open>Frames\<close>

definition keys_frame :: "('r world \<Rightarrow> 'b) \<Rightarrow> bool" where
  "keys_frame g \<longleftrightarrow> (\<forall>w c. g (w\<lparr>cachedKeys := c\<rparr>) = g w) \<and> (\<forall>w c. g (w\<lparr>cachedJwksDocument := c\<rparr>) = g w)
     \<and> (\<forall>w c. g (w\<lparr>cachedVerifyKeySet := c\<rparr>) = g w)"

lemma keeps_loadSigningKeys:
  assumes "\<And>w c. g (w\<lparr>cachedKeys := c\<rparr>) = g w"
  shows "keeps g (loadSigningKeys P)"
  unfolding loadSigningKeys_def Let_def by (intro io_rules assms)

lemma keeps_loadSigningKeys_frame [io_rules]: "keys_frame g \<Longrightarrow> keeps g (loadSigningKeys P)"
  by (rule keeps_loadSigningKeys) (simp add: keys_frame_def)

lemma keeps_getJwksDocument [io_rules]:
  assumes "keys_frame g"
  shows "keeps g (getJwksDocument P)"
proof (rule keepsI)
  fix w :: "'a world"
  let ?m = "await (loadSigningKeys P) (\<lambda>keys. pure (buildJwksDocument P keys))"
  have "keeps g ?m" by (intro io_rules assms)
  then have "g (snd (?m w)) = g w" by (rule keeps_snd)
  moreover have "g (w1\<lparr>cachedJwksDocument := c\<rparr>) = g w1" for w1 c
    using assms by (simp add: keys_frame_def)
  ultimately show "g (snd (getJwksDocument P w)) = g w"
    by (cases "?m w") (simp add: getJwksDocument_def split: option.split)
qed

lemma keeps_getVerifyKeySet [io_rules]:
  assumes "keys_frame g"
  shows "keeps g (getVerifyKeySet P)"
proof (rule keepsI)
  fix w :: "'a world"
  have "g (snd (getJwksDocument P w)) = g w" using keeps_getJwksDocument [OF assms] by (rule keeps_snd)
  moreover have "g (w1\<lparr>cachedVerifyKeySet := c\<rparr>) = g w1" for w1 c
    using assms by (simp add: keys_frame_def)
  ultimately show "g (snd (getVerifyKeySet P w)) = g w"
    by (cases "getJwksDocument P w") (simp add: getVerifyKeySet_def split: option.split)
qed

lemma keeps_signAccessToken [io_rules]:
  "keys_frame g \<Longrightarrow> (\<And>w. g (w\<lparr>draws := Suc (draws w)\<rparr>) = g w) \<Longrightarrow> keeps g (signAccessToken P s)"
  unfolding signAccessToken_def Let_def by (intro io_rules)

lemma keys_frame_simps [simp]:
  "keys_frame users" "keys_frame refresh_tokens" "keys_frame tenant_encryption_keys"
  "keys_frame audit_log" "keys_frame redis" "keys_frame dekCache" "keys_frame activeVersionCache"
  "keys_frame log_lines" "keys_frame clock" "keys_frame (\<lambda>w. (redis w, clock w))"
  "keys_frame ext_n" "keys_frame pg_fate"
  by (simp_all add: keys_frame_def)

text \<open>The same functions preserve whatever depends on Redis and the clock only.\<close>

lemma live_frame: "keeps (\<lambda>w. (redis w, clock w)) m \<Longrightarrow> preserves (live view k v e) m"
  using keeps_preserves [of "\<lambda>w. (redis w, clock w)" m
    "\<lambda>(r, c). \<forall>t. c \<le> t \<longrightarrow> t < e \<longrightarrow> view r t k = Some v"]
  by (simp add: live_def preserves_def)

section \<open>Revocation\<close>

lemma live_setex:
  assumes srv: "redis_server (redisExec P) view" and "live view k v e w"
    and s: "0 < s" "e \<le> clock w + 1000 * s" and run: "redis_call P (SETEX k v s) w = (r, w')"
  shows "live view k v e w'"
proof -
  obtain x r1 where ex: "redisExec P (SETEX k v s) (clock (tick w)) (redis w) = (x, r1)"
    and w': "w' = (tick w)\<lparr>redis := r1\<rparr>" using redis_run [OF run] by blast
  have "view r1 t k = Some v" if "clock (tick w) \<le> t" "t < e" for t
  proof (rule redis_server.set_keeps_value [OF srv s(1) _ that(1) _ ex])
    have c: "clock w \<le> clock (tick w)" by (rule clock_tick)
    then show "t < clock (tick w) + 1000 * s" using that s by linarith
    show "view (redis w) t k = Some v" using assms(2) that c by (auto simp: live_def)
  qed
  then show ?thesis by (auto simp: live_def w')
qed

lemma setex_live:
  assumes srv: "redis_server (redisExec P) view"
    and s: "0 < s" "e \<le> clock w + 1000 * s" and run: "redis_call P (SETEX k v s) w = (Inr x, w')"
  shows "live view k v e w'"
proof -
  obtain r1 where ex: "redisExec P (SETEX k v s) (clock (tick w)) (redis w) = (Inr x, r1)"
    and w': "w' = (tick w)\<lparr>redis := r1\<rparr>" using run by (auto simp: redis_Inr)
  have "view r1 t k = Some v" if "clock (tick w) \<le> t" "t < e" for t
    using redis_server.set_view [OF srv s(1) ex that(1)] that s clock_tick [of w] by simp
  then show ?thesis by (auto simp: live_def w')
qed

lemma ttl_cover: "e \<le> clock w + 1000 * ceil_div (e - clock w) 1000"
  by (simp add: ceil_div_def)

lemma ttl_pos: "0 < ceil_div (e - clock w) 1000 \<or> max 0 (ceil_div (e - clock w) 1000) = 0"
  by linarith

text \<open>A successful revocation is visible until the token's own expiry.\<close>

lemma revokeToken_live:
  assumes srv: "redis_server (redisExec P) view" and run: "revokeToken P jti e w = (Inr u, w')"
  shows "live view (REVOKED_JTI_PREFIX @ jti) ''1'' e w'"
proof (cases "max 0 (ceil_div (e - clock w) 1000) \<le> 0")
  case True
  then have "e \<le> clock w" using ttl_zero_iff by blast
  with run True show ?thesis by (auto simp: revokeToken_def await_run ttl_run live_def)
next
  case False
  then have s: "0 < ceil_div (e - clock w) 1000" by linarith
  obtain x w1 where set: "redis_call P (SETEX (REVOKED_JTI_PREFIX @ jti) ''1''
      (ceil_div (e - clock w) 1000)) w = (Inr x, w1)"
    and w': "redis w' = redis w1" "clock w' = clock w1"
    using run s by (auto simp: revokeToken_def await_run ttl_run log_run max_def
        split: prod.splits sum.splits if_splits)
  have "live view (REVOKED_JTI_PREFIX @ jti) ''1'' e w1"
    using srv s ttl_cover set by (rule setex_live)
  then show ?thesis by (rule live_same) (simp_all add: w')
qed

lemma live_log [io_rules]: "preserves (live view k v e) (log l m meta)"
  by (rule live_frame, rule keeps_log) simp

lemma live_setex_other:
  "redis_server (redisExec P) view \<Longrightarrow> k \<noteq> k' \<Longrightarrow> preserves (live view k v e) (redis_call P (SETEX k' u s))"
  by (rule live_redis) simp_all

text \<open>Another revocation leaves the mark in place, of whatever token.\<close>

lemma revokeToken_keeps_live:
  assumes srv: "redis_server (redisExec P) view"
    and k: "k = REVOKED_JTI_PREFIX @ jti \<Longrightarrow> v = ''1'' \<and> e \<le> e'"
  shows "preserves (live view k v e) (revokeToken P jti e')"
proof (rule preservesI)
  fix w assume l: "live view k v e w"
  let ?s = "max 0 (ceil_div (e' - clock w) 1000)"
  show "live view k v e (snd (revokeToken P jti e' w))"
  proof (cases "?s \<le> 0")
    case True
    then show ?thesis using l by (simp add: revokeToken_def await_run ttl_run)
  next
    case False
    then have pos: "0 < ?s" by linarith
    obtain r w1 where set: "redis_call P (SETEX (REVOKED_JTI_PREFIX @ jti) ''1'' ?s) w = (r, w1)"
      by fastforce
    have l1: "live view k v e w1"
    proof (cases "k = REVOKED_JTI_PREFIX @ jti")
      case True
      then have v: "v = ''1''" and "e \<le> e'" using k by auto
      then have e: "e \<le> clock w + 1000 * ?s" using ttl_cover [of e' w] by linarith
      have "redis_call P (SETEX k v ?s) w = (r, w1)" using set True v by simp
      then show ?thesis by (rule live_setex [OF srv l pos e])
    next
      case False
      then show ?thesis using live_setex_other [OF srv] set l by (metis preservesD)
    qed
    have "redis (snd (revokeToken P jti e' w)) = redis w1" "clock (snd (revokeToken P jti e' w)) = clock w1"
      using False set by (simp_all add: revokeToken_def await_run ttl_run log_run split: sum.split)
    with l1 show ?thesis by (elim live_same) simp_all
  qed
qed

lemma isTokenRevoked_live:
  assumes srv: "redis_server (redisExec P) view"
    and l: "live view (REVOKED_JTI_PREFIX @ jti) ''1'' e w" and t: "clock (tick w) < e"
    and run: "isTokenRevoked P jti w = (r, w')"
  shows "r = Inr True \<or> (\<exists>m. r = Inl (RedisExn m))"
proof -
  obtain res w1 where get: "redis_call P (GET (REVOKED_JTI_PREFIX @ jti)) w = (res, w1)" by fastforce
  from redis_run [OF get] obtain x r1 where
    ex: "redisExec P (GET (REVOKED_JTI_PREFIX @ jti)) (clock (tick w)) (redis w) = (x, r1)"
    and res: "case x of Inl m \<Rightarrow> res = Inl (RedisExn m) | Inr y \<Rightarrow> res = Inr y" by blast
  have v: "view (redis w) (clock (tick w)) (REVOKED_JTI_PREFIX @ jti) = Some ''1''"
    using l t clock_tick [of w] by (auto simp: live_def)
  show ?thesis
  proof (cases x)
    case (Inl m)
    with res run get show ?thesis by (auto simp: isTokenRevoked_def)
  next
    case (Inr y)
    then have "y = Bulk ''1''" using redis_server.get_reply [OF srv] ex v by fastforce
    with Inr res run get show ?thesis by (auto simp: isTokenRevoked_def)
  qed
qed

section \<open>Verification\<close>

lemma getVerifyKeySet_frame:
  "getVerifyKeySet P w = (r, w') \<Longrightarrow> redis w' = redis w \<and> clock w' = clock w \<and> lag w' = lag w \<and> ext_n w' = ext_n w"
  using keepsD [OF keeps_getVerifyKeySet [of "\<lambda>w. (redis w, clock w, lag w, ext_n w)" P], of w r w']
  by (simp add: keys_frame_def)

lemma tick_clock_same: "clock w' = clock w \<Longrightarrow> lag w' = lag w \<Longrightarrow> ext_n w' = ext_n w \<Longrightarrow> clock (tick w') = clock (tick w)"
  by (simp add: tick_def)

lemma verify_ok:
  assumes "verifyAccessToken P token w = (Inr (Inr c), w')"
  obtains keys w1 where "getVerifyKeySet P w = (Inr keys, w1)"
    and "jwtVerify P token keys (verify_opts P) (clock w div 1000) = Inr c"
    and "isTokenRevoked P (cl_jti c) w1 = (Inr False, w')"
proof -
  obtain keys w1 where k: "getVerifyKeySet P w = (Inr keys, w1)"
    and rest: "(case jwtVerify P token keys (verify_opts P) (clock w1 div 1000) of
       Inl JWTExpired \<Rightarrow> pure (err token_expired_default)
     | Inl (JoseError m) \<Rightarrow> await (log LogWarn ''Access token verification failed'' [(''err'', m)]) (\<lambda>_.
         pure (err (UnauthorizedError ''Token is invalid'')))
     | Inr payload \<Rightarrow> await (isTokenRevoked P (cl_jti payload)) (\<lambda>revoked.
         if revoked then pure (err token_revoked_default) else pure (ok payload))) w1 = (Inr (Inr c), w')"
    using assms unfolding verifyAccessToken_def by (auto elim!: await_InrE simp: now_run)
  have cl: "clock w1 = clock w" using getVerifyKeySet_frame [OF k] by simp
  show thesis
  proof (cases "jwtVerify P token keys (verify_opts P) (clock w1 div 1000)")
    case (Inl e)
    with rest show thesis by (cases e) (simp_all add: err_def await_run log_run)
  next
    case (Inr payload)
    with rest obtain b w2 where rev: "isTokenRevoked P (cl_jti payload) w1 = (Inr b, w2)"
      and "(if b then pure (err token_revoked_default) else pure (ok payload)) w2 =
        (Inr (Inr c) :: exn + (claims, app_error) result, w')"
      by (auto elim!: await_InrE)
    then have "\<not> b" "payload = c" "w2 = w'" by (auto simp: err_def ok_def split: if_splits)
    with that [OF k] Inr rev cl show thesis by simp
  qed
qed

lemma accepted_token:
  assumes "redis_server (redisExec P) view"
    and "verifyAccessToken P token w = (Inr (Inr c), w')"
  shows "(\<exists>keys. fst (getVerifyKeySet P w) = Inr keys \<and>
      jwtVerify P token keys \<lparr>vo_issuer = GATEWAY_BASE_URL (env P), vo_audience = ''platform'',
        vo_clockTolerance = 30\<rparr> (clock w div 1000) = Inr c) \<and>
    view (redis w) (clock (tick w)) (REVOKED_JTI_PREFIX @ cl_jti c) = None"
proof -
  from assms(2) obtain keys w1 where k: "getVerifyKeySet P w = (Inr keys, w1)"
    and v: "jwtVerify P token keys (verify_opts P) (clock w div 1000) = Inr c"
    and rev: "isTokenRevoked P (cl_jti c) w1 = (Inr False, w')" by (rule verify_ok)
  have w1: "redis w1 = redis w" "clock (tick w1) = clock (tick w)"
    using getVerifyKeySet_frame [OF k] tick_clock_same by auto
  from rev obtain x r1 where
    ex: "redisExec P (GET (REVOKED_JTI_PREFIX @ cl_jti c)) (clock (tick w)) (redis w) = (Inr x, r1)"
    and x: "x = Nil_reply"
    by (auto simp: isTokenRevoked_def await_eq_Inr redis_Inr w1)
  have "view (redis w) (clock (tick w)) (REVOKED_JTI_PREFIX @ cl_jti c) = None"
    using redis_server.get_reply [OF assms(1) ex] x by (auto split: option.splits)
  with k v show ?thesis by (simp add: verify_opts_def)
qed

text \<open>
  C11. A token that verification accepts is one that jose accepted against the gateway's own key
  set, issuer and audience with 30 seconds of tolerance, and whose \<open>jti\<close> Redis did not list
  when it was asked.
\<close>

theorem verifyAccessToken_sound:
  assumes "redis_server (redisExec P) view"
    and "verifyAccessToken P token w = (Inr (Inr c), w')"
  shows "(\<exists>keys. fst (getVerifyKeySet P w) = Inr keys \<and>
      jwtVerify P token keys \<lparr>vo_issuer = GATEWAY_BASE_URL (env P), vo_audience = ''platform'',
        vo_clockTolerance = 30\<rparr> (clock w div 1000) = Inr c) \<and>
    view (redis w) (clock (tick w)) (REVOKED_JTI_PREFIX @ cl_jti c) = None"
  by (rule accepted_token [OF assms])

text \<open>
  A key is undisturbed between two worlds when whatever it was to hold until some instant it still
  holds. Every operation of the gateway that does not name the key leaves it undisturbed.
\<close>

definition undisturbed :: "('r \<Rightarrow> int \<Rightarrow> string \<Rightarrow> string option) \<Rightarrow> string \<Rightarrow> 'r world \<Rightarrow> 'r world \<Rightarrow> bool" where
  "undisturbed view k w w' \<longleftrightarrow> (\<forall>v e. live view k v e w \<longrightarrow> live view k v e w')"

lemma undisturbed_refl [simp]: "undisturbed view k w w"
  by (simp add: undisturbed_def)

lemma undisturbedD: "undisturbed view k w w' \<Longrightarrow> live view k v e w \<Longrightarrow> live view k v e w'"
  by (simp add: undisturbed_def)

lemma live_rejects:
  assumes srv: "redis_server (redisExec P) view"
    and l: "live view (REVOKED_JTI_PREFIX @ cl_jti c) ''1'' e w" and t: "clock (tick w) < e"
  shows "fst (verifyAccessToken P token w) \<noteq> Inr (Inr c)"
proof
  assume "fst (verifyAccessToken P token w) = Inr (Inr c)"
  then have "verifyAccessToken P token w = (Inr (Inr c), snd (verifyAccessToken P token w))"
    by (metis prod.collapse)
  then obtain keys w1 where k: "getVerifyKeySet P w = (Inr keys, w1)"
    and rev: "isTokenRevoked P (cl_jti c) w1 = (Inr False, snd (verifyAccessToken P token w))"
    by (rule verify_ok)
  note f = getVerifyKeySet_frame [OF k]
  have "live view (REVOKED_JTI_PREFIX @ cl_jti c) ''1'' e w1" using l by (rule live_same) (simp_all add: f)
  moreover have "clock (tick w1) < e" using t f tick_clock_same by metis
  ultimately show False using isTokenRevoked_live [OF srv _ _ rev] by blast
qed

text \<open>
  Once a token has been revoked, it is not accepted again before its expiry, as long as nobody
  else writes its mark.
\<close>

theorem revoked_token_rejected:
  assumes "redis_server (redisExec P) view"
    and "revokeToken P (cl_jti c) (cl_exp c * 1000) w = (Inr u, w1)"
    and "undisturbed view (REVOKED_JTI_PREFIX @ cl_jti c) w1 w2"
    and "clock (tick w2) < cl_exp c * 1000"
  shows "fst (verifyAccessToken P token w2) \<noteq> Inr (Inr c)"
  using live_rejects [OF assms(1) undisturbedD [OF assms(3) revokeToken_live [OF assms(1,2)]] assms(4)] .

lemma mem_server: "redis_server (redisExec demo) mem_view"
  by (simp add: mem.redis_server_axioms)

definition demo_claims :: claims where
  "demo_claims = \<lparr>cl_sub = ''u1'', cl_email = ''a@b'', cl_roles = [''user''], cl_auth_method = Password,
     cl_tenant_id = None, cl_scope = ''read'', cl_iat = 1, cl_exp = 901, cl_nbf = 1,
     cl_iss = ''https://gw'', cl_aud = ''platform'', cl_jti = ''j1''\<rparr>"

lemma demo_revoke:
  "\<exists>w1. revokeToken demo ''j1'' 901000 world0 = (Inr (), w1) \<and> clock w1 = 1000 \<and>
     redis w1 = mem_put (REVOKED_JTI_PREFIX @ ''j1'') (Some (''1'', Some 901000)) redis0 \<and>
     lag w1 = (\<lambda>_. 0) \<and> cachedVerifyKeySet w1 = None \<and> cachedJwksDocument w1 = None \<and> cachedKeys w1 = None"
  by (simp add: revokeToken_def await_run ttl_run ceil_div_def redis_call_def Let_def tick_def
      mem_exec_def redis0_def log_run)

lemma revoked_token_rejected_witness:
  "\<exists>w1. revokeToken demo ''j1'' 901000 world0 = (Inr (), w1) \<and>
     fst (verifyAccessToken demo ''t'' w1) \<noteq> Inr (Inr demo_claims)"
proof -
  obtain w1 where r: "revokeToken demo ''j1'' 901000 world0 = (Inr (), w1)" "clock w1 = 1000"
    "lag w1 = (\<lambda>_. 0)" using demo_revoke by blast
  have "fst (verifyAccessToken demo ''t'' w1) \<noteq> Inr (Inr demo_claims)"
    by (rule revoked_token_rejected [OF mem_server, of demo_claims world0 "()" w1 w1])
      (use r in \<open>simp_all add: demo_claims_def tick_def\<close>)
  with r show ?thesis by blast
qed

text \<open>
  The mark lasts until the token's expiry, but verification tolerates 30 seconds more: a token
  revoked by logout is accepted again once its mark has gone and until the tolerance ends.
\<close>

theorem revocation_lapses:
  assumes "redis_server (redisExec P) view"
    and "revokeToken P (cl_jti c) (cl_exp c * 1000) w = (Inr u, w1)" and "clock w < cl_exp c * 1000"
    and "redis w2 = redis w1" and "clock w1 - clock w + cl_exp c * 1000 + 1000 \<le> clock (tick w2)"
    and "fst (getVerifyKeySet P w2) = Inr keys"
    and "jwtVerify P token keys (verify_opts P) (clock w2 div 1000) = Inr c"
  shows "case fst (verifyAccessToken P token w2) of
      Inr r \<Rightarrow> r = Inr c | Inl e \<Rightarrow> \<exists>m. e = RedisExn m"
proof -
  let ?k = "REVOKED_JTI_PREFIX @ cl_jti c" and ?s = "ceil_div (cl_exp c * 1000 - clock w) 1000"
  have s: "0 < ?s" using assms(3) by (simp add: ceil_div_def pos_imp_zdiv_neg_iff)
  obtain x w3 where set: "redis_call P (SETEX ?k ''1'' ?s) w = (Inr x, w3)"
    and w1: "redis w1 = redis w3" "clock w1 = clock w3"
    using assms(2) s by (auto simp: revokeToken_def await_run ttl_run log_run max_def
        split: prod.splits sum.splits if_splits)
  then obtain r1 where ex: "redisExec P (SETEX ?k ''1'' ?s) (clock (tick w)) (redis w) = (Inr x, r1)"
    and w3: "w3 = (tick w)\<lparr>redis := r1\<rparr>" by (auto simp: redis_Inr)
  have "clock w + 1000 * ?s < cl_exp c * 1000 + 1000" using ttl_tight [OF s] by simp
  then have late: "clock (tick w) + 1000 * ?s \<le> clock (tick w2)" using assms(5) w1 w3 by simp
  then have "view r1 (clock (tick w2)) ?k = None"
    using redis_server.set_view [OF assms(1) s ex, of "clock (tick w2)"] s by simp
  then have gone: "view (redis w2) (clock (tick w2)) ?k = None" using assms(4) w1 w3 by simp
  obtain w4 where k: "getVerifyKeySet P w2 = (Inr keys, w4)" using assms(6) by (metis prod.collapse)
  note f = getVerifyKeySet_frame [OF k]
  have t4: "clock (tick w4) = clock (tick w2)" using f tick_clock_same by metis
  obtain y r2 where get: "redisExec P (GET ?k) (clock (tick w4)) (redis w4) = (y, r2)" by fastforce
  have "y = Inr Nil_reply \<or> isl y"
    using redis_server.get_reply [OF assms(1), of ?k "clock (tick w4)" "redis w4"] get gone f t4
    by (cases y) auto
  then show ?thesis
    using k assms(7) f get
    by (auto simp: verifyAccessToken_def await_run now_run isTokenRevoked_def redis_call_def Let_def
        ok_def split: sum.splits)
qed

section \<open>Signing\<close>

text \<open>The keys a fresh process would load.\<close>

definition load_keys :: "'r platform \<Rightarrow> exn + signing_keys" where
  "load_keys P = (case import_private P (JWT_PRIVATE_KEY_PATH (env P)) of Inl e \<Rightarrow> Inl e
     | Inr privateKey \<Rightarrow> (case import_public P (JWT_PUBLIC_KEY_PATH (env P)) of Inl e \<Rightarrow> Inl e
     | Inr publicKey \<Rightarrow>
        (if truthy (JWT_PREVIOUS_KID (env P)) \<and> truthy (JWT_PREVIOUS_PUBLIC_KEY_PATH (env P))
         then (case import_public P (the (JWT_PREVIOUS_PUBLIC_KEY_PATH (env P))) of Inl e \<Rightarrow> Inl e
           | Inr k \<Rightarrow> Inr \<lparr>sk_kid = JWT_KID (env P), sk_privateKey = privateKey, sk_publicKey = publicKey,
               sk_previousKid = JWT_PREVIOUS_KID (env P), sk_previousPublicKey = Some k\<rparr>)
         else Inr \<lparr>sk_kid = JWT_KID (env P), sk_privateKey = privateKey, sk_publicKey = publicKey,
               sk_previousKid = JWT_PREVIOUS_KID (env P), sk_previousPublicKey = None\<rparr>)))"

lemma loadSigningKeys_run:
  "loadSigningKeys P w = (case cachedKeys w of Some k \<Rightarrow> (Inr k, w) | None \<Rightarrow> (case load_keys P of
     Inl e \<Rightarrow> (Inl e, w) | Inr k \<Rightarrow> (Inr k, w\<lparr>cachedKeys := Some k\<rparr>)))"
  by (auto simp: loadSigningKeys_def load_keys_def await_run Let_def split: option.split sum.split)

definition key_caches :: "'r platform \<Rightarrow> 'r world \<Rightarrow> bool" where
  "key_caches P w \<longleftrightarrow> (\<forall>k. cachedKeys w = Some k \<longrightarrow> load_keys P = Inr k) \<and>
     (\<forall>d. cachedJwksDocument w = Some (Inr d) \<longrightarrow> (\<exists>k. load_keys P = Inr k \<and> d = buildJwksDocument P k)) \<and>
     (\<forall>d. cachedVerifyKeySet w = Some (Inr d) \<longrightarrow> (\<exists>k. load_keys P = Inr k \<and> d = buildJwksDocument P k))"

lemma getJwksDocument_ok:
  assumes "key_caches P w" and "getJwksDocument P w = (r, w')"
  shows "key_caches P w' \<and> (\<forall>d. r = Inr d \<longrightarrow> (\<exists>k. load_keys P = Inr k \<and> d = buildJwksDocument P k))"
  using assms
  by (auto simp: getJwksDocument_def await_run loadSigningKeys_run key_caches_def
      split: option.splits sum.splits)

lemma getVerifyKeySet_ok:
  assumes "key_caches P w" and "getVerifyKeySet P w = (r, w')"
  shows "key_caches P w' \<and> (\<forall>d. r = Inr d \<longrightarrow> (\<exists>k. load_keys P = Inr k \<and> d = buildJwksDocument P k))"
proof (cases "cachedVerifyKeySet w")
  case None
  obtain r1 w1 where g: "getJwksDocument P w = (r1, w1)" by fastforce
  with None assms(2) have "r = r1" "w' = w1\<lparr>cachedVerifyKeySet := Some r1\<rparr>"
    by (auto simp: getVerifyKeySet_def)
  then show ?thesis using getJwksDocument_ok [OF assms(1) g] by (auto simp: key_caches_def)
next
  case (Some r0)
  then show ?thesis using assms by (auto simp: getVerifyKeySet_def key_caches_def)
qed

text \<open>
  What is documented of \<open>SignJWT\<close> and \<open>jwtVerify\<close> for a key pair: a token signed with the
  private key verifies against a key set with one entry of its \<open>kid\<close>, the public key's, when
  issuer and audience match and it is not too early, until its expiry plus the tolerance.
\<close>

definition jwt_pair :: "'r platform \<Rightarrow> key_like \<Rightarrow> key_like \<Rightarrow> bool" where
  "jwt_pair P priv pub \<longleftrightarrow> (\<forall>h c keys opts s k.
     k \<in> set keys \<longrightarrow> jwk_params k = exportJWK P pub \<longrightarrow> jwk_alg k = hd_alg h \<longrightarrow>
     filter (\<lambda>j. jwk_kid j = hd_kid h) keys = [k] \<longrightarrow>
     cl_iss c = vo_issuer opts \<longrightarrow> cl_aud c = vo_audience opts \<longrightarrow> cl_nbf c \<le> s + vo_clockTolerance opts \<longrightarrow>
     jwtVerify P (jwtSign P priv h c) keys opts s =
       (if cl_exp c \<le> s - vo_clockTolerance opts then Inl JWTExpired else Inr c))"

lemma jwks_filter:
  "sk_previousKid ks \<noteq> Some (sk_kid ks) \<Longrightarrow>
     filter (\<lambda>j. jwk_kid j = sk_kid ks) (buildJwksDocument P ks) = [jwk_of P (sk_publicKey ks) (sk_kid ks)]"
  by (auto simp: buildJwksDocument_def jwk_of_def split: option.splits)

lemma verify_signed:
  assumes "jwt_pair P (sk_privateKey ks) (sk_publicKey ks)" and "sk_previousKid ks \<noteq> Some (sk_kid ks)"
    and "as_audience subject = None" and "n \<le> s"
  shows "jwtVerify P (jwtSign P (sk_privateKey ks) \<lparr>hd_alg = JWT_ALGORITHM (env P), hd_kid = sk_kid ks\<rparr>
      (access_claims P subject jti n)) (buildJwksDocument P ks) (verify_opts P) s =
    (if n + ACCESS_TOKEN_TTL_SECONDS (env P) \<le> s - 30 then Inl JWTExpired
     else Inr (access_claims P subject jti n))"
proof -
  let ?j = "jwk_of P (sk_publicKey ks) (sk_kid ks)" and ?keys = "buildJwksDocument P ks"
  let ?h = "\<lparr>hd_alg = JWT_ALGORITHM (env P), hd_kid = sk_kid ks\<rparr>" and ?c = "access_claims P subject jti n"
  have "?j \<in> set ?keys" by (simp add: buildJwksDocument_def)
  moreover have "jwk_params ?j = exportJWK P (sk_publicKey ks)" "jwk_alg ?j = hd_alg ?h"
    by (simp_all add: jwk_of_def)
  moreover have "filter (\<lambda>j. jwk_kid j = hd_kid ?h) ?keys = [?j]" using jwks_filter [OF assms(2)] by simp
  moreover have "cl_iss ?c = vo_issuer (verify_opts P)" "cl_aud ?c = vo_audience (verify_opts P)"
    "cl_nbf ?c \<le> s + vo_clockTolerance (verify_opts P)"
    using assms(3,4) by (simp_all add: access_claims_def verify_opts_def)
  ultimately have "jwtVerify P (jwtSign P (sk_privateKey ks) ?h ?c) ?keys (verify_opts P) s =
      (if cl_exp ?c \<le> s - vo_clockTolerance (verify_opts P) then Inl JWTExpired else Inr ?c)"
    using assms(1) unfolding jwt_pair_def by blast
  then show ?thesis by (simp add: access_claims_def verify_opts_def)
qed

end
