(* ===== verification/Refresh.thy ===== *)
theory Refresh
  imports TokenProofs
begin

text \<open>
  \<open>src/services/refreshToken.service.ts\<close>: opaque refresh tokens, stored as SHA-256 hashes in
  \<open>refresh_tokens\<close>, rotated on use, with a replay revoking the whole session family. Redis
  holds a mirror of the revocations.
\<close>

section \<open>The service\<close>

record token_meta =
  tm_ipAddress :: "string option"
  tm_userAgent :: "string option"
  tm_clientId :: "string option"

record issued_refresh_token =
  ir_plaintext :: string
  ir_tokenHash :: string
  ir_sessionFamily :: string
  ir_expiresAt :: int

record rotation_result =
  rr_userId :: string
  rr_issued :: issued_refresh_token

definition generatePlaintext :: "('r, string) gw" where
  "generatePlaintext = await (randomBytes 32) (\<lambda>b. pure (base64url b))"

definition hashRefreshToken :: "'r platform \<Rightarrow> string \<Rightarrow> string" where
  "hashRefreshToken P plaintext = hex (sha256 P (utf8 plaintext))"

definition new_refresh_row ::
    "string \<Rightarrow> token_meta \<Rightarrow> string \<Rightarrow> string \<Rightarrow> int \<Rightarrow> string \<Rightarrow> int \<Rightarrow> refresh_row" where
  "new_refresh_row userId meta tokenHash sessionFamily expiresAt i t =
     \<lparr>rt_id = i, rt_userId = userId, rt_tokenHash = tokenHash, rt_sessionFamily = sessionFamily,
      rt_clientId = tm_clientId meta, rt_ipAddress = tm_ipAddress meta,
      rt_userAgent = tm_userAgent meta, rt_issuedAt = t, rt_expiresAt = expiresAt,
      rt_revokedAt = None, rt_revocationReason = None\<rparr>"

text \<open>The insert: unique hash and id, and the foreign key to \<open>users\<close>.\<close>

definition insert_refresh_token ::
    "string \<Rightarrow> token_meta \<Rightarrow> string \<Rightarrow> string \<Rightarrow> int \<Rightarrow> ('r, unit) gw" where
  "insert_refresh_token userId meta tokenHash sessionFamily expiresAt = pg (
     await randomUUID (\<lambda>i. await now (\<lambda>t. await (gets (\<lambda>w. w)) (\<lambda>w.
     if userId \<notin> ur_id ` set (users w) then
       throw (PgExn ''violates foreign key constraint refresh_tokens_user_id_users_id_fk'')
     else if i \<in> rt_id ` set (refresh_tokens w) then
       throw (PgExn ''duplicate key value: refresh_tokens_pkey'')
     else if tokenHash \<in> rt_tokenHash ` set (refresh_tokens w) then
       throw (PgExn ''duplicate key value: refresh_tokens_token_hash_unique'')
     else modify (\<lambda>w. w\<lparr>refresh_tokens := refresh_tokens w @
       [new_refresh_row userId meta tokenHash sessionFamily expiresAt i t]\<rparr>)))))"

definition issueRefreshToken ::
    "'r platform \<Rightarrow> string \<Rightarrow> token_meta \<Rightarrow> string option \<Rightarrow> ('r, issued_refresh_token) gw" where
  "issueRefreshToken P userId meta family =
     await (case family of Some f \<Rightarrow> pure f | None \<Rightarrow> randomUUID) (\<lambda>sessionFamily.
     await generatePlaintext (\<lambda>plaintext.
     let tokenHash = hashRefreshToken P plaintext in
     await (secondsFromNow (REFRESH_TOKEN_TTL_SECONDS (env P))) (\<lambda>expiresAt.
     await (insert_refresh_token userId meta tokenHash sessionFamily expiresAt) (\<lambda>_.
     pure \<lparr>ir_plaintext = plaintext, ir_tokenHash = tokenHash, ir_sessionFamily = sessionFamily,
           ir_expiresAt = expiresAt\<rparr>))))"

text \<open>\<open>UPDATE refresh_tokens SET revoked_at, revocation_reason WHERE cond\<close>.\<close>

definition revoke_row :: "int \<Rightarrow> string \<Rightarrow> refresh_row \<Rightarrow> refresh_row" where
  "revoke_row t reason r = r\<lparr>rt_revokedAt := Some t, rt_revocationReason := Some reason\<rparr>"

definition revoke_where :: "(refresh_row \<Rightarrow> bool) \<Rightarrow> string \<Rightarrow> ('r, unit) gw" where
  "revoke_where cond reason = await now (\<lambda>t. pg (modify (\<lambda>w. w\<lparr>refresh_tokens :=
     set_where cond (revoke_row t reason) (refresh_tokens w)\<rparr>)))"

definition in_family :: "string \<Rightarrow> refresh_row \<Rightarrow> bool" where
  "in_family f r \<longleftrightarrow> rt_sessionFamily r = f \<and> rt_revokedAt r = None"

definition revokeSessionFamily :: "'r platform \<Rightarrow> string \<Rightarrow> string \<Rightarrow> ('r, unit) gw" where
  "revokeSessionFamily P sessionFamily reason =
     await (select_rows refresh_tokens (in_family sessionFamily)) (\<lambda>activeRows.
     if activeRows = [] then pure ()
     else await (revoke_where (in_family sessionFamily) reason) (\<lambda>_.
       promise_all (\<lambda>row. cacheRefreshTokenRevocation P (rt_tokenHash row) (rt_expiresAt row)) activeRows))"

text \<open>
  \<open>rotateRefreshToken\<close> in two parts: the lookup, and what is done with the row it found.
  Between the two, other requests may run.
\<close>

definition find_by_hash :: "string \<Rightarrow> ('r, refresh_row option) gw" where
  "find_by_hash tokenHash = await (select_rows refresh_tokens (\<lambda>r. rt_tokenHash r = tokenHash)) (\<lambda>rows.
     pure (row0 (take 1 rows)))"

definition rotate_row ::
    "'r platform \<Rightarrow> string \<Rightarrow> token_meta \<Rightarrow> refresh_row \<Rightarrow> ('r, (rotation_result, app_error) result) gw" where
  "rotate_row P tokenHash meta row =
     (if rt_revokedAt row \<noteq> None then
        await (revokeSessionFamily P (rt_sessionFamily row) ''reuse_detected'') (\<lambda>_.
        await (writeAuditEvent ((audit_event ''auth.token_refresh_failed'' ''denied'')
          \<lparr>user_id := Some (rt_userId row), failure_reason := Some ''token_reuse_detected'',
           metadata := Some [(''session_family'', rt_sessionFamily row)]\<rparr>)) (\<lambda>_.
        pure (err token_reuse_default)))
      else await now (\<lambda>t.
        if rt_expiresAt row \<le> t then pure (err (UnauthorizedError ''Refresh token has expired''))
        else
          await (revoke_where (\<lambda>r. rt_id r = rt_id row) ''rotation'') (\<lambda>_.
          await (cacheRefreshTokenRevocation P tokenHash (rt_expiresAt row)) (\<lambda>_.
          await (issueRefreshToken P (rt_userId row) meta (Some (rt_sessionFamily row))) (\<lambda>issued.
          pure (ok \<lparr>rr_userId = rt_userId row, rr_issued = issued\<rparr>))))))"

definition rotateRefreshToken ::
    "'r platform \<Rightarrow> string \<Rightarrow> token_meta \<Rightarrow> ('r, (rotation_result, app_error) result) gw" where
  "rotateRefreshToken P plaintextToken meta =
     (let tokenHash = hashRefreshToken P plaintextToken in
      await (find_by_hash tokenHash) (\<lambda>row. case row of
        None \<Rightarrow> pure (err (UnauthorizedError ''Refresh token is invalid''))
      | Some row \<Rightarrow> rotate_row P tokenHash meta row))"

definition revokeRefreshTokenByHash :: "'r platform \<Rightarrow> string \<Rightarrow> string \<Rightarrow> ('r, unit) gw" where
  "revokeRefreshTokenByHash P tokenHash reason =
     await (find_by_hash tokenHash) (\<lambda>row. case row of
       None \<Rightarrow> pure ()
     | Some row \<Rightarrow> if rt_revokedAt row \<noteq> None then pure ()
         else await (revoke_where (\<lambda>r. rt_id r = rt_id row) reason) (\<lambda>_.
           cacheRefreshTokenRevocation P tokenHash (rt_expiresAt row)))"

text \<open>\<open>ORDER BY issued_at DESC LIMIT 1\<close> over the user's unrevoked tokens.\<close>

definition revokeMostRecentRefreshTokenForUser :: "'r platform \<Rightarrow> string \<Rightarrow> string \<Rightarrow> ('r, unit) gw" where
  "revokeMostRecentRefreshTokenForUser P userId reason =
     await (select_rows refresh_tokens (\<lambda>r. rt_userId r = userId \<and> rt_revokedAt r = None)) (\<lambda>rows.
     case row0 (take 1 (rev (sort_key rt_issuedAt rows))) of
       None \<Rightarrow> pure ()
     | Some row \<Rightarrow> await (revoke_where (\<lambda>r. rt_id r = rt_id row) reason) (\<lambda>_.
         cacheRefreshTokenRevocation P (rt_tokenHash row) (rt_expiresAt row)))"

section \<open>Frames\<close>

lemma keeps_cacheRevocation [io_rules]:
  "(\<And>w. g (tick w) = g w) \<Longrightarrow> (\<And>w r. g (w\<lparr>redis := r\<rparr>) = g w) \<Longrightarrow>
     keeps g (cacheRefreshTokenRevocation P h e)"
  unfolding cacheRefreshTokenRevocation_def by (intro io_rules)

lemma preserves_cacheRevocation [io_rules]:
  "(\<And>w. I w \<Longrightarrow> I (tick w)) \<Longrightarrow> (\<And>w r. I w \<Longrightarrow> I (w\<lparr>redis := r\<rparr>)) \<Longrightarrow>
     preserves I (cacheRefreshTokenRevocation P h e)"
  unfolding cacheRefreshTokenRevocation_def by (intro io_rules)

lemma keeps_find_by_hash [io_rules]: "(\<And>w. g (tick w) = g w) \<Longrightarrow> keeps g (find_by_hash h)"
  unfolding find_by_hash_def by (intro io_rules)

lemma preserves_find_by_hash [io_rules]: "(\<And>w. I w \<Longrightarrow> I (tick w)) \<Longrightarrow> preserves I (find_by_hash h)"
  unfolding find_by_hash_def by (intro io_rules)

lemma find_by_hash_Inr:
  "find_by_hash h w = (Inr x, w') \<longleftrightarrow> pg_fate w (ext_n w) = Served \<and> w' = tick w \<and>
     x = row0 (filter (\<lambda>r. rt_tokenHash r = h) (refresh_tokens w))"
  by (auto simp: find_by_hash_def await_eq_Inr select_Inr)

lemma keeps_revoke_where [io_rules]:
  "(\<And>w. g (tick w) = g w) \<Longrightarrow> (\<And>w l. g (w\<lparr>refresh_tokens := l\<rparr>) = g w) \<Longrightarrow> keeps g (revoke_where c s)"
  unfolding revoke_where_def by (intro io_rules)

lemma keeps_generatePlaintext [io_rules]:
  "(\<And>w. g (w\<lparr>draws := Suc (draws w)\<rparr>) = g w) \<Longrightarrow> keeps g generatePlaintext"
  unfolding generatePlaintext_def by (intro io_rules)

lemma preserves_generatePlaintext [io_rules]:
  "(\<And>w. I w \<Longrightarrow> I (w\<lparr>draws := Suc (draws w)\<rparr>)) \<Longrightarrow> preserves I generatePlaintext"
  unfolding generatePlaintext_def by (intro io_rules)

lemma keeps_insert_refresh [io_rules]:
  "(\<And>w. g (tick w) = g w) \<Longrightarrow> (\<And>w. g (w\<lparr>draws := Suc (draws w)\<rparr>) = g w) \<Longrightarrow>
     (\<And>w l. g (w\<lparr>refresh_tokens := l\<rparr>) = g w) \<Longrightarrow> keeps g (insert_refresh_token u m h f e)"
  unfolding insert_refresh_token_def by (intro io_rules)

lemma keeps_issueRefreshToken [io_rules]:
  "(\<And>w. g (tick w) = g w) \<Longrightarrow> (\<And>w. g (w\<lparr>draws := Suc (draws w)\<rparr>) = g w) \<Longrightarrow>
     (\<And>w l. g (w\<lparr>refresh_tokens := l\<rparr>) = g w) \<Longrightarrow> keeps g (issueRefreshToken P u m f)"
  unfolding issueRefreshToken_def Let_def by (intro io_rules)

lemma keeps_revokeSessionFamily [io_rules]:
  "(\<And>w. g (tick w) = g w) \<Longrightarrow> (\<And>w l. g (w\<lparr>refresh_tokens := l\<rparr>) = g w) \<Longrightarrow>
     (\<And>w r. g (w\<lparr>redis := r\<rparr>) = g w) \<Longrightarrow> keeps g (revokeSessionFamily P f s)"
  unfolding revokeSessionFamily_def by (intro io_rules)

end
