(* ===== verification/AuthRoutes.thy ===== *)
theory AuthRoutes
  imports Http Refresh
begin

text \<open>
  \<open>src/routes/auth.router.ts\<close>, \<open>oauth.router.ts\<close> and \<open>system.router.ts\<close>: the
  handlers. While a refresh request waits for another one, the rest of the system runs; what it
  does meanwhile is the argument \<open>others\<close>.
\<close>

section \<open>Shared pieces\<close>

definition IDEMPOTENCY_CLAIM_WAIT_ATTEMPTS :: nat where
  "IDEMPOTENCY_CLAIM_WAIT_ATTEMPTS = 5"

definition IDEMPOTENCY_CLAIM_WAIT_MS :: int where
  "IDEMPOTENCY_CLAIM_WAIT_MS = 50"

definition delay :: "('r world \<Rightarrow> 'r world) \<Rightarrow> int \<Rightarrow> ('r, unit) gw" where
  "delay others ms = modify (\<lambda>w. others (w\<lparr>clock := clock w + ms\<rparr>))"

text \<open>The loop, by the attempts that are left.\<close>

fun wait_attempts ::
    "'r platform \<Rightarrow> ('r world \<Rightarrow> 'r world) \<Rightarrow> string \<Rightarrow> string \<Rightarrow> nat \<Rightarrow> ('r, cached_refresh_result option) gw" where
  "wait_attempts P others k h 0 = pure None"
| "wait_attempts P others k h (Suc n) =
     await (getIdempotencyCacheEntry P k) (\<lambda>entry. case entry of
       Some (Done r) \<Rightarrow> pure (if cr_presentedTokenHash r = h then Some r else None)
     | None \<Rightarrow> pure None
     | Some Pending \<Rightarrow> await (delay others IDEMPOTENCY_CLAIM_WAIT_MS) (\<lambda>_. wait_attempts P others k h n))"

definition waitForIdempotentResult ::
    "'r platform \<Rightarrow> ('r world \<Rightarrow> 'r world) \<Rightarrow> string \<Rightarrow> string \<Rightarrow> ('r, cached_refresh_result option) gw" where
  "waitForIdempotentResult P others idempotencyKey presentedTokenHash =
     wait_attempts P others idempotencyKey presentedTokenHash IDEMPOTENCY_CLAIM_WAIT_ATTEMPTS"

definition requestMeta :: "request \<Rightarrow> token_meta" where
  "requestMeta req = \<lparr>tm_ipAddress = (if truthy (rq_ip req) then rq_ip req else None),
     tm_userAgent = header ''user-agent'' req, tm_clientId = None\<rparr>"

definition auditMeta :: "token_meta \<Rightarrow> audit_entry \<Rightarrow> audit_entry" where
  "auditMeta meta entry = entry\<lparr>ip_address := (if truthy (tm_ipAddress meta) then tm_ipAddress meta else None),
     user_agent := (if truthy (tm_userAgent meta) then tm_userAgent meta else None)\<rparr>"

definition token_response :: "'r platform \<Rightarrow> string \<Rightarrow> string \<Rightarrow> json" where
  "token_response P accessToken refreshToken = JObj [(''access_token'', JStr accessToken),
     (''refresh_token'', JStr refreshToken), (''token_type'', JStr ''Bearer''),
     (''expires_in'', JInt (ACCESS_TOKEN_TTL_SECONDS (env P))), (''scope'', JStr (DEFAULT_USER_SCOPE (env P)))]"

definition subject_of :: "'r platform \<Rightarrow> authenticated_user \<Rightarrow> access_token_subject" where
  "subject_of P user = \<lparr>as_sub = au_id user, as_email = au_email user, as_roles = au_roles user,
     as_authMethod = Password, as_tenantId = au_tenantId user, as_scope = DEFAULT_USER_SCOPE (env P),
     as_audience = None\<rparr>"

section \<open>POST /login\<close>

definition login_failed :: "string option \<Rightarrow> token_meta \<Rightarrow> audit_entry" where
  "login_failed user meta = auditMeta meta ((audit_event ''auth.login_failed'' ''failure'')
     \<lparr>user_id := user, resource := Some ''/v1/auth/login'', failure_reason := Some ''invalid_credentials''\<rparr>)"

definition loginHandler :: "'r platform \<Rightarrow> login_body \<Rightarrow> request \<Rightarrow> response \<Rightarrow> ('r, next_step) gw" where
  "loginHandler P body req res =
     (let meta = requestMeta req;
          reject = (\<lambda>user. await (writeAuditEvent (login_failed user meta)) (\<lambda>_.
            pure (Fail invalid_credentials_default req res)))
      in await (findUserByEmail P (lb_email body)) (\<lambda>found. case found of
        None \<Rightarrow> reject None
      | Some (user, passwordHash) \<Rightarrow>
          if \<not> au_isActive user \<or> \<not> truthy passwordHash then reject None
          else await (verifyPassword P (lb_password body) (the passwordHash)) (\<lambda>passwordValid.
            if \<not> passwordValid then reject (Some (au_id user))
            else
              await (signAccessToken P (subject_of P user)) (\<lambda>signed.
              await (issueRefreshToken P (au_id user) meta None) (\<lambda>refresh.
              await (markLastLogin (au_id user)) (\<lambda>_.
              await (writeAuditEvent (auditMeta meta ((audit_event ''auth.login'' ''success'')
                \<lparr>user_id := Some (au_id user), resource := Some ''/v1/auth/login''\<rparr>))) (\<lambda>_.
              pure (Respond (send_json 200
                (token_response P (sat_token signed) (ir_plaintext refresh)) res)))))))))"

section \<open>POST /refresh\<close>

text \<open>After a successful rotation; \<open>owned\<close> is the idempotency key this request has claimed.\<close>

definition refresh_rotated ::
    "'r platform \<Rightarrow> string \<Rightarrow> string option \<Rightarrow> rotation_result \<Rightarrow> request \<Rightarrow> response \<Rightarrow> ('r, next_step) gw" where
  "refresh_rotated P presentedTokenHash owned x req res =
     await (findUserById P (rr_userId x)) (\<lambda>found. case found of
       None \<Rightarrow> pure (Fail (UnauthorizedError ''User no longer exists'') req res)
     | Some user \<Rightarrow>
         await (signAccessToken P (subject_of P user)) (\<lambda>signed.
         await (writeAuditEvent ((audit_event ''auth.token_refresh'' ''success'')
           \<lparr>user_id := Some (au_id user), resource := Some ''/v1/auth/refresh''\<rparr>)) (\<lambda>_.
         await (case owned of None \<Rightarrow> pure ()
           | Some k \<Rightarrow> completeIdempotentRefresh P k \<lparr>cr_userId = au_id user, cr_accessToken = sat_token signed,
               cr_refreshToken = ir_plaintext (rr_issued x), cr_presentedTokenHash = presentedTokenHash\<rparr>) (\<lambda>_.
         pure (Respond (send_json 200
           (token_response P (sat_token signed) (ir_plaintext (rr_issued x))) res))))))"

definition refresh_failed ::
    "'r platform \<Rightarrow> string option \<Rightarrow> app_error \<Rightarrow> request \<Rightarrow> response \<Rightarrow> ('r, next_step) gw" where
  "refresh_failed P owned e req res =
     await (case owned of None \<Rightarrow> pure () | Some k \<Rightarrow> releaseIdempotencyKey P k) (\<lambda>_.
     await (if code e \<noteq> ''token_reuse_detected'' then
         writeAuditEvent ((audit_event ''auth.token_refresh_failed'' ''denied'')
           \<lparr>resource := Some ''/v1/auth/refresh'', failure_reason := Some (code e)\<rparr>)
       else pure ()) (\<lambda>_. pure (Fail e req res)))"

definition refresh_rotate ::
    "'r platform \<Rightarrow> string \<Rightarrow> string option \<Rightarrow> request \<Rightarrow> response \<Rightarrow> ('r, next_step) gw" where
  "refresh_rotate P refreshToken owned req res =
     await (rotateRefreshToken P refreshToken (requestMeta req)) (\<lambda>rotation. case rotation of
       Inl e \<Rightarrow> refresh_failed P owned e req res
     | Inr x \<Rightarrow> refresh_rotated P (hashRefreshToken P refreshToken) owned x req res)"

definition refreshHandler ::
    "'r platform \<Rightarrow> ('r world \<Rightarrow> 'r world) \<Rightarrow> refresh_body \<Rightarrow> request \<Rightarrow> response \<Rightarrow> ('r, next_step) gw" where
  "refreshHandler P others body req res =
     (let token = rb_refresh_token body; idempotencyKey = rb_idempotency_key body in
      if \<not> truthy idempotencyKey then refresh_rotate P token None req res
      else await (claimIdempotencyKey P (the idempotencyKey)) (\<lambda>ownsIdempotencyClaim.
        if ownsIdempotencyClaim then refresh_rotate P token idempotencyKey req res
        else await (waitForIdempotentResult P others (the idempotencyKey) (hashRefreshToken P token)) (\<lambda>waited.
          case waited of
            Some r \<Rightarrow> pure (Respond (send_json 200 (token_response P (cr_accessToken r) (cr_refreshToken r)) res))
          | None \<Rightarrow> refresh_rotate P token None req res)))"

section \<open>POST /logout\<close>

definition logoutHandler :: "'r platform \<Rightarrow> logout_body \<Rightarrow> request \<Rightarrow> response \<Rightarrow> ('r, next_step) gw" where
  "logoutHandler P body req res = (case rq_auth req of
       None \<Rightarrow> pure (Fail unauthorized_default req res)
     | Some auth \<Rightarrow>
         await (revokeToken P (cl_jti auth) (cl_exp auth * 1000)) (\<lambda>_.
         await (if truthy (ob_refresh_token body)
           then revokeRefreshTokenByHash P (hashRefreshToken P (the (ob_refresh_token body))) ''logout''
           else revokeMostRecentRefreshTokenForUser P (cl_sub auth) ''logout'') (\<lambda>_.
         await (writeAuditEvent ((audit_event ''auth.logout'' ''success'')
           \<lparr>user_id := Some (cl_sub auth), resource := Some ''/v1/auth/logout''\<rparr>)) (\<lambda>_.
         pure (Respond (res\<lparr>rs_status := 204, rs_body := None\<rparr>))))))"

text \<open>Middleware before a handler.\<close>

definition then_handler :: "('r, next_step) gw \<Rightarrow> (request \<Rightarrow> response \<Rightarrow> ('r, next_step) gw) \<Rightarrow> ('r, next_step) gw" where
  "then_handler m handler = await m (\<lambda>st. case st of Continue req res \<Rightarrow> handler req res | _ \<Rightarrow> pure st)"

definition logoutRoute :: "'r platform \<Rightarrow> request \<Rightarrow> response \<Rightarrow> ('r, next_step) gw" where
  "logoutRoute P req res = then_handler (validateAccessToken P False req res)
     (validate logoutSchema (logoutHandler P))"

section \<open>GET /me, the key set, the stubs\<close>

definition opt_str :: "string option \<Rightarrow> json" where
  "opt_str x = (case x of None \<Rightarrow> JNull | Some s \<Rightarrow> JStr s)"

definition profile_json :: "user_profile \<Rightarrow> json" where
  "profile_json p = JObj [(''id'', JStr (up_id p)), (''email'', JStr (up_email p)),
     (''first_name'', opt_str (up_first_name p)), (''last_name'', opt_str (up_last_name p)),
     (''roles'', JArr (map JStr (up_roles p))), (''auth_method'', JStr (up_auth_method p)),
     (''tenant_id'', opt_str (up_tenant_id p)), (''email_verified'', JBool (up_email_verified p)),
     (''created_at'', JStr (up_created_at p)), (''last_login_at'', opt_str (up_last_login_at p))]"

definition meHandler :: "'r platform \<Rightarrow> request \<Rightarrow> response \<Rightarrow> ('r, next_step) gw" where
  "meHandler P req res = (case rq_auth req of
       None \<Rightarrow> pure (Fail unauthorized_default req res)
     | Some auth \<Rightarrow> await (findUserById P (cl_sub auth)) (\<lambda>found. case found of
         None \<Rightarrow> pure (Fail (UnauthorizedError ''User no longer exists'') req res)
       | Some user \<Rightarrow> pure (Respond (send_json 200
           (profile_json (toUserProfile user (auth_method_string (cl_auth_method auth)))) res))))"

definition meRoute :: "'r platform \<Rightarrow> request \<Rightarrow> response \<Rightarrow> ('r, next_step) gw" where
  "meRoute P req res = then_handler (validateAccessToken P False req res) (meHandler P)"

definition jwk_json :: "jwk \<Rightarrow> json" where
  "jwk_json k = JObj (map (\<lambda>(n, v). (n, JStr v)) (jwk_params k) @
     [(''kid'', JStr (jwk_kid k)), (''use'', JStr (jwk_use k)), (''alg'', JStr (jwk_alg k))])"

definition jwksHandler :: "'r platform \<Rightarrow> request \<Rightarrow> response \<Rightarrow> ('r, next_step) gw" where
  "jwksHandler P req res = await (getJwks P) (\<lambda>jwks.
     pure (Respond (send_json 200 (JObj [(''keys'', JArr (map jwk_json jwks))])
       (setHeader ''Cache-Control'' ''public, max-age=3600'' res))))"

definition not_implemented :: "string \<Rightarrow> request \<Rightarrow> response \<Rightarrow> ('r, next_step) gw" where
  "not_implemented what req res = pure (Respond (send_json 501 (JObj [(''error'', JStr ''NOT_IMPLEMENTED''),
     (''message'', JStr (what @ '' is not yet implemented''))]) res))"

section \<open>/health and /ready\<close>

definition healthHandler :: "int \<Rightarrow> request \<Rightarrow> response \<Rightarrow> ('r, next_step) gw" where
  "healthHandler uptime req res =
     pure (Respond (send_json 200 (JObj [(''status'', JStr ''ok''), (''uptime'', JInt uptime)]) res))"

text \<open>\<open>Promise.allSettled\<close> of one call: its rejection, if it rejected.\<close>

definition settled_call :: "('r, 'a) gw \<Rightarrow> ('r, exn option) gw" where
  "settled_call m w = (case m w of (Inl e, w1) \<Rightarrow> (Inr (Some e), w1) | (Inr _, w1) \<Rightarrow> (Inr None, w1))"

definition check_text :: "exn option \<Rightarrow> json" where
  "check_text r = JStr (if r = None then ''ok'' else ''error'')"

definition readyHandler :: "'r platform \<Rightarrow> request \<Rightarrow> response \<Rightarrow> ('r, next_step) gw" where
  "readyHandler P req res =
     await (settled_call (pg (pure ()))) (\<lambda>postgresResult.
     await (settled_call (redis_call P PING)) (\<lambda>redisResult.
     await (case postgresResult of None \<Rightarrow> pure ()
       | Some e \<Rightarrow> log LogWarn ''Readiness check: Postgres unreachable'' [(''err'', exn_text e)]) (\<lambda>_.
     await (case redisResult of None \<Rightarrow> pure ()
       | Some e \<Rightarrow> log LogWarn ''Readiness check: Redis unreachable'' [(''err'', exn_text e)]) (\<lambda>_.
     let healthy = postgresResult = None \<and> redisResult = None in
     pure (Respond (send_json (if healthy then 200 else 503)
       (JObj [(''status'', JStr (if healthy then ''ready'' else ''unavailable'')),
         (''checks'', JObj [(''postgres'', check_text postgresResult), (''redis'', check_text redisResult),
           (''routes'', JStr ''ok'')])]) res))))))"

section \<open>Routers\<close>

text \<open>
  Express's documented matching of a literal path: letter case and one trailing slash do not
  matter; a \<open>GET\<close> route also answers \<open>HEAD\<close>. A router that matches nothing passes the
  request on.
\<close>

definition norm_path :: "string \<Rightarrow> string" where
  "norm_path p = (let l = toLowerCase p in if endsWith l ''/'' \<and> 1 < length l then take (length l - 1) l else l)"

definition is_route :: "string \<Rightarrow> string \<Rightarrow> request \<Rightarrow> string \<Rightarrow> bool" where
  "is_route verb pattern req path \<longleftrightarrow>
     (rq_method req = verb \<or> verb = ''GET'' \<and> rq_method req = ''HEAD'') \<and> norm_path path = norm_path pattern"

definition authRouter ::
    "'r platform \<Rightarrow> ('r world \<Rightarrow> 'r world) \<Rightarrow> string \<Rightarrow> request \<Rightarrow> response \<Rightarrow> ('r, next_step) gw" where
  "authRouter P others path req res =
     (if is_route ''POST'' ''/login'' req path then validate (loginSchema P) (loginHandler P) req res
      else if is_route ''POST'' ''/refresh'' req path then validate (refreshSchema P) (refreshHandler P others) req res
      else if is_route ''POST'' ''/logout'' req path then logoutRoute P req res
      else if is_route ''GET'' ''/me'' req path then meRoute P req res
      else if is_route ''GET'' ''/.well-known/jwks.json'' req path then jwksHandler P req res
      else if is_route ''GET'' ''/saml/login'' req path then not_implemented ''GET /v1/auth/saml/login'' req res
      else if is_route ''POST'' ''/saml/callback'' req path then not_implemented ''POST /v1/auth/saml/callback'' req res
      else pure (Continue req res))"

definition oauthRouter :: "string \<Rightarrow> request \<Rightarrow> response \<Rightarrow> ('r, next_step) gw" where
  "oauthRouter path req res =
     (if is_route ''GET'' ''/authorize'' req path then not_implemented ''GET /v1/oauth/authorize'' req res
      else if is_route ''POST'' ''/token'' req path then not_implemented ''POST /v1/oauth/token'' req res
      else if is_route ''POST'' ''/introspect'' req path then not_implemented ''POST /v1/oauth/introspect'' req res
      else if is_route ''POST'' ''/revoke'' req path then not_implemented ''POST /v1/oauth/revoke'' req res
      else pure (Continue req res))"

definition systemRouter :: "'r platform \<Rightarrow> int \<Rightarrow> string \<Rightarrow> request \<Rightarrow> response \<Rightarrow> ('r, next_step) gw" where
  "systemRouter P uptime path req res =
     (if is_route ''GET'' ''/health'' req path then healthHandler uptime req res
      else if is_route ''GET'' ''/ready'' req path then readyHandler P req res
      else pure (Continue req res))"

end
