(* ===== verification/Proxy.thy ===== *)
theory Proxy
  imports Http
begin

text \<open>
  \<open>src/services/proxy.service.ts\<close> and \<open>src/routes/proxy.router.ts\<close>: route resolution,
  identity headers, authorization with its audit trail, and dispatch to the upstream service.
  path-to-regexp's \<open>match\<close> is \<open>pathMatch\<close> of the platform; what the upstream
  connection of http-proxy-middleware does is an argument of the dispatch.
\<close>

section \<open>Routes\<close>

record route_config =
  rc_path :: string
  rc_upstream :: string
  rc_auth_required :: bool
  rc_required_scope :: "string option"
  rc_allowed_roles :: "string list option"
  rc_rate_limit_override :: "int option"
  rc_strip_prefix :: bool
  rc_timeout_ms :: int
  rc_audit_allowed_requests :: bool

record resolved_route =
  rv_route :: route_config
  rv_forwardPath :: string

definition staticPrefixOf :: "string \<Rightarrow> string" where
  "staticPrefixOf pattern =
     (let prefix = (case search (\<lambda>c. c \<in> {CHR '':'', CHR ''*'', CHR ''{''}) pattern of
          None \<Rightarrow> pattern | Some idx \<Rightarrow> take idx pattern)
      in if endsWith prefix ''/'' \<and> 1 < length prefix then take (length prefix - 1) prefix else prefix)"

definition forward_path :: "route_config \<Rightarrow> string \<Rightarrow> string" where
  "forward_path route path = (if rc_strip_prefix route
     then (let p = drop (length (staticPrefixOf (rc_path route))) path in if p = [] then ''/'' else p)
     else path)"

text \<open>The first route that matches; a matcher that throws ends the search with its error.\<close>

fun resolveRoute :: "'r platform \<Rightarrow> string \<Rightarrow> route_config list \<Rightarrow> exn + resolved_route option" where
  "resolveRoute P path [] = Inr None"
| "resolveRoute P path (route # routes) = (case pathMatch P (rc_path route) path of
     Inl m \<Rightarrow> Inl (JsError m)
   | Inr True \<Rightarrow> Inr (Some \<lparr>rv_route = route, rv_forwardPath = forward_path route path\<rparr>)
   | Inr False \<Rightarrow> resolveRoute P path routes)"

section \<open>Identity headers\<close>

definition SPOOFABLE_IDENTITY_HEADERS :: "string list" where
  "SPOOFABLE_IDENTITY_HEADERS =
     [''x-user-id'', ''x-user-email'', ''x-user-roles'', ''x-auth-method'', ''x-tenant-id'']"

definition stripSpoofedHeaders :: "(string \<times> string) list \<Rightarrow> (string \<times> string) list" where
  "stripSpoofedHeaders headers = fold (\<lambda>name. filter (\<lambda>(n, _). n \<noteq> name)) SPOOFABLE_IDENTITY_HEADERS headers"

definition buildIdentityHeaders :: "claims \<Rightarrow> string \<Rightarrow> (string \<times> string) list" where
  "buildIdentityHeaders c i =
     [(''x-user-id'', cl_sub c), (''x-user-email'', cl_email c), (''x-user-roles'', join '','' (cl_roles c)),
      (''x-auth-method'', auth_method_string (cl_auth_method c)), (''x-request-id'', i)] @
     (if truthy (cl_tenant_id c) then [(''x-tenant-id'', the (cl_tenant_id c))] else [])"

text \<open>\<open>Object.assign(headers, values)\<close>.\<close>

definition assign_header :: "string \<times> string \<Rightarrow> (string \<times> string) list \<Rightarrow> (string \<times> string) list" where
  "assign_header nv headers = nv # filter (\<lambda>(n, _). n \<noteq> fst nv) headers"

definition assign_headers :: "(string \<times> string) list \<Rightarrow> (string \<times> string) list \<Rightarrow> (string \<times> string) list" where
  "assign_headers headers values = fold assign_header values headers"

section \<open>Authorization\<close>

definition resourcePath :: "request \<Rightarrow> string" where
  "resourcePath req = hd (split_on (CHR ''?'') (rq_originalUrl req))"

definition requestAuditFields :: "request \<Rightarrow> claims option \<Rightarrow> audit_entry \<Rightarrow> audit_entry" where
  "requestAuditFields req c entry = entry\<lparr>resource := Some (resourcePath req), user_id := map_option cl_sub c,
     ip_address := (if truthy (rq_ip req) then rq_ip req else None), user_agent := header ''user-agent'' req\<rparr>"

definition denial_entry :: "request \<Rightarrow> claims option \<Rightarrow> app_error \<Rightarrow> audit_entry" where
  "denial_entry req c e = requestAuditFields req c
     ((audit_event ''proxy.request_denied'' ''denied'')\<lparr>failure_reason := Some (code e)\<rparr>)"

definition auditDenial :: "request \<Rightarrow> claims option \<Rightarrow> app_error \<Rightarrow> ('r, unit) gw" where
  "auditDenial req c e = writeAuditEvent (denial_entry req c e)"

definition route_limits :: "route_config \<Rightarrow> rate_options" where
  "route_limits route = \<lparr>ro_windowMs = None, ro_maxRequests = rc_rate_limit_override route,
     ro_keyPrefix = Some (''ratelimit:proxy:'' @ rc_path route)\<rparr>"

text \<open>The limiter as a call: the error it passed to \<open>next\<close>, and the response with its headers.\<close>

definition runRateLimiter ::
    "'r platform \<Rightarrow> route_config \<Rightarrow> request \<Rightarrow> response \<Rightarrow> ('r, app_error option \<times> response) gw" where
  "runRateLimiter P route req res = await (rateLimiter P (route_limits route) req res) (\<lambda>st. case st of
       Continue _ res1 \<Rightarrow> pure (None, res1)
     | Fail e _ res1 \<Rightarrow> pure (Some e, res1)
     | Respond res1 \<Rightarrow> pure (None, res1))"

definition has_allowed_role :: "route_config \<Rightarrow> claims option \<Rightarrow> bool" where
  "has_allowed_role route c = (case rc_allowed_roles route of
       None \<Rightarrow> True
     | Some allowed \<Rightarrow> allowed = [] \<or> (case c of None \<Rightarrow> False
         | Some cl \<Rightarrow> list_ex (\<lambda>role. role \<in> set allowed) (cl_roles cl)))"

definition has_scope :: "route_config \<Rightarrow> claims option \<Rightarrow> bool" where
  "has_scope route c = (case rc_required_scope route of
       None \<Rightarrow> True
     | Some scope \<Rightarrow> scope = [] \<or> (case c of None \<Rightarrow> False
         | Some cl \<Rightarrow> scope \<in> set (split_on (CHR '' '') (cl_scope cl))))"

definition enforceAuthorization ::
    "'r platform \<Rightarrow> route_config \<Rightarrow> claims option \<Rightarrow> request \<Rightarrow> response \<Rightarrow> ('r, app_error option \<times> response) gw" where
  "enforceAuthorization P route c req res =
     (if \<not> has_allowed_role route c then
        let e = ForbiddenError ''Insufficient role'' in
        await (auditDenial req c e) (\<lambda>_. pure (Some e, res))
      else if \<not> has_scope route c then
        let e = InsufficientScopeError (the (rc_required_scope route)) in
        await (auditDenial req c e) (\<lambda>_. pure (Some e, res))
      else await (runRateLimiter P route req res) (\<lambda>(rateLimitError, res1). case rateLimitError of
          Some e \<Rightarrow> await (auditDenial req c e) (\<lambda>_. pure (Some e, res1))
        | None \<Rightarrow> pure (None, res1)))"

definition auditAllowedIfFlagged :: "route_config \<Rightarrow> request \<Rightarrow> claims option \<Rightarrow> ('r, unit) gw" where
  "auditAllowedIfFlagged route req c = (if \<not> rc_audit_allowed_requests route then pure ()
     else writeAuditEvent (requestAuditFields req c (audit_event ''proxy.request_allowed'' ''success'')))"

section \<open>Dispatch\<close>

text \<open>
  What can reach the promise of one dispatch: the proxy's \<open>error\<close> event (with the error's code and
  message, and whether its third argument is a server response), the response's \<open>finish\<close> and
  \<open>close\<close>, and the proxy calling \<open>next\<close>.
\<close>

datatype upstream_event = OnError bool "string option" string | Finish | Close | NextCalled "exn option"

definition mapUpstreamError :: "route_config \<Rightarrow> string option \<Rightarrow> string \<Rightarrow> app_error" where
  "mapUpstreamError route errCode errMessage =
     (if errCode = Some ''ETIMEDOUT'' \<or> errCode = Some ''ECONNRESET'' then GatewayTimeoutError (rc_path route)
      else UpstreamError (rc_path route) (Some errMessage))"

text \<open>
  The promise with its \<open>settled\<close> flag and the entry of \<open>pendingUpstreamErrors\<close>.
\<close>

record dispatch =
  settled :: bool
  pending :: bool
  promise :: "(exn + unit) option"

definition dispatch0 :: dispatch where
  "dispatch0 = \<lparr>settled = False, pending = True, promise = None\<rparr>"

definition settle :: "exn + unit \<Rightarrow> dispatch \<Rightarrow> dispatch" where
  "settle r d = (if settled d then d else \<lparr>settled = True, pending = False, promise = Some r\<rparr>)"

fun on_event :: "route_config \<Rightarrow> upstream_event \<Rightarrow> dispatch \<Rightarrow> dispatch" where
  "on_event route (OnError isResponse errCode errMessage) d =
     (if isResponse \<and> pending d then settle (Inl (AppExn (mapUpstreamError route errCode errMessage))) d else d)"
| "on_event route Finish d = settle (Inr ()) d"
| "on_event route Close d = settle (Inr ()) d"
| "on_event route (NextCalled None) d = d"
| "on_event route (NextCalled (Some e)) d = settle (Inl e) d"

text \<open>
  \<open>exchange\<close> is the upstream connection: from the route and the request handed to the proxy, the
  events in their order and the response as the upstream has written it. \<open>None\<close> is a promise
  that no event settles. The request comes back with its own URL.
\<close>

type_synonym exchange = "route_config \<Rightarrow> request \<Rightarrow> response \<Rightarrow> upstream_event list \<times> response"

definition dispatchToUpstream ::
    "exchange \<Rightarrow> route_config \<Rightarrow> string \<Rightarrow> request \<Rightarrow> response \<Rightarrow>
     ('r, (exn + unit) option \<times> request \<times> response) gw" where
  "dispatchToUpstream exchange route forwardPath req res =
     (let originalUrl = rq_url req; req1 = req\<lparr>rq_url := forwardPath\<rparr> in
      await (modify tick) (\<lambda>_.
      case exchange route req1 res of (events, res1) \<Rightarrow>
        pure (promise (fold (on_event route) events dispatch0), req1\<lparr>rq_url := originalUrl\<rparr>, res1)))"

section \<open>The router\<close>

text \<open>Up to the dispatch: what is forwarded, or how the request was answered before.\<close>

datatype admission = Refuse next_step | Forward route_config string request response

definition attach_identity :: "request \<Rightarrow> request" where
  "attach_identity req = (case rq_auth req of None \<Rightarrow> req
     | Some c \<Rightarrow> req\<lparr>rq_headers := assign_headers (rq_headers req) (buildIdentityHeaders c (rq_requestId req))\<rparr>)"

text \<open>What follows the call of \<open>validateAccessToken\<close>, whose callback only keeps the error.\<close>

definition after_token :: "'r platform \<Rightarrow> route_config \<Rightarrow> string \<Rightarrow> next_step \<Rightarrow> ('r, admission) gw" where
  "after_token P route forwardPath st = (case st of
       Fail e req res \<Rightarrow> await (auditDenial req (rq_auth req) e) (\<lambda>_. pure (Refuse (Fail e req res)))
     | Respond res \<Rightarrow> pure (Refuse (Respond res))
     | Continue req res \<Rightarrow>
         await (enforceAuthorization P route (rq_auth req) req res) (\<lambda>(denial, res1). case denial of
           Some e \<Rightarrow> pure (Refuse (Fail e req res1))
         | None \<Rightarrow> pure (Forward route forwardPath (attach_identity req) res1)))"

definition admit :: "'r platform \<Rightarrow> route_config list \<Rightarrow> request \<Rightarrow> response \<Rightarrow> ('r, admission) gw" where
  "admit P routes req res =
     (let path = resourcePath req in
      await (lift (resolveRoute P path routes)) (\<lambda>resolved. case resolved of
        None \<Rightarrow> pure (Refuse (Fail (RouteNotFoundError path) req res))
      | Some rv \<Rightarrow>
          await (validateAccessToken P (\<not> rc_auth_required (rv_route rv))
              (req\<lparr>rq_headers := stripSpoofedHeaders (rq_headers req)\<rparr>) res)
            (after_token P (rv_route rv) (rv_forwardPath rv))))"

text \<open>
  The handler. \<open>None\<close>: it never ends. \<open>Passed\<close>: the dispatch failed and its error, of any kind, was
  passed to \<open>next\<close>.
\<close>

datatype handled = Ended next_step | Passed exn request response

definition proxyHandler ::
    "'r platform \<Rightarrow> exchange \<Rightarrow> route_config list \<Rightarrow> request \<Rightarrow> response \<Rightarrow> ('r, handled option) gw" where
  "proxyHandler P exchange routes req res =
     await (admit P routes req res) (\<lambda>adm. case adm of
       Refuse st \<Rightarrow> pure (Some (Ended st))
     | Forward route forwardPath req1 res1 \<Rightarrow>
         await (dispatchToUpstream exchange route forwardPath req1 res1) (\<lambda>(result, req2, res2). case result of
           None \<Rightarrow> pure None
         | Some (Inl e) \<Rightarrow> pure (Some (Passed e req2 res2))
         | Some (Inr _) \<Rightarrow> await (auditAllowedIfFlagged route req2 (rq_auth req2)) (\<lambda>_.
             pure (Some (Ended (Respond res2))))))"

end
