(* ===== verification/App.thy ===== *)
theory App
  imports AuthRoutes Proxy
begin

text \<open>
  \<open>createApp\<close> of \<open>src/index.ts\<close>: the middleware and routers in the order they are
  registered, and the global error handler behind each of them. helmet, cors and the body parsers
  are outside the repository and part of the argument \<open>outside\<close>, with the upstream exchange and
  what the rest of the system does while a request waits.
\<close>

record 'r outside =
  helmet :: "response \<Rightarrow> response"
  cors :: "string list option \<Rightarrow> request \<Rightarrow> response \<Rightarrow> next_step"
  parseBody :: "request \<Rightarrow> exn + json"
  upstream :: exchange
  meanwhile :: "'r world \<Rightarrow> 'r world"
  uptime :: int

definition initial_response :: response where
  "initial_response = \<lparr>rs_status = 200, rs_headers = [], rs_body = None\<rparr>"

text \<open>The origins given to cors: the configured ones in production, otherwise any (\<open>true\<close>).\<close>

definition cors_origins :: "'r platform \<Rightarrow> string list option" where
  "cors_origins P = (if NODE_ENV (env P) = ''production'' then Some (ALLOWED_ORIGINS (env P)) else None)"

text \<open>
  A mount path matches the path itself and everything below it, in any letter case; the router sees
  the rest.
\<close>

definition mounted :: "string \<Rightarrow> request \<Rightarrow> string option" where
  "mounted mount req = (let path = resourcePath req; rest = drop (length mount) path in
     if toLowerCase (take (length mount) path) = mount \<and> (rest = [] \<or> hd rest = CHR ''/'')
     then Some (if rest = [] then ''/'' else rest) else None)"

definition auth_or_oauth :: "request \<Rightarrow> bool" where
  "auth_or_oauth req \<longleftrightarrow> mounted ''/v1/auth'' req \<noteq> None \<or> mounted ''/v1/oauth'' req \<noteq> None"

text \<open>
  Express hands whatever a handler rejects with or passes to \<open>next\<close> to the error handler, which
  answers.
\<close>

definition handle_errors :: "('r, next_step) gw \<Rightarrow> request \<Rightarrow> response \<Rightarrow> ('r, next_step) gw" where
  "handle_errors m req res =
     await (try_catch m (\<lambda>e. await (errorHandler e req res) (\<lambda>r. pure (Respond r)))) (\<lambda>st. case st of
       Fail e req1 res1 \<Rightarrow> await (errorHandler (AppExn e) req1 res1) (\<lambda>r. pure (Respond r))
     | _ \<Rightarrow> pure st)"

text \<open>\<open>app.use (m)\<close>: \<open>m\<close> runs when nothing before it has answered.\<close>

definition app_use :: "(request \<Rightarrow> response \<Rightarrow> ('r, next_step) gw) \<Rightarrow> next_step \<Rightarrow> ('r, next_step) gw" where
  "app_use m st = (case st of Continue req res \<Rightarrow> handle_errors (m req res) req res | _ \<Rightarrow> pure st)"

definition bodyParsers :: "'r outside \<Rightarrow> request \<Rightarrow> response \<Rightarrow> ('r, next_step) gw" where
  "bodyParsers X req res = (if auth_or_oauth req
     then await (lift (parseBody X req)) (\<lambda>b. pure (Continue (req\<lparr>rq_body := b\<rparr>) res))
     else pure (Continue req res))"

definition limitRate :: "'r platform \<Rightarrow> request \<Rightarrow> response \<Rightarrow> ('r, next_step) gw" where
  "limitRate P req res = (if auth_or_oauth req
     then rateLimiter P \<lparr>ro_windowMs = None, ro_maxRequests = None, ro_keyPrefix = None\<rparr> req res
     else pure (Continue req res))"

definition at_mount ::
    "string \<Rightarrow> (string \<Rightarrow> request \<Rightarrow> response \<Rightarrow> ('r, next_step) gw) \<Rightarrow> request \<Rightarrow> response \<Rightarrow> ('r, next_step) gw" where
  "at_mount mount router req res = (case mounted mount req of
     None \<Rightarrow> pure (Continue req res) | Some path \<Rightarrow> router path req res)"

definition notFound :: "response \<Rightarrow> response" where
  "notFound res = send_json 404 (JObj [(''error'', JStr ''NOT_FOUND''),
     (''message'', JStr ''The requested resource does not exist on this gateway.'')]) res"

text \<open>The proxy, last but for the 404 answer; \<open>None\<close> when its handler never ends.\<close>

definition proxy_or_404 ::
    "'r platform \<Rightarrow> 'r outside \<Rightarrow> route_config list \<Rightarrow> next_step \<Rightarrow> ('r, response option) gw" where
  "proxy_or_404 P X routes st = (case st of
       Respond res \<Rightarrow> pure (Some res)
     | Fail e req res \<Rightarrow> await (errorHandler (AppExn e) req res) (\<lambda>r. pure (Some r))
     | Continue req res \<Rightarrow> (case mounted ''/api'' req of
         None \<Rightarrow> pure (Some (notFound res))
       | Some _ \<Rightarrow>
           await (try_catch (proxyHandler P (upstream X) routes req res)
             (\<lambda>e. pure (Some (Passed e req res)))) (\<lambda>r. case r of
             None \<Rightarrow> pure None
           | Some (Passed e req1 res1) \<Rightarrow> await (errorHandler e req1 res1) (\<lambda>r. pure (Some r))
           | Some (Ended (Respond res1)) \<Rightarrow> pure (Some res1)
           | Some (Ended (Fail e req1 res1)) \<Rightarrow> await (errorHandler (AppExn e) req1 res1) (\<lambda>r. pure (Some r))
           | Some (Ended (Continue req1 res1)) \<Rightarrow> pure (Some (notFound res1)))))"

definition pipeline ::
    "'r platform \<Rightarrow> 'r outside \<Rightarrow> route_config list \<Rightarrow> next_step \<Rightarrow> ('r, response option) gw" where
  "pipeline P X routes st =
     await (app_use (bodyParsers X) st) (\<lambda>st.
     await (app_use (\<lambda>req. systemRouter P (uptime X) (resourcePath req) req) st) (\<lambda>st.
     await (app_use (limitRate P) st) (\<lambda>st.
     await (app_use (at_mount ''/v1/auth'' (authRouter P (meanwhile X))) st) (\<lambda>st.
     await (app_use (at_mount ''/v1/oauth'' oauthRouter) st) (proxy_or_404 P X routes)))))"

definition createApp ::
    "'r platform \<Rightarrow> 'r outside \<Rightarrow> route_config list \<Rightarrow> request \<Rightarrow> ('r, response option) gw" where
  "createApp P X routes req = (case cors X (cors_origins P) req (helmet X initial_response) of
       Respond res \<Rightarrow> pure (Some res)
     | Fail e req1 res1 \<Rightarrow> await (errorHandler (AppExn e) req1 res1) (\<lambda>r. pure (Some r))
     | Continue req1 res1 \<Rightarrow>
         await (requestId req1 res1) (\<lambda>st.
         await (pipeline P X routes st) (\<lambda>result.
         await (case (result, st) of (Some res, Continue req2 _) \<Rightarrow> httpLogger req2 res | _ \<Rightarrow> pure ()) (\<lambda>_.
         pure result))))"

end
