(* ===== verification/Limits.thy ===== *)
theory Limits
  imports Http TokenProofs
begin

text \<open>
  The middleware's guarantees: a window admits exactly its quota, a refusal says when to come
  back, bearer authentication attaches only verified claims, and the error handler tells a client
  nothing about an internal failure.
\<close>

section \<open>One counted request\<close>

definition counted :: "('r \<Rightarrow> int \<Rightarrow> string \<Rightarrow> string option) \<Rightarrow> string \<Rightarrow> int \<Rightarrow> nat \<Rightarrow> 'r world \<Rightarrow> bool" where
  "counted view key reset n w \<longleftrightarrow> (if n = 0 then \<forall>t \<ge> clock w. view (redis w) t key = None
     else live view key (show_nat n) reset w)"

lemma redis_call_clock: "redis_call P c w = (r, w') \<Longrightarrow> clock w' = clock (tick w)"
  by (auto dest: redis_run)

lemma count_request_parts:
  assumes "count_request P key m w = (Inr c, w')"
  obtains x r1 where "redisExec P (INCR key) (clock (tick w)) (redis w) = (Inr x, r1)"
    and "(case x of Num count \<Rightarrow> await (if count = 1 then await (redis_call P (PEXPIRE key m)) (\<lambda>_. pure ()) else pure ())
         (\<lambda>_. pure count) | _ \<Rightarrow> throw (RedisExn ''unexpected reply'')) ((tick w)\<lparr>redis := r1\<rparr>) = (Inr c, w')"
  using assms by (auto simp: count_request_def redis_Inr elim!: await_InrE)

text \<open>The first request of a window sets the counter and its expiry; the others raise the counter.\<close>

lemma count_first:
  assumes srv: "redis_server (redisExec P) view" and m: "reset \<le> clock w + m"
    and none: "view (redis w) (clock (tick w)) key = None" and run: "count_request P key m w = (Inr c, w')"
  shows "c = 1 \<and> counted view key reset (Suc 0) w'"
proof -
  obtain x r1 where ex: "redisExec P (INCR key) (clock (tick w)) (redis w) = (Inr x, r1)"
    and rest: "(case x of Num count \<Rightarrow> await (if count = 1 then await (redis_call P (PEXPIRE key m)) (\<lambda>_. pure ()) else pure ())
         (\<lambda>_. pure count) | _ \<Rightarrow> throw (RedisExn ''unexpected reply'')) ((tick w)\<lparr>redis := r1\<rparr>) = (Inr c, w')"
    using count_request_parts [OF run] .
  let ?w1 = "(tick w)\<lparr>redis := r1\<rparr>"
  from redis_server.incr_new [OF srv none ex]
  have x: "x = Num 1" and v1: "\<forall>t \<ge> clock (tick w). view r1 t key = Some (show_nat 1)" by auto
  then obtain y where px: "redis_call P (PEXPIRE key m) ?w1 = (Inr y, w')" and c: "c = 1"
    using rest by (auto elim!: await_InrE)
  then obtain r2 where ex2: "redisExec P (PEXPIRE key m) (clock (tick ?w1)) (redis ?w1) = (Inr y, r2)"
    and w': "w' = (tick ?w1)\<lparr>redis := r2\<rparr>" by (auto simp: redis_Inr)
  have t: "clock w \<le> clock (tick w)" "clock (tick w) \<le> clock (tick ?w1)"
    using clock_tick [of w] clock_tick [of ?w1] by simp_all
  have "view r2 t key = Some (show_nat 1)" if "clock (tick ?w1) \<le> t" "t < reset" for t
  proof -
    have "t < clock (tick ?w1) + m" using that m \<open>clock w \<le> clock (tick w)\<close> \<open>clock (tick w) \<le> clock (tick ?w1)\<close> by linarith
    then show ?thesis using redis_server.pexpire_view [OF srv ex2 that(1)] v1 that \<open>clock (tick w) \<le> clock (tick ?w1)\<close> by simp
  qed
  then show ?thesis using c by (simp add: counted_def live_def w')
qed

lemma count_more:
  assumes srv: "redis_server (redisExec P) view" and n: "counted view key reset n w" "n \<noteq> 0"
    and run: "count_request P key m w = (Inr c, w')" and late: "clock w' < reset"
  shows "c = int n + 1 \<and> counted view key reset (Suc n) w'"
proof -
  obtain x r1 where ex: "redisExec P (INCR key) (clock (tick w)) (redis w) = (Inr x, r1)"
    and rest: "(case x of Num count \<Rightarrow> await (if count = 1 then await (redis_call P (PEXPIRE key m)) (\<lambda>_. pure ()) else pure ())
         (\<lambda>_. pure count) | _ \<Rightarrow> throw (RedisExn ''unexpected reply'')) ((tick w)\<lparr>redis := r1\<rparr>) = (Inr c, w')"
    using count_request_parts [OF run] .
  let ?w1 = "(tick w)\<lparr>redis := r1\<rparr>"
  have tick: "clock w \<le> clock (tick w)" by (rule clock_tick)
  have "clock ?w1 \<le> clock w'"
  proof (cases "x = Num 1")
    case True
    then obtain y where "redis_call P (PEXPIRE key m) ?w1 = (Inr y, w')" using rest by (auto elim!: await_InrE)
    then show ?thesis using redis_call_clock clock_tick [of ?w1] by fastforce
  next
    case False
    then show ?thesis using rest by (auto split: redis_reply.splits)
  qed
  then have "clock (tick w) < reset" using late by simp
  then have "view (redis w) (clock (tick w)) key = Some (show_nat n)"
    using n tick by (simp add: counted_def live_def)
  from redis_server.incr_next [OF srv this ex]
  have x: "x = Num (int n + 1)" and v1: "\<forall>t \<ge> clock (tick w). view r1 t key =
      (if view (redis w) t key = None then None else Some (show_nat (Suc n)))" by auto
  have "c = int n + 1" and w': "w' = ?w1" using rest x n(2) by auto
  moreover have "view r1 t key = Some (show_nat (Suc n))" if "clock (tick w) \<le> t" "t < reset" for t
    using v1 n that tick by (simp add: counted_def live_def)
  ultimately show ?thesis by (simp add: counted_def live_def)
qed

lemma count_request_counts:
  assumes srv: "redis_server (redisExec P) view" and m: "reset \<le> clock w + m"
    and n: "counted view key reset n w"
    and run: "count_request P key m w = (Inr c, w')" and late: "clock w' < reset"
  shows "c = int n + 1 \<and> counted view key reset (Suc n) w'"
proof (cases "n = 0")
  case True
  then have "view (redis w) (clock (tick w)) key = None" using n clock_tick [of w] by (simp add: counted_def)
  from count_first [OF srv m this run] True show ?thesis by simp
qed (rule count_more [OF srv n _ run late])

lemma keeps_reply:
  assumes "\<And>n. keeps g (num n)" and "keeps g other"
  shows "keeps g (case reply of Num n \<Rightarrow> num n | _ \<Rightarrow> other)"
  using assms by (cases reply) simp_all

definition passes :: "next_step \<Rightarrow> bool" where
  "passes st = (case st of Continue _ _ \<Rightarrow> True | _ \<Rightarrow> False)"

lemma rateLimiter_run:
  assumes "rateLimiter P o1 req res w = (Inr st, w')" and "log_lines w' = log_lines w"
  obtains c where "count_request P (rate_key o1 req (clock w div window_ms P o1)) (window_ms P o1) w = (Inr c, w')"
    and "passes st \<longleftrightarrow> c \<le> max_requests P o1"
proof -
  let ?count = "count_request P (rate_key o1 req (clock w div window_ms P o1)) (window_ms P o1)"
  obtain r w1 where cnt: "?count w = (r, w1)" by fastforce
  have "keeps log_lines (count_request P k m)" for k m
    unfolding count_request_def by (intro io_rules keeps_redis keeps_reply) simp_all
  then have lg: "log_lines w1 = log_lines w" using cnt by (rule keepsD)
  show thesis
  proof (cases r)
    case (Inl e)
    with assms cnt lg show thesis
      by (auto simp: rateLimiter_def await_run now_run Let_def try_catch_def log_run)
  next
    case (Inr c)
    with assms(1) cnt have "w' = w1" and "passes st \<longleftrightarrow> c \<le> max_requests P o1"
      by (auto simp: rateLimiter_def await_run now_run Let_def try_catch_def passes_def split: if_splits)
    with cnt Inr that show thesis by blast
  qed
qed

section \<open>A window\<close>

text \<open>
  \<open>window_run P view o1 key W n p w w'\<close>: between \<open>w\<close> and \<open>w'\<close>, within window \<open>W\<close>,
  the limiter served \<open>n\<close> requests of one key without a Redis error and passed \<open>p\<close> of them;
  in between, others leave the key alone.
\<close>

inductive window_run ::
    "'r platform \<Rightarrow> ('r \<Rightarrow> int \<Rightarrow> string \<Rightarrow> string option) \<Rightarrow> rate_options \<Rightarrow> string \<Rightarrow> int \<Rightarrow>
     nat \<Rightarrow> nat \<Rightarrow> 'r world \<Rightarrow> 'r world \<Rightarrow> bool"
  for P view o1 key W where
  none: "window_run P view o1 key W 0 0 w w"
| serve: "window_run P view o1 key W n p w w1 \<Longrightarrow> clock w1 \<le> clock w2 \<Longrightarrow>
     (\<forall>t \<ge> clock w2. view (redis w2) t key = view (redis w1) t key) \<Longrightarrow>
     clock w2 div window_ms P o1 = W \<Longrightarrow> rate_key o1 req W = key \<Longrightarrow>
     rateLimiter P o1 req res w2 = (Inr st, w3) \<Longrightarrow> log_lines w3 = log_lines w2 \<Longrightarrow>
     clock w3 < (W + 1) * window_ms P o1 \<Longrightarrow>
     window_run P view o1 key W (Suc n) (if passes st then Suc p else p) w w3"

lemma window_run_counted:
  assumes srv: "redis_server (redisExec P) view" and m: "0 < window_ms P o1"
    and "window_run P view o1 key W n p w w'" and "counted view key ((W + 1) * window_ms P o1) 0 w"
  shows "counted view key ((W + 1) * window_ms P o1) n w' \<and> p = min n (nat (max_requests P o1))"
  using assms(3,4)
proof (induction rule: window_run.induct)
  case (none w)
  then show ?case by simp
next
  case (serve n p w w1 w2 req res st w3)
  let ?reset = "(W + 1) * window_ms P o1"
  have IH: "counted view key ?reset n w1" "p = min n (nat (max_requests P o1))"
    using serve.IH serve.prems by auto
  have n2: "counted view key ?reset n w2"
    using IH(1) serve.hyps(2,3) by (auto simp: counted_def live_def)
  obtain c where cnt: "count_request P key (window_ms P o1) w2 = (Inr c, w3)"
    and pass: "passes st \<longleftrightarrow> c \<le> max_requests P o1"
    using rateLimiter_run [OF serve.hyps(6,7)] serve.hyps(4,5) by auto
  have "W * window_ms P o1 \<le> clock w2"
  proof -
    have "W * window_ms P o1 + clock w2 mod window_ms P o1 = clock w2"
      using div_mult_mod_eq [of "clock w2" "window_ms P o1"] unfolding serve.hyps(4) .
    then show ?thesis using pos_mod_sign [OF m, of "clock w2"] by linarith
  qed
  then have "?reset \<le> clock w2 + window_ms P o1" by (simp add: algebra_simps)
  from count_request_counts [OF srv this n2 cnt serve.hyps(8)]
  have c: "c = int n + 1" and n3: "counted view key ?reset (Suc n) w3" by auto
  have "passes st \<longleftrightarrow> Suc n \<le> nat (max_requests P o1)" using pass c by auto
  then show ?case using n3 IH(2) by auto
qed

text \<open>
  C25. Within one window, the limiter lets exactly the first \<open>maxRequests\<close> requests of a key
  pass and refuses all others, however the requests are spaced and whatever else runs in between,
  as long as Redis answers.
\<close>

theorem rateLimiter_quota:
  assumes "redis_server (redisExec P) view" and "0 < window_ms P o1"
    and "\<forall>t \<ge> clock w. view (redis w) t key = None" and "window_run P view o1 key W n p w w'"
  shows "p = min n (nat (max_requests P o1))"
  using window_run_counted [OF assms(1,2,4)] assms(3) by (simp add: counted_def)

definition demo_request :: request where
  "demo_request = \<lparr>rq_method = ''GET'', rq_originalUrl = ''/api/x?a=1'', rq_url = ''/x?a=1'', rq_path = ''/x'',
     rq_headers = [], rq_ip = Some ''1.2.3.4'', rq_body = JNull, rq_requestId = ''r1'', rq_auth = None\<rparr>"

definition response0 :: response where
  "response0 = \<lparr>rs_status = 200, rs_headers = [], rs_body = None\<rparr>"

definition demo_limits :: rate_options where
  "demo_limits = \<lparr>ro_windowMs = None, ro_maxRequests = Some 0, ro_keyPrefix = None\<rparr>"

lemma demo_limiter: "\<exists>st w1. rateLimiter demo demo_limits demo_request response0 world0 = (Inr st, w1) \<and>
    log_lines w1 = log_lines world0 \<and> clock w1 = 1000"
  by (simp add: rateLimiter_def await_run now_run Let_def try_catch_def count_request_def redis_call_def
      mem_exec_def redis0_def mem_view_def mem_put_def tick_def demo_limits_def max_requests_def)

lemma rateLimiter_quota_witness:
  "\<exists>p w'. window_run demo mem_view demo_limits (rate_key demo_limits demo_request 0) 0 1 p world0 w' \<and>
    p = min 1 (nat (max_requests demo demo_limits))"
proof -
  obtain st w1 where run: "rateLimiter demo demo_limits demo_request response0 world0 = (Inr st, w1)"
    "log_lines w1 = log_lines world0" "clock w1 = 1000" using demo_limiter by blast
  have m: "window_ms demo demo_limits = 60000"
    by (simp add: window_ms_def demo_limits_def demo_env_def)
  have "window_run demo mem_view demo_limits (rate_key demo_limits demo_request 0) 0 (Suc 0)
      (if passes st then Suc 0 else 0) world0 w1"
    by (rule window_run.serve [OF window_run.none _ _ _ refl run(1,2)]) (simp_all add: m run(3))
  moreover from this have "(if passes st then Suc 0 else 0) = min 1 (nat (max_requests demo demo_limits))"
    using rateLimiter_quota [OF mem_server, of demo_limits world0 "rate_key demo_limits demo_request 0" 0 "Suc 0"]
    by (simp add: m redis0_def mem_view_def)
  ultimately show ?thesis by auto
qed

end
