(* ===== verification/Jwks.thy ===== *)
theory Jwks
  imports TokenProofs
begin

text \<open>
  Issued tokens verify until they expire; the published key set; and the promise caches of
  \<open>src/services/token.service.ts\<close>, which keep a rejection.
\<close>

section \<open>Issued tokens verify\<close>

lemma signAccessToken_run:
  assumes "key_caches P w" and "signAccessToken P subject w = (Inr t, w')"
  obtains ks where "load_keys P = Inr ks"
    and "sat_token t = jwtSign P (sk_privateKey ks) \<lparr>hd_alg = JWT_ALGORITHM (env P), hd_kid = sk_kid ks\<rparr>
      (access_claims P subject (sat_jti t) (clock w div 1000))"
    and "sat_expiresAt t = (clock w div 1000 + ACCESS_TOKEN_TTL_SECONDS (env P)) * 1000"
  using assms
  by (auto simp: signAccessToken_def await_run loadSigningKeys_run randomUUID_run now_run Let_def
      key_caches_def split: option.splits sum.splits)

lemma signed_jwt:
  assumes "jwt_pair P (sk_privateKey ks) (sk_publicKey ks)" and "load_keys P = Inr ks"
    and "sk_previousKid ks \<noteq> Some (sk_kid ks)" and "key_caches P w" and "key_caches P w2"
    and "as_audience subject = None" and "clock w \<le> clock w2"
    and "signAccessToken P subject w = (Inr t, w1)" and "fst (getVerifyKeySet P w2) = Inr keys"
  shows "jwtVerify P (sat_token t) keys (verify_opts P) (clock w2 div 1000) =
      (if sat_expiresAt t div 1000 \<le> clock w2 div 1000 - 30 then Inl JWTExpired
       else Inr (access_claims P subject (sat_jti t) (clock w div 1000)))"
    and "sat_expiresAt t div 1000 = clock w div 1000 + ACCESS_TOKEN_TTL_SECONDS (env P)"
proof -
  let ?n = "clock w div 1000" and ?s = "clock w2 div 1000"
  from signAccessToken_run [OF assms(4,8)] obtain ks' where ks': "load_keys P = Inr ks'"
    and t': "sat_token t = jwtSign P (sk_privateKey ks') \<lparr>hd_alg = JWT_ALGORITHM (env P), hd_kid = sk_kid ks'\<rparr>
      (access_claims P subject (sat_jti t) ?n)"
    and ex': "sat_expiresAt t = (?n + ACCESS_TOKEN_TTL_SECONDS (env P)) * 1000" .
  have t: "sat_token t = jwtSign P (sk_privateKey ks) \<lparr>hd_alg = JWT_ALGORITHM (env P), hd_kid = sk_kid ks\<rparr>
      (access_claims P subject (sat_jti t) ?n)" using t' ks' assms(2) by (simp only: sum.inject)
  have ex: "sat_expiresAt t div 1000 = ?n + ACCESS_TOKEN_TTL_SECONDS (env P)" by (simp only: ex') simp
  obtain w3 where k: "getVerifyKeySet P w2 = (Inr keys, w3)" using assms(9) by (metis prod.collapse)
  have "keys = buildJwksDocument P ks" using getVerifyKeySet_ok [OF assms(5) k] assms(2) by auto
  moreover have "?n \<le> ?s" using assms(7) by (rule zdiv_mono1) simp
  ultimately show "jwtVerify P (sat_token t) keys (verify_opts P) ?s =
      (if sat_expiresAt t div 1000 \<le> ?s - 30 then Inl JWTExpired
       else Inr (access_claims P subject (sat_jti t) ?n))"
    using verify_signed [OF assms(1,3,6)] by (simp add: t ex)
  show "sat_expiresAt t div 1000 = ?n + ACCESS_TOKEN_TTL_SECONDS (env P)" by (rule ex)
qed

text \<open>
  A token the gateway signs is verified by the gateway, with exactly the claims of its
  subject, until 30 seconds after its expiry, unless it is revoked; after that it is expired.
\<close>

theorem signed_token_verifies:
  assumes "jwt_pair P (sk_privateKey ks) (sk_publicKey ks)" and "load_keys P = Inr ks"
    and "sk_previousKid ks \<noteq> Some (sk_kid ks)" and "key_caches P w" and "key_caches P w2"
    and "as_audience subject = None" and "clock w \<le> clock w2"
    and "signAccessToken P subject w = (Inr t, w1)" and "fst (getVerifyKeySet P w2) = Inr keys"
  shows "case fst (verifyAccessToken P (sat_token t) w2) of
      Inl e \<Rightarrow> \<exists>m. e = RedisExn m
    | Inr (Inl e) \<Rightarrow> e = (if sat_expiresAt t div 1000 \<le> clock w2 div 1000 - 30
        then token_expired_default else token_revoked_default)
    | Inr (Inr c) \<Rightarrow> clock w2 div 1000 - 30 < sat_expiresAt t div 1000 \<and>
        c = access_claims P subject (sat_jti t) (clock w div 1000)"
proof -
  let ?n = "clock w div 1000" and ?s = "clock w2 div 1000"
  note v = signed_jwt(1) [OF assms]
  obtain w3 where k: "getVerifyKeySet P w2 = (Inr keys, w3)" using assms(9) by (metis prod.collapse)
  have c: "clock w3 = clock w2" using getVerifyKeySet_frame [OF k] by simp
  show ?thesis
  proof (cases "sat_expiresAt t div 1000 \<le> ?s - 30")
    case True
    then have v1: "jwtVerify P (sat_token t) keys (verify_opts P) ?s = Inl JWTExpired"
      by (simp only: v if_True)
    have "fst (verifyAccessToken P (sat_token t) w2) = Inr (err token_expired_default)"
      by (simp add: verifyAccessToken_def await_run k now_run c v1)
    then show ?thesis by (simp only: err_def True if_True sum.case)
  next
    case False
    let ?c = "access_claims P subject (sat_jti t) ?n"
    have v1: "jwtVerify P (sat_token t) keys (verify_opts P) ?s = Inr ?c"
      by (simp only: v False if_False)
    have jti: "cl_jti ?c = sat_jti t" by (simp add: access_claims_def)
    obtain r w4 where rev: "isTokenRevoked P (sat_jti t) w3 = (r, w4)" by fastforce
    have "\<forall>e. r = Inl e \<longrightarrow> (\<exists>m. e = RedisExn m)"
      using rev by (auto simp: isTokenRevoked_def await_run redis_call_def Let_def
          split: prod.splits sum.splits)
    moreover have "fst (verifyAccessToken P (sat_token t) w2) = (case r of Inl e \<Rightarrow> Inl e
        | Inr b \<Rightarrow> Inr (if b then Inl token_revoked_default else Inr ?c))"
      by (cases r) (simp_all add: verifyAccessToken_def await_run k now_run c v1 jti rev err_def ok_def)
    moreover have "?s - 30 < sat_expiresAt t div 1000" using False by (simp only: not_le)
    ultimately show ?thesis using False by (cases r) (simp_all only: sum.case if_False split: if_split, auto)
  qed
qed

definition demo_subject :: access_token_subject where
  "demo_subject = \<lparr>as_sub = ''u1'', as_email = ''a@b'', as_roles = [''user''], as_authMethod = Password,
     as_tenantId = None, as_scope = ''read'', as_audience = None\<rparr>"

lemma demo_load: "load_keys demo = Inr \<lparr>sk_kid = ''k1'', sk_privateKey = KeyLike ''priv'',
    sk_publicKey = KeyLike ''pub'', sk_previousKid = Some ''k0'', sk_previousPublicKey = Some (KeyLike ''old'')\<rparr>"
  by (simp add: load_keys_def import_private_def import_public_def read_file_def demo_def demo_env_def truthy_def)

lemma demo_pair: "jwt_pair demo priv pub"
  unfolding jwt_pair_def
proof (intro allI impI, goal_cases)
  case (1 h c keys opts s k)
  then have "k \<in> set keys \<and> jwk_kid k = hd_kid h" by (metis (mono_tags, lifting) filter_eq_ConsD in_set_conv_decomp)
  then have "list_ex (\<lambda>j. jwk_kid j = hd_kid h) keys" by (auto simp: list_ex_iff)
  with 1 show ?case by (simp add: demo_def demo_verify_sign demo_check_def)
qed

lemma key_caches_empty: "cachedKeys w = None \<Longrightarrow> cachedJwksDocument w = None \<Longrightarrow> cachedVerifyKeySet w = None \<Longrightarrow>
    key_caches P w"
  by (simp add: key_caches_def)

lemma getVerifyKeySet_empty:
  "cachedKeys w = None \<Longrightarrow> cachedJwksDocument w = None \<Longrightarrow> cachedVerifyKeySet w = None \<Longrightarrow> load_keys P = Inr ks \<Longrightarrow>
    fst (getVerifyKeySet P w) = Inr (buildJwksDocument P ks)"
  by (simp add: getVerifyKeySet_def getJwksDocument_def await_run loadSigningKeys_run)

lemma signed_token_verifies_witness:
  "\<exists>t w1. signAccessToken demo demo_subject world0 = (Inr t, w1) \<and>
    (case fst (verifyAccessToken demo (sat_token t) world0) of
      Inl e \<Rightarrow> \<exists>m. e = RedisExn m
    | Inr (Inl e) \<Rightarrow> e = (if sat_expiresAt t div 1000 \<le> clock world0 div 1000 - 30
        then token_expired_default else token_revoked_default)
    | Inr (Inr c) \<Rightarrow> clock world0 div 1000 - 30 < sat_expiresAt t div 1000 \<and>
        c = access_claims demo demo_subject (sat_jti t) (clock world0 div 1000))"
proof -
  have kc: "key_caches demo world0" by (rule key_caches_empty) simp_all
  obtain t w1 where s: "signAccessToken demo demo_subject world0 = (Inr t, w1)"
    by (simp add: signAccessToken_def await_run loadSigningKeys_run demo_load randomUUID_run now_run Let_def)
  have "fst (getVerifyKeySet demo world0) = Inr (buildJwksDocument demo
      \<lparr>sk_kid = ''k1'', sk_privateKey = KeyLike ''priv'', sk_publicKey = KeyLike ''pub'',
       sk_previousKid = Some ''k0'', sk_previousPublicKey = Some (KeyLike ''old'')\<rparr>)"
    by (rule getVerifyKeySet_empty) (simp_all add: demo_load)
  from signed_token_verifies [OF demo_pair demo_load _ kc kc _ _ s this] s
  show ?thesis by (auto simp: demo_subject_def)
qed

lemma revocation_lapses_witness:
  "\<exists>w1 w2. revokeToken demo ''j1'' 901000 world0 = (Inr (), w1) \<and> redis w2 = redis w1 \<and>
     clock w2 = 912000 \<and>
     (case fst (verifyAccessToken demo (demo_sign (KeyLike ''priv'') \<lparr>hd_alg = ''RS256'', hd_kid = ''k1''\<rparr> demo_claims) w2) of
        Inr r \<Rightarrow> r = Inr demo_claims | Inl e \<Rightarrow> \<exists>m. e = RedisExn m)"
proof -
  obtain w1 where r: "revokeToken demo ''j1'' 901000 world0 = (Inr (), w1)" "clock w1 = 1000"
    "lag w1 = (\<lambda>_. 0)" "cachedVerifyKeySet w1 = None" "cachedJwksDocument w1 = None" "cachedKeys w1 = None"
    using demo_revoke by blast
  let ?w2 = "w1\<lparr>clock := 912000\<rparr>"
  let ?ks = "\<lparr>sk_kid = ''k1'', sk_privateKey = KeyLike ''priv'', sk_publicKey = KeyLike ''pub'',
       sk_previousKid = Some ''k0'', sk_previousPublicKey = Some (KeyLike ''old'')\<rparr>"
  let ?t = "demo_sign (KeyLike ''priv'') \<lparr>hd_alg = ''RS256'', hd_kid = ''k1''\<rparr> demo_claims"
  have k: "fst (getVerifyKeySet demo ?w2) = Inr (buildJwksDocument demo ?ks)"
    by (rule getVerifyKeySet_empty) (simp_all add: demo_load r)
  have "list_ex (\<lambda>j. jwk_kid j = ''k1'') (buildJwksDocument demo ?ks)"
    by (simp add: buildJwksDocument_def jwk_of_def)
  then have "demo_verify ?t (buildJwksDocument demo ?ks) (verify_opts demo) 912 =
      demo_check demo_claims (verify_opts demo) 912"
    by (intro demo_verify_sign) simp
  then have v: "jwtVerify demo ?t (buildJwksDocument demo ?ks) (verify_opts demo) (clock ?w2 div 1000) = Inr demo_claims"
    by (simp add: demo_def demo_check_def demo_claims_def verify_opts_def demo_env_def)
  have "case fst (verifyAccessToken demo ?t ?w2) of
      Inr r \<Rightarrow> r = Inr demo_claims | Inl e \<Rightarrow> \<exists>m. e = RedisExn m"
    by (rule revocation_lapses [OF mem_server, of demo_claims world0 "()" w1, OF _ _ _ _ k v])
      (use r in \<open>simp_all add: demo_claims_def tick_def\<close>)
  with r show ?thesis by (intro exI [of _ w1] exI [of _ ?w2]) simp
qed

lemma verifyAccessToken_sound_witness:
  "\<exists>token c w'. verifyAccessToken demo token world0 = (Inr (Inr c), w') \<and>
    (\<exists>keys. fst (getVerifyKeySet demo world0) = Inr keys \<and>
      jwtVerify demo token keys \<lparr>vo_issuer = GATEWAY_BASE_URL (env demo), vo_audience = ''platform'',
        vo_clockTolerance = 30\<rparr> (clock world0 div 1000) = Inr c) \<and>
    mem_view (redis world0) (clock (tick world0)) (REVOKED_JTI_PREFIX @ cl_jti c) = None"
proof -
  let ?ks = "\<lparr>sk_kid = ''k1'', sk_privateKey = KeyLike ''priv'', sk_publicKey = KeyLike ''pub'',
       sk_previousKid = Some ''k0'', sk_previousPublicKey = Some (KeyLike ''old'')\<rparr>"
  let ?t = "demo_sign (KeyLike ''priv'') \<lparr>hd_alg = ''RS256'', hd_kid = ''k1''\<rparr> demo_claims"
  have k: "fst (getVerifyKeySet demo world0) = Inr (buildJwksDocument demo ?ks)"
    by (rule getVerifyKeySet_empty) (simp_all add: demo_load)
  then obtain w1 where k': "getVerifyKeySet demo world0 = (Inr (buildJwksDocument demo ?ks), w1)"
    by (metis prod.collapse)
  note f = getVerifyKeySet_frame [OF k']
  have "list_ex (\<lambda>j. jwk_kid j = ''k1'') (buildJwksDocument demo ?ks)"
    by (simp add: buildJwksDocument_def jwk_of_def)
  then have "demo_verify ?t (buildJwksDocument demo ?ks) (verify_opts demo) 1 =
      demo_check demo_claims (verify_opts demo) 1"
    by (intro demo_verify_sign) simp
  then have v: "jwtVerify demo ?t (buildJwksDocument demo ?ks) (verify_opts demo) (clock w1 div 1000) = Inr demo_claims"
    using f by (simp add: demo_def demo_check_def demo_claims_def verify_opts_def demo_env_def)
  have "\<exists>w'. verifyAccessToken demo ?t world0 = (Inr (Inr demo_claims), w')"
    using v k' f by (simp add: verifyAccessToken_def await_run now_run isTokenRevoked_def
        redis_call_def Let_def mem_exec_def redis0_def mem_view_def ok_def)
  then obtain w' where "verifyAccessToken demo ?t world0 = (Inr (Inr demo_claims), w')" ..
  with verifyAccessToken_sound [OF mem_server this] show ?thesis by blast
qed

section \<open>The published key set\<close>

text \<open>
  The JWKS document lists the public key of the current \<open>kid\<close> first and, exactly when a
  previous \<open>kid\<close> and key path are configured, the previous public key; every entry carries
  \<open>use: sig\<close> and the configured algorithm, and its parameters are those of a public key.
\<close>

theorem getJwks_document:
  assumes "key_caches P w" and "getJwks P w = (Inr doc, w')"
  shows "\<exists>pub. import_public P (JWT_PUBLIC_KEY_PATH (env P)) = Inr pub \<and>
    doc = \<lparr>jwk_params = exportJWK P pub, jwk_kid = JWT_KID (env P), jwk_use = ''sig'',
             jwk_alg = JWT_ALGORITHM (env P)\<rparr> #
      (case (JWT_PREVIOUS_KID (env P), JWT_PREVIOUS_PUBLIC_KEY_PATH (env P)) of
         (Some kid, Some path) \<Rightarrow> if kid = [] \<or> path = [] then [] else
           (case import_public P path of Inl _ \<Rightarrow> [] | Inr k \<Rightarrow>
             [\<lparr>jwk_params = exportJWK P k, jwk_kid = kid, jwk_use = ''sig'', jwk_alg = JWT_ALGORITHM (env P)\<rparr>])
       | _ \<Rightarrow> [])"
proof -
  obtain ks where ks: "load_keys P = Inr ks" and doc: "doc = buildJwksDocument P ks"
    using getJwksDocument_ok [OF assms(1) assms(2) [unfolded getJwks_def]] by blast
  show ?thesis using ks
    by (auto simp: doc load_keys_def buildJwksDocument_def jwk_of_def truthy_def
        split: sum.splits option.splits if_splits)
qed

lemma getJwks_document_witness:
  "\<exists>doc w'. getJwks demo world0 = (Inr doc, w') \<and> (\<exists>pub. import_public demo (JWT_PUBLIC_KEY_PATH (env demo)) = Inr pub \<and>
    doc = \<lparr>jwk_params = exportJWK demo pub, jwk_kid = JWT_KID (env demo), jwk_use = ''sig'',
             jwk_alg = JWT_ALGORITHM (env demo)\<rparr> #
      (case (JWT_PREVIOUS_KID (env demo), JWT_PREVIOUS_PUBLIC_KEY_PATH (env demo)) of
         (Some kid, Some path) \<Rightarrow> if kid = [] \<or> path = [] then [] else
           (case import_public demo path of Inl _ \<Rightarrow> [] | Inr k \<Rightarrow>
             [\<lparr>jwk_params = exportJWK demo k, jwk_kid = kid, jwk_use = ''sig'', jwk_alg = JWT_ALGORITHM (env demo)\<rparr>])
       | _ \<Rightarrow> []))"
proof -
  have kc: "key_caches demo world0" by (rule key_caches_empty) simp_all
  have "\<exists>doc w'. getJwks demo world0 = (Inr doc, w')"
    by (simp add: getJwks_def getJwksDocument_def await_run loadSigningKeys_run demo_load)
  then obtain doc w' where g: "getJwks demo world0 = (Inr doc, w')" by blast
  from getJwks_document [OF kc this] show ?thesis
    by (intro exI [of _ doc] exI [of _ w'] conjI g)
qed

text \<open>
  C39. The promise caches keep a rejection: when the first load of the keys fails (a key file that
  is missing or unreadable at that moment), the JWKS endpoint and every token verification go on
  failing with the same error in that process, whatever the files hold later.
\<close>

theorem jwks_rejection_sticks:
  assumes "cachedJwksDocument w = None" and "getJwks P w = (Inl e, w1)"
    and "cachedJwksDocument w2 = cachedJwksDocument w1"
    and "cachedVerifyKeySet w2 = None \<or> cachedVerifyKeySet w2 = Some (Inl e)"
  shows "fst (getJwks P' w2) = Inl e \<and> fst (verifyAccessToken P' token w2) = Inl e"
proof -
  have "cachedJwksDocument w1 = Some (Inl e)"
    using assms(1,2) by (auto simp: getJwks_def getJwksDocument_def split: prod.splits)
  then have j: "getJwksDocument P' w2 = (Inl e, w2)" using assms(3) by (simp add: getJwksDocument_def)
  then have "fst (getVerifyKeySet P' w2) = Inl e"
    using assms(4) by (auto simp: getVerifyKeySet_def)
  then obtain w3 where "getVerifyKeySet P' w2 = (Inl e, w3)" by (metis prod.collapse)
  then show ?thesis using j by (simp add: getJwks_def verifyAccessToken_def await_run)
qed

lemma jwks_rejection_sticks_witness:
  "\<exists>e w1. getJwks (demo\<lparr>readFile := (\<lambda>p. Inl ''EACCES'')\<rparr>) world0 = (Inl e, w1) \<and>
     fst (getJwks demo w1) = Inl e \<and> fst (verifyAccessToken demo ''t'' w1) = Inl e"
proof -
  let ?P = "demo\<lparr>readFile := (\<lambda>p. Inl ''EACCES'')\<rparr>"
  have g: "getJwks ?P world0 = (Inl (JsError ''EACCES''), world0\<lparr>cachedJwksDocument := Some (Inl (JsError ''EACCES''))\<rparr>)"
    by (simp add: getJwks_def getJwksDocument_def await_run loadSigningKeys_run load_keys_def
        import_private_def read_file_def)
  have "fst (getJwks demo (world0\<lparr>cachedJwksDocument := Some (Inl (JsError ''EACCES''))\<rparr>)) = Inl (JsError ''EACCES'') \<and>
      fst (verifyAccessToken demo ''t'' (world0\<lparr>cachedJwksDocument := Some (Inl (JsError ''EACCES''))\<rparr>)) = Inl (JsError ''EACCES'')"
    by (rule jwks_rejection_sticks [OF _ g]) simp_all
  with g show ?thesis by blast
qed

end
