(* ===== verification/Guards.thy ===== *)
theory Guards
  imports Limits Jwks
begin

text \<open>
  What the remaining middleware guarantees: bearer authentication attaches only claims the token
  service accepted, a refusal of the rate limiter says when the window is over, and the error
  handler answers every internal failure with the same text.
\<close>

section \<open>Bearer authentication\<close>

text \<open>
  \<open>verified view P token c w\<close>: at \<open>w\<close>, jose accepts the token with claims \<open>c\<close> against the
  gateway's key set, issuer and audience, and Redis does not list its \<open>jti\<close>.
\<close>

definition verified ::
    "('r \<Rightarrow> int \<Rightarrow> string \<Rightarrow> string option) \<Rightarrow> 'r platform \<Rightarrow> string \<Rightarrow> claims \<Rightarrow> 'r world \<Rightarrow> bool" where
  "verified view P token c w \<longleftrightarrow> (\<exists>keys. fst (getVerifyKeySet P w) = Inr keys \<and>
      jwtVerify P token keys \<lparr>vo_issuer = GATEWAY_BASE_URL (env P), vo_audience = ''platform'',
        vo_clockTolerance = 30\<rparr> (clock w div 1000) = Inr c) \<and>
    view (redis w) (clock (tick w)) (REVOKED_JTI_PREFIX @ cl_jti c) = None"

text \<open>The token a request presents, if any.\<close>

definition bearer :: "request \<Rightarrow> string option" where
  "bearer req = (case header ''authorization'' req of
       Some h \<Rightarrow> if startsWith h ''Bearer '' then Some (trim (drop (length ''Bearer '') h)) else None
     | None \<Rightarrow> None)"

lemma validateAccessToken_run:
  "validateAccessToken P optional req res = (case bearer req of
     None \<Rightarrow> if optional then pure (Continue req res)
       else pure (Fail (UnauthorizedError ''Missing or malformed Authorization header'') req res)
   | Some token \<Rightarrow> await (verifyAccessToken P token) (\<lambda>result. case result of
       Inl e \<Rightarrow> pure (Fail e req res) | Inr c \<Rightarrow> pure (Continue (req\<lparr>rq_auth := Some c\<rparr>) res)))"
  by (simp add: validateAccessToken_def bearer_def Let_def split: option.split)

lemma validated:
  assumes "redis_server (redisExec P) view"
    and "validateAccessToken P optional req res w = (Inr (Continue req' res'), w')"
  shows "res' = res \<and> (case bearer req of None \<Rightarrow> optional \<and> req' = req \<and> w' = w
    | Some token \<Rightarrow> \<exists>c. req' = req\<lparr>rq_auth := Some c\<rparr> \<and> verified view P token c w \<and>
        verifyAccessToken P token w = (Inr (Inr c), w'))"
proof (cases "bearer req")
  case None
  with assms(2) show ?thesis by (simp add: validateAccessToken_run split: if_splits)
next
  case (Some token)
  obtain r w1 where v: "verifyAccessToken P token w = (r, w1)" by fastforce
  with assms(2) Some obtain c where "r = Inr (Inr c)" and req': "req' = req\<lparr>rq_auth := Some c\<rparr>" "res' = res" "w' = w1"
    by (cases r) (auto simp: validateAccessToken_run split: sum.splits)
  with v accepted_token [OF assms(1)] Some show ?thesis unfolding verified_def by auto
qed

text \<open>
  A request passes bearer authentication only if it presented no bearer token where that is
  allowed, and then nothing is attached to it, or with the claims of the token it presented,
  which jose accepted and Redis did not list as revoked.
\<close>

theorem validateAccessToken_sound:
  assumes "redis_server (redisExec P) view"
    and "validateAccessToken P optional req res w = (Inr (Continue req' res'), w')"
  shows "res' = res \<and> ((bearer req = None \<and> optional \<and> req' = req) \<or>
    (\<exists>token c. bearer req = Some token \<and> verified view P token c w \<and> req' = req\<lparr>rq_auth := Some c\<rparr>))"
  using validated [OF assms] by (cases "bearer req") auto

definition demo_signed :: string where
  "demo_signed = demo_sign (KeyLike ''priv'') \<lparr>hd_alg = ''RS256'', hd_kid = ''k1''\<rparr>
     (access_claims demo demo_subject ''j1'' 1)"

text \<open>A token with its own text in front of it is presented as it is.\<close>

lemma demo_signed_shape: "\<exists>s. demo_signed = CHR ''['' # s @ '']''"
  by (simp add: demo_signed_def demo_sign_def)

lemma trim_solid: "\<not> js_space a \<Longrightarrow> \<not> js_space z \<Longrightarrow> trim (a # s @ [z]) = a # s @ [z]"
  by (simp add: trim_def)

lemma trim_demo_signed: "trim demo_signed = demo_signed"
proof -
  obtain s where "demo_signed = CHR ''['' # s @ '']''" using demo_signed_shape by blast
  moreover have "trim (CHR ''['' # s @ '']'') = CHR ''['' # s @ '']''"
    by (rule trim_solid) (simp_all add: js_space_def)
  ultimately show ?thesis by (simp only:)
qed

lemma bearer_demo: "header ''authorization'' req = Some (''Bearer '' @ demo_signed) \<Longrightarrow> bearer req = Some demo_signed"
  using startsWith_append [of "''Bearer ''" demo_signed] trim_demo_signed by (simp add: bearer_def)

definition demo_keys :: signing_keys where
  "demo_keys = \<lparr>sk_kid = ''k1'', sk_privateKey = KeyLike ''priv'', sk_publicKey = KeyLike ''pub'',
     sk_previousKid = Some ''k0'', sk_previousPublicKey = Some (KeyLike ''old'')\<rparr>"

definition demo_bearer_claims :: claims where
  "demo_bearer_claims = access_claims demo demo_subject ''j1'' 1"

lemma demo_signed_verifies:
  "jwtVerify demo demo_signed (buildJwksDocument demo demo_keys) (verify_opts demo) 1 = Inr demo_bearer_claims"
proof -
  have "list_ex (\<lambda>j. jwk_kid j = ''k1'') (buildJwksDocument demo demo_keys)"
    by (simp add: buildJwksDocument_def jwk_of_def demo_keys_def)
  then have "demo_verify demo_signed (buildJwksDocument demo demo_keys) (verify_opts demo) 1
      = demo_check demo_bearer_claims (verify_opts demo) 1"
    unfolding demo_signed_def demo_bearer_claims_def by (subst demo_verify_sign) simp_all
  then show ?thesis
    by (simp add: demo_def demo_check_def demo_bearer_claims_def access_claims_def verify_opts_def demo_subject_def
        demo_env_def)
qed

text \<open>In a fresh process, at second 1, with nothing in Redis, the token is accepted.\<close>

definition demo_fresh :: "mem_redis world \<Rightarrow> bool" where
  "demo_fresh w \<longleftrightarrow> cachedKeys w = None \<and> cachedJwksDocument w = None \<and> cachedVerifyKeySet w = None \<and>
     redis w = redis0 \<and> clock w = 1000 \<and> lag w = (\<lambda>_. 0) \<and> pg_fate w = (\<lambda>_. Served) \<and> log_lines w = []"

lemma demo_accepts:
  assumes "demo_fresh w"
  shows "\<exists>w1. verifyAccessToken demo demo_signed w = (Inr (Inr demo_bearer_claims), w1) \<and>
    redis w1 = redis0 \<and> clock w1 = 1000 \<and> lag w1 = (\<lambda>_. 0) \<and> pg_fate w1 = (\<lambda>_. Served) \<and>
    users w1 = users w \<and> audit_log w1 = audit_log w \<and> refresh_tokens w1 = refresh_tokens w \<and> log_lines w1 = []"
proof -
  obtain w1 where k: "getVerifyKeySet demo w = (Inr (buildJwksDocument demo demo_keys), w1)"
    and w1: "redis w1 = redis0" "clock w1 = 1000" "lag w1 = (\<lambda>_. 0)" "pg_fate w1 = (\<lambda>_. Served)"
      "users w1 = users w" "audit_log w1 = audit_log w" "refresh_tokens w1 = refresh_tokens w" "log_lines w1 = []"
    using assms by (simp add: demo_fresh_def getVerifyKeySet_def getJwksDocument_def await_run
        loadSigningKeys_run demo_load demo_keys_def)
  then show ?thesis
    by (simp add: verifyAccessToken_def await_run now_run demo_signed_verifies isTokenRevoked_def
        redis_call_def Let_def mem_exec_def mem_view_def redis0_def tick_def ok_def)
qed

definition demo_auth_request :: request where
  "demo_auth_request = demo_request\<lparr>rq_headers :=
     [(''authorization'', ''Bearer '' @ demo_signed), (''x-user-id'', ''admin'')]\<rparr>"

lemma bearer_demo_auth [simp]:
  "rq_headers req = (''authorization'', ''Bearer '' @ demo_signed) # hs \<Longrightarrow> bearer req = Some demo_signed"
  by (rule bearer_demo) (simp add: header_def)

lemma demo_fresh0: "demo_fresh world0"
  by (simp add: demo_fresh_def)

lemma validateAccessToken_sound_witness:
  "\<exists>w'. validateAccessToken demo False demo_auth_request response0 world0 =
      (Inr (Continue (demo_auth_request\<lparr>rq_auth := Some demo_bearer_claims\<rparr>) response0), w') \<and>
    verified mem_view demo demo_signed demo_bearer_claims world0"
proof -
  have b: "bearer demo_auth_request = Some demo_signed" by (simp add: demo_auth_request_def)
  obtain w1 where "verifyAccessToken demo demo_signed world0 = (Inr (Inr demo_bearer_claims), w1)"
    using demo_accepts [OF demo_fresh0] by blast
  then have run: "validateAccessToken demo False demo_auth_request response0 world0 =
      (Inr (Continue (demo_auth_request\<lparr>rq_auth := Some demo_bearer_claims\<rparr>) response0), w1)"
    by (simp add: validateAccessToken_run b)
  have "rq_auth demo_auth_request = None" by (simp add: demo_auth_request_def demo_request_def)
  then have "c = demo_bearer_claims" if "demo_auth_request\<lparr>rq_auth := Some demo_bearer_claims\<rparr> = demo_auth_request\<lparr>rq_auth := Some c\<rparr>" for c
    using arg_cong [OF that, of rq_auth] by simp
  with validateAccessToken_sound [OF mem_server run] run b show ?thesis by auto
qed

section \<open>Refusals of the rate limiter\<close>

lemma le_div_iff: "0 < m \<Longrightarrow> k \<le> x div m \<longleftrightarrow> k * m \<le> x" for k x m :: int
proof
  assume m: "0 < m"
  { assume "k \<le> x div m"
    then have "k * m \<le> x div m * m" using m by simp
    then show "k * m \<le> x" using div_mult_mod_eq [of x m] pos_mod_sign [OF m, of x] by linarith }
  assume "k * m \<le> x"
  then have "k * m div m \<le> x div m" using m by (rule zdiv_mono1)
  then show "k \<le> x div m" using m by simp
qed

lemma ceil_div_least_iff: "0 < b \<Longrightarrow> ceil_div a b \<le> n \<longleftrightarrow> a \<le> n * b"
proof -
  assume b: "0 < b"
  have "ceil_div a b \<le> n \<longleftrightarrow> - n \<le> - a div b" by (auto simp: ceil_div_def)
  also have "\<dots> \<longleftrightarrow> a \<le> n * b" unfolding le_div_iff [OF b] by simp
  finally show ?thesis .
qed

lemma max_gt: "1 < max 1 a \<Longrightarrow> max 1 a = a" for a :: int
  by (simp add: max_def split: if_splits)

lemma rateLimiter_refused:
  assumes "rateLimiter P o1 req res w = (Inr (Fail e req' res'), w')"
  shows "e = too_many_requests_default \<and> req' = req \<and>
    response_header ''Retry-After'' res' = Some (show_int (max 1 (ceil_div
      ((clock w div window_ms P o1 + 1) * window_ms P o1 - clock w') 1000))) \<and>
    response_header ''X-RateLimit-Remaining'' res' = Some (show_int 0)"
proof -
  obtain r w1 where cnt: "count_request P (rate_key o1 req (clock w div window_ms P o1)) (window_ms P o1) w = (r, w1)"
    by fastforce
  then show ?thesis using assms
    by (cases r) (auto simp: rateLimiter_def await_run now_run Let_def try_catch_def log_run max_def split: if_splits)
qed

text \<open>
  A refused request is told to come back after a number of seconds, at least one, after which
  the window is over and its counter no longer counts; unless it is one, no smaller number of
  seconds would do.
\<close>

theorem rateLimiter_retry_after:
  assumes "0 < window_ms P o1" and "rateLimiter P o1 req res w = (Inr (Fail e req' res'), w')"
  shows "\<exists>s. response_header ''Retry-After'' res' = Some (show_int s) \<and> 1 \<le> s \<and>
    (\<forall>t. clock w' + 1000 * s \<le> t \<longrightarrow> clock w div window_ms P o1 < t div window_ms P o1) \<and>
    (1 < s \<longrightarrow> (clock w' + 1000 * (s - 1)) div window_ms P o1 \<le> clock w div window_ms P o1)"
proof -
  let ?m = "window_ms P o1" and ?W = "clock w div window_ms P o1"
  let ?left = "(?W + 1) * ?m - clock w'"
  define s where "s = max 1 (ceil_div ?left 1000)"
  have h: "response_header ''Retry-After'' res' = Some (show_int s)"
    unfolding s_def using rateLimiter_refused [OF assms(2)] by blast
  have after: "?W < t div ?m" if "clock w' + 1000 * s \<le> t" for t
  proof -
    have "ceil_div ?left 1000 \<le> s" by (simp add: s_def)
    then have "?left \<le> s * 1000" using ceil_div_least_iff [of 1000 ?left s] by linarith
    then have "(?W + 1) * ?m \<le> t" using that by linarith
    then have "?W + 1 \<le> t div ?m" unfolding le_div_iff [OF assms(1)] .
    then show ?thesis by linarith
  qed
  have least: "(clock w' + 1000 * (s - 1)) div ?m \<le> ?W" if "1 < s"
  proof -
    have "s = ceil_div ?left 1000" using that unfolding s_def by (rule max_gt)
    then have "\<not> ?left \<le> (s - 1) * 1000" using ceil_div_least_iff [of 1000 ?left "s - 1"] by linarith
    then have "\<not> (?W + 1) * ?m \<le> clock w' + 1000 * (s - 1)" by linarith
    then have "\<not> ?W + 1 \<le> (clock w' + 1000 * (s - 1)) div ?m" unfolding le_div_iff [OF assms(1)] .
    then show ?thesis by linarith
  qed
  show ?thesis using h after least by (intro exI [of _ s]) (auto simp: s_def)
qed

lemma rateLimiter_retry_after_witness:
  "\<exists>res' w'. rateLimiter demo demo_limits demo_request response0 world0 =
      (Inr (Fail too_many_requests_default demo_request res'), w') \<and>
    (\<exists>s. response_header ''Retry-After'' res' = Some (show_int s) \<and> 1 \<le> s)"
proof -
  have m: "window_ms demo demo_limits = 60000" by (simp add: window_ms_def demo_limits_def demo_env_def)
  obtain res' w' where run: "rateLimiter demo demo_limits demo_request response0 world0 =
      (Inr (Fail too_many_requests_default demo_request res'), w')"
    by (simp add: rateLimiter_def await_run now_run Let_def try_catch_def count_request_def redis_call_def
        mem_exec_def redis0_def mem_view_def mem_put_def tick_def demo_limits_def max_requests_def)
  have "0 < window_ms demo demo_limits" by (simp add: m)
  from rateLimiter_retry_after [OF this run] run show ?thesis by blast
qed

section \<open>Errors\<close>

lemma errorHandler_total: "\<exists>r w'. errorHandler e req res w = (Inr r, w')"
  by (cases e) (simp_all add: errorHandler_def await_run log_run)

text \<open>
  The error handler answers every error that is not an \<open>AppError\<close> (of the database, Redis,
  the crypto library, the runtime) with status 500 and a body that depends on the request id only,
  and writes the error's own text to the log at level error.
\<close>

theorem errorHandler_opaque:
  assumes "\<nexists>a. e = AppExn a"
  shows "fst (errorHandler e req res w) = Inr (res\<lparr>rs_status := 500, rs_body := Some (JObj
      [(''error'', JStr ''internal_server_error''),
       (''error_description'', JStr ''An unexpected error occurred. Please try again later.''),
       (''request_id'', JStr (rq_requestId req))])\<rparr>) \<and>
    (\<exists>meta. log_lines (snd (errorHandler e req res w)) =
      log_lines w @ [\<lparr>ll_level = LogError, ll_message = ''Unhandled error'', ll_meta = meta\<rparr>] \<and>
      (''err'', exn_text e) \<in> set meta)"
  using assms by (cases e) (auto simp: errorHandler_def await_run log_run send_json_def error_body_def)

lemma errorHandler_opaque_witness:
  "fst (errorHandler (PgExn ''connection refused at 10.0.0.7:5432'') demo_request response0 world0) =
    Inr (response0\<lparr>rs_status := 500, rs_body := Some (JObj
      [(''error'', JStr ''internal_server_error''),
       (''error_description'', JStr ''An unexpected error occurred. Please try again later.''),
       (''request_id'', JStr ''r1'')])\<rparr>)"
  using errorHandler_opaque [of "PgExn ''connection refused at 10.0.0.7:5432''" demo_request response0 world0]
  by (simp add: demo_request_def)

end
