(* ===== verification/ProxyProofs.thy ===== *)
theory ProxyProofs
  imports Proxy Guards
begin

text \<open>
  What the proxy guarantees: who gets through to an upstream and with which identity headers, that
  every denial is audited, what path is forwarded, and how the promise of a dispatch settles.
\<close>

section \<open>Route resolution\<close>

definition first_match :: "'r platform \<Rightarrow> string \<Rightarrow> resolved_route \<Rightarrow> route_config list \<Rightarrow> bool" where
  "first_match P path rv routes \<longleftrightarrow> (\<exists>before route after. routes = before @ route # after \<and>
     (\<forall>r \<in> set before. pathMatch P (rc_path r) path = Inr False) \<and> pathMatch P (rc_path route) path = Inr True \<and>
     rv = \<lparr>rv_route = route, rv_forwardPath = forward_path route path\<rparr>)"

lemma first_match_Nil: "\<not> first_match P path rv []"
  by (simp add: first_match_def)

lemma first_match_Cons:
  "first_match P path rv (r # routes) \<longleftrightarrow>
     pathMatch P (rc_path r) path = Inr True \<and> rv = \<lparr>rv_route = r, rv_forwardPath = forward_path r path\<rparr> \<or>
     pathMatch P (rc_path r) path = Inr False \<and> first_match P path rv routes"
proof
  assume "first_match P path rv (r # routes)"
  then obtain before route after where "r # routes = before @ route # after"
    "\<forall>r \<in> set before. pathMatch P (rc_path r) path = Inr False" "pathMatch P (rc_path route) path = Inr True"
    "rv = \<lparr>rv_route = route, rv_forwardPath = forward_path route path\<rparr>" unfolding first_match_def by blast
  then show "pathMatch P (rc_path r) path = Inr True \<and> rv = \<lparr>rv_route = r, rv_forwardPath = forward_path r path\<rparr> \<or>
     pathMatch P (rc_path r) path = Inr False \<and> first_match P path rv routes"
    unfolding first_match_def by (cases before) auto
next
  assume "pathMatch P (rc_path r) path = Inr True \<and> rv = \<lparr>rv_route = r, rv_forwardPath = forward_path r path\<rparr> \<or>
     pathMatch P (rc_path r) path = Inr False \<and> first_match P path rv routes"
  then show "first_match P path rv (r # routes)"
  proof (elim disjE conjE)
    assume "pathMatch P (rc_path r) path = Inr True" "rv = \<lparr>rv_route = r, rv_forwardPath = forward_path r path\<rparr>"
    then show ?thesis unfolding first_match_def by (intro exI [of _ "[]"]) simp
  next
    assume f: "pathMatch P (rc_path r) path = Inr False" and "first_match P path rv routes"
    then obtain before route after where "routes = before @ route # after"
      "\<forall>r \<in> set before. pathMatch P (rc_path r) path = Inr False" "pathMatch P (rc_path route) path = Inr True"
      "rv = \<lparr>rv_route = route, rv_forwardPath = forward_path route path\<rparr>" unfolding first_match_def by blast
    then show ?thesis unfolding first_match_def using f by (intro exI [of _ "r # before"]) simp
  qed
qed

lemma resolveRoute_first_match:
  "resolveRoute P path routes = Inr (Some rv) \<longleftrightarrow> first_match P path rv routes"
proof (induction routes)
  case (Cons r routes)
  show ?case
  proof (cases "pathMatch P (rc_path r) path")
    case (Inr b)
    then show ?thesis using Cons.IH by (cases b) (auto simp: first_match_Cons)
  qed (simp add: first_match_Cons)
qed (simp add: first_match_Nil)

text \<open>
  The loop over the routes is the search for the first route, in the order of the configuration,
  whose matcher does not answer no: when there is none, nothing is resolved; when that matcher throws, so
  does the resolution; otherwise it is the route, with the path it forwards.
\<close>

theorem resolveRoute_first:
  "resolveRoute P path routes = (case find (\<lambda>r. pathMatch P (rc_path r) path \<noteq> Inr False) routes of
       None \<Rightarrow> Inr None
     | Some r \<Rightarrow> (case pathMatch P (rc_path r) path of
         Inl m \<Rightarrow> Inl (JsError m)
       | Inr _ \<Rightarrow> Inr (Some \<lparr>rv_route = r, rv_forwardPath = forward_path r path\<rparr>)))"
proof (induction routes)
  case (Cons r routes)
  then show ?case by (cases "pathMatch P (rc_path r) path") (auto split: bool.split)
qed simp

section \<open>Headers\<close>

lemma map_of_without: "map_of (filter (\<lambda>(n, _). n \<noteq> k) hs) n = (if n = k then None else map_of hs n)"
  by (induction hs) auto

lemma map_of_without_all:
  "map_of (fold (\<lambda>k. filter (\<lambda>(n, _). n \<noteq> k)) ks hs) n = (if n \<in> set ks then None else map_of hs n)"
  by (induction ks arbitrary: hs) (simp_all add: map_of_without)

lemma strip_lookup:
  "map_of (stripSpoofedHeaders hs) n = (if n \<in> set SPOOFABLE_IDENTITY_HEADERS then None else map_of hs n)"
  unfolding stripSpoofedHeaders_def by (rule map_of_without_all)

lemma assign_header_lookup: "map_of (assign_header nv hs) n = (if n = fst nv then Some (snd nv) else map_of hs n)"
  by (cases nv) (simp add: assign_header_def map_of_without)

lemma assign_headers_lookup:
  "distinct (map fst vs) \<Longrightarrow> map_of (assign_headers hs vs) n =
     (case map_of vs n of Some v \<Rightarrow> Some v | None \<Rightarrow> map_of hs n)"
proof (induction vs arbitrary: hs)
  case (Cons nv vs)
  then have "fst nv \<notin> fst ` set vs" by simp
  then have "map_of vs (fst nv) = None" by (simp add: map_of_eq_None_iff)
  then show ?case using Cons
    by (cases nv) (auto simp: assign_headers_def assign_header_lookup split: option.split)
qed (simp add: assign_headers_def)

lemma identity_lookup:
  "map_of (buildIdentityHeaders c i) ''x-user-id'' = Some (cl_sub c)"
  "map_of (buildIdentityHeaders c i) ''x-user-email'' = Some (cl_email c)"
  "map_of (buildIdentityHeaders c i) ''x-user-roles'' = Some (join '','' (cl_roles c))"
  "map_of (buildIdentityHeaders c i) ''x-auth-method'' = Some (auth_method_string (cl_auth_method c))"
  "map_of (buildIdentityHeaders c i) ''x-request-id'' = Some i"
  "map_of (buildIdentityHeaders c i) ''x-tenant-id'' = (if truthy (cl_tenant_id c) then cl_tenant_id c else None)"
  by (simp_all add: buildIdentityHeaders_def truthy_def split: option.split)

lemma identity_names:
  "n \<notin> set (''x-request-id'' # SPOOFABLE_IDENTITY_HEADERS) \<Longrightarrow> map_of (buildIdentityHeaders c i) n = None"
  by (simp add: buildIdentityHeaders_def SPOOFABLE_IDENTITY_HEADERS_def)

lemma spoofable_names: "''x-tenant-id'' \<in> set SPOOFABLE_IDENTITY_HEADERS" "''x-request-id'' \<notin> set SPOOFABLE_IDENTITY_HEADERS"
  by (simp_all add: SPOOFABLE_IDENTITY_HEADERS_def)

lemma identity_distinct: "distinct (map fst (buildIdentityHeaders c i))"
  by (simp add: buildIdentityHeaders_def)

lemma bearer_strip: "bearer (req\<lparr>rq_headers := stripSpoofedHeaders (rq_headers req)\<rparr>) = bearer req"
  by (simp add: bearer_def header_def strip_lookup SPOOFABLE_IDENTITY_HEADERS_def)

section \<open>What is forwarded\<close>

lemma enforce_passes:
  assumes "enforceAuthorization P route c req res w = (Inr (None, res'), w')"
  shows "has_allowed_role route c \<and> has_scope route c \<and> runRateLimiter P route req res w = (Inr (None, res'), w')"
  using assms by (auto simp: enforceAuthorization_def Let_def elim!: await_InrE split: if_splits option.splits)

text \<open>The steps of an admission that ends in a dispatch.\<close>

lemma admit_Forward:
  assumes "admit P routes req res w = (Inr (Forward route fp out res'), w')"
  obtains req2 w1 where "resolveRoute P (resourcePath req) routes = Inr (Some \<lparr>rv_route = route, rv_forwardPath = fp\<rparr>)"
    and "validateAccessToken P (\<not> rc_auth_required route)
      (req\<lparr>rq_headers := stripSpoofedHeaders (rq_headers req)\<rparr>) res w = (Inr (Continue req2 res), w1)"
    and "enforceAuthorization P route (rq_auth req2) req2 res w1 = (Inr (None, res'), w')"
    and "out = attach_identity req2"
proof (cases "resolveRoute P (resourcePath req) routes")
  case (Inl e)
  with assms show thesis by (simp add: admit_def Let_def)
next
  case (Inr found)
  show thesis
  proof (cases found)
    case None
    with Inr assms show thesis by (simp add: admit_def Let_def)
  next
    case (Some rv)
    let ?req1 = "req\<lparr>rq_headers := stripSpoofedHeaders (rq_headers req)\<rparr>"
    have "await (validateAccessToken P (\<not> rc_auth_required (rv_route rv)) ?req1 res)
        (after_token P (rv_route rv) (rv_forwardPath rv)) w = (Inr (Forward route fp out res'), w')"
      using assms by (simp add: admit_def Let_def Inr Some)
    then obtain st w1 where v: "validateAccessToken P (\<not> rc_auth_required (rv_route rv)) ?req1 res w = (Inr st, w1)"
      and rest: "after_token P (rv_route rv) (rv_forwardPath rv) st w1 = (Inr (Forward route fp out res'), w')"
      by (rule await_InrE)
    then obtain req2 res2 where st: "st = Continue req2 res2"
      by (cases st) (auto simp: after_token_def elim!: await_InrE)
    have res2: "res2 = res" using v st
      by (auto simp: validateAccessToken_run elim!: await_InrE split: option.splits if_splits sum.splits)
    obtain d where en: "enforceAuthorization P (rv_route rv) (rq_auth req2) req2 res2 w1 = (Inr d, w')"
      and d: "d = (None, res')" "rv_route rv = route" "rv_forwardPath rv = fp" "out = attach_identity req2"
      using rest by (auto simp: after_token_def st elim!: await_InrE split: option.splits)
    have "rv = \<lparr>rv_route = route, rv_forwardPath = fp\<rparr>" using d(2,3) by (cases rv) simp
    with that [of req2 w1] v st res2 en d Inr Some show thesis by simp
  qed
qed

text \<open>
  C9. No client can choose its identity towards an upstream: whatever headers it sent, the identity
  headers of a forwarded request are those of the claims attached to it, and without claims there
  are none; every other header is what the client sent.
\<close>

theorem forwarded_identity:
  assumes "redis_server (redisExec P) view"
    and "admit P routes req res w = (Inr (Forward route fp out res'), w')"
  shows "(case rq_auth out of
      None \<Rightarrow> (\<forall>n \<in> set SPOOFABLE_IDENTITY_HEADERS. header n out = None) \<and> header ''x-request-id'' out = header ''x-request-id'' req
    | Some c \<Rightarrow> header ''x-user-id'' out = Some (cl_sub c) \<and> header ''x-user-email'' out = Some (cl_email c) \<and>
        header ''x-user-roles'' out = Some (join '','' (cl_roles c)) \<and>
        header ''x-auth-method'' out = Some (auth_method_string (cl_auth_method c)) \<and>
        header ''x-tenant-id'' out = (if truthy (cl_tenant_id c) then cl_tenant_id c else None) \<and>
        header ''x-request-id'' out = Some (rq_requestId req)) \<and>
    (\<forall>n. n \<notin> set (''x-request-id'' # SPOOFABLE_IDENTITY_HEADERS) \<longrightarrow> header n out = header n req)"
proof -
  obtain req2 w1 where v: "validateAccessToken P (\<not> rc_auth_required route)
      (req\<lparr>rq_headers := stripSpoofedHeaders (rq_headers req)\<rparr>) res w = (Inr (Continue req2 res), w1)"
    and out: "out = attach_identity req2"
    by (rule admit_Forward [OF assms(2)])
  have req2: "rq_headers req2 = stripSpoofedHeaders (rq_headers req)" "rq_requestId req2 = rq_requestId req"
    using validated [OF assms(1) v] by (auto split: option.splits)
  show ?thesis
  proof (cases "rq_auth req2")
    case None
    then show ?thesis
      using spoofable_names by (simp add: out attach_identity_def header_def req2 strip_lookup)
  next
    case (Some c)
    then have hd: "header n out = (case map_of (buildIdentityHeaders c (rq_requestId req)) n of Some x \<Rightarrow> Some x
        | None \<Rightarrow> if n \<in> set SPOOFABLE_IDENTITY_HEADERS then None else header n req)" for n
      by (simp add: out attach_identity_def header_def req2 assign_headers_lookup [OF identity_distinct] strip_lookup split: option.split)
    have "rq_auth out = Some c" using Some by (simp add: out attach_identity_def)
    moreover have "header n out = header n req" if "n \<notin> set (''x-request-id'' # SPOOFABLE_IDENTITY_HEADERS)" for n
      using identity_names [OF that] that by (simp add: hd)
    ultimately show ?thesis using spoofable_names
      by (simp add: hd identity_lookup truthy_def split: option.split)
  qed
qed

lemma forward_checks:
  assumes "redis_server (redisExec P) view" and "rq_auth req = None"
    and "admit P routes req res w = (Inr (Forward route fp out res'), w')"
  shows "resolveRoute P (resourcePath req) routes = Inr (Some \<lparr>rv_route = route, rv_forwardPath = fp\<rparr>) \<and>
    (case rq_auth out of None \<Rightarrow> \<not> rc_auth_required route \<and> bearer req = None
     | Some c \<Rightarrow> \<exists>token. bearer req = Some token \<and> verified view P token c w) \<and>
    (\<forall>allowed. rc_allowed_roles route = Some allowed \<longrightarrow> allowed \<noteq> [] \<longrightarrow>
       (\<exists>c. rq_auth out = Some c \<and> set (cl_roles c) \<inter> set allowed \<noteq> {})) \<and>
    (\<forall>scope. rc_required_scope route = Some scope \<longrightarrow> scope \<noteq> [] \<longrightarrow>
       (\<exists>c. rq_auth out = Some c \<and> scope \<in> set (split_on (CHR '' '') (cl_scope c)))) \<and>
    (\<exists>req2 w1. runRateLimiter P route req2 res w1 = (Inr (None, res'), w'))"
proof -
  obtain req2 w1 where rv: "resolveRoute P (resourcePath req) routes = Inr (Some \<lparr>rv_route = route, rv_forwardPath = fp\<rparr>)"
    and v: "validateAccessToken P (\<not> rc_auth_required route)
      (req\<lparr>rq_headers := stripSpoofedHeaders (rq_headers req)\<rparr>) res w = (Inr (Continue req2 res), w1)"
    and en: "enforceAuthorization P route (rq_auth req2) req2 res w1 = (Inr (None, res'), w')"
    and out: "out = attach_identity req2"
    by (rule admit_Forward [OF assms(3)])
  have auth: "rq_auth out = rq_auth req2" by (simp add: out attach_identity_def split: option.split)
  have "case rq_auth req2 of None \<Rightarrow> \<not> rc_auth_required route \<and> bearer req = None
     | Some c \<Rightarrow> \<exists>token. bearer req = Some token \<and> verified view P token c w"
    using validated [OF assms(1) v] assms(2) by (auto simp: bearer_strip split: option.splits)
  moreover have "\<forall>allowed. rc_allowed_roles route = Some allowed \<longrightarrow> allowed \<noteq> [] \<longrightarrow>
       (\<exists>c. rq_auth req2 = Some c \<and> set (cl_roles c) \<inter> set allowed \<noteq> {})"
    using enforce_passes [OF en]
    by (auto simp: has_allowed_role_def list_ex_iff split: option.splits)
  moreover have "\<forall>scope. rc_required_scope route = Some scope \<longrightarrow> scope \<noteq> [] \<longrightarrow>
       (\<exists>c. rq_auth req2 = Some c \<and> scope \<in> set (split_on (CHR '' '') (cl_scope c)))"
    using enforce_passes [OF en] by (auto simp: has_scope_def split: option.splits)
  ultimately show ?thesis using rv enforce_passes [OF en] unfolding auth by blast
qed

text \<open>
  C8. Nothing reaches an upstream unauthorized: a forwarded request matched the route it is
  forwarded to; it carries either the claims of the bearer token it presented, accepted by jose and
  not listed as revoked, or none, and then it presented no bearer token and the route requires no
  authentication; its claims hold one of the route's roles and its scope, where the route names
  any; and the limiter of the route passed it.
\<close>

theorem forwarded_authorized:
  assumes "redis_server (redisExec P) view" and "rq_auth req = None"
    and "admit P routes req res w = (Inr (Forward route fp out res'), w')"
  shows "resolveRoute P (resourcePath req) routes = Inr (Some \<lparr>rv_route = route, rv_forwardPath = fp\<rparr>) \<and>
    (case rq_auth out of None \<Rightarrow> \<not> rc_auth_required route \<and> bearer req = None
     | Some c \<Rightarrow> \<exists>token. bearer req = Some token \<and> verified view P token c w) \<and>
    (\<forall>allowed. rc_allowed_roles route = Some allowed \<longrightarrow> allowed \<noteq> [] \<longrightarrow>
       (\<exists>c. rq_auth out = Some c \<and> set (cl_roles c) \<inter> set allowed \<noteq> {})) \<and>
    (\<forall>scope. rc_required_scope route = Some scope \<longrightarrow> scope \<noteq> [] \<longrightarrow>
       (\<exists>c. rq_auth out = Some c \<and> scope \<in> set (split_on (CHR '' '') (cl_scope c)))) \<and>
    (\<exists>req2 w1. runRateLimiter P route req2 res w1 = (Inr (None, res'), w'))"
  by (rule forward_checks [OF assms])

section \<open>A request that is forwarded\<close>

definition demo_route :: route_config where
  "demo_route = \<lparr>rc_path = ''/api/x'', rc_upstream = ''http://10.0.0.7:8080'', rc_auth_required = True,
     rc_required_scope = Some ''read'', rc_allowed_roles = Some [''user''], rc_rate_limit_override = Some 5,
     rc_strip_prefix = False, rc_timeout_ms = 30000, rc_audit_allowed_requests = True\<rparr>"

lemma demo_resource: "resourcePath demo_auth_request = ''/api/x''" "rq_originalUrl demo_auth_request = ''/api/x?a=1''"
  "rq_auth demo_auth_request = None"
  by (simp_all add: resourcePath_def demo_auth_request_def demo_request_def)

lemma demo_resolve: "resolveRoute demo ''/api/x'' [demo_route] = Inr (Some \<lparr>rv_route = demo_route, rv_forwardPath = ''/api/x''\<rparr>)"
  by (simp add: demo_def demo_route_def forward_path_def)

lemma demo_claims_simps: "cl_roles demo_bearer_claims = [''user'']" "cl_scope demo_bearer_claims = ''read''"
  by (simp_all add: demo_bearer_claims_def access_claims_def demo_subject_def)

lemma demo_validated:
  assumes "demo_fresh w" and "bearer req = Some demo_signed"
  shows "\<exists>w1. validateAccessToken demo b (req\<lparr>rq_headers := stripSpoofedHeaders (rq_headers req)\<rparr>) res w =
      (Inr (Continue (req\<lparr>rq_headers := stripSpoofedHeaders (rq_headers req), rq_auth := Some demo_bearer_claims\<rparr>) res), w1) \<and>
    redis w1 = redis0 \<and> clock w1 = 1000 \<and> lag w1 = (\<lambda>_. 0)"
  using demo_accepts [OF assms(1)] assms(2) by (auto simp: validateAccessToken_run bearer_strip)

lemma demo_rate:
  assumes "redis w = redis0" and "clock w = 1000" and "lag w = (\<lambda>_. 0)"
  shows "\<exists>res' w'. runRateLimiter demo demo_route req res w = (Inr (None, res'), w')"
  using assms
  by (simp add: runRateLimiter_def rateLimiter_def await_run now_run Let_def try_catch_def count_request_def
      redis_call_def mem_exec_def redis0_def mem_view_def mem_put_def tick_def route_limits_def demo_route_def
      max_requests_def)

lemma demo_admit_any:
  assumes "demo_fresh w" and "bearer req = Some demo_signed" and "resourcePath req = ''/api/x''"
  shows "\<exists>out res' w'. admit demo [demo_route] req res w = (Inr (Forward demo_route ''/api/x'' out res'), w') \<and>
    rq_auth out = Some demo_bearer_claims"
proof -
  let ?req2 = "req\<lparr>rq_headers := stripSpoofedHeaders (rq_headers req), rq_auth := Some demo_bearer_claims\<rparr>"
  obtain w1 where v: "validateAccessToken demo False (req\<lparr>rq_headers := stripSpoofedHeaders (rq_headers req)\<rparr>)
      res w = (Inr (Continue ?req2 res), w1)"
    and w1: "redis w1 = redis0" "clock w1 = 1000" "lag w1 = (\<lambda>_. 0)" using demo_validated [OF assms(1,2)] by blast
  obtain res' w' where rl: "runRateLimiter demo demo_route ?req2 res w1 = (Inr (None, res'), w')"
    using demo_rate [OF w1] by blast
  have "has_allowed_role demo_route (Some demo_bearer_claims)" "has_scope demo_route (Some demo_bearer_claims)"
    by (simp_all add: has_allowed_role_def has_scope_def demo_route_def demo_claims_simps)
  then have en: "enforceAuthorization demo demo_route (Some demo_bearer_claims) ?req2 res w1 = (Inr (None, res'), w')"
    using rl by (simp add: enforceAuthorization_def)
  have au: "rc_auth_required demo_route" by (simp add: demo_route_def)
  show ?thesis
    using v en by (simp add: admit_def Let_def after_token_def assms(3) demo_resolve au attach_identity_def del: resolveRoute.simps)
qed

lemma demo_admit:
  "\<exists>out res' w'. admit demo [demo_route] demo_auth_request response0 world0 =
     (Inr (Forward demo_route ''/api/x'' out res'), w') \<and> rq_auth out = Some demo_bearer_claims"
  by (rule demo_admit_any [OF demo_fresh0 _ demo_resource(1)]) (simp add: demo_auth_request_def)

lemma forwarded_identity_witness:
  "\<exists>out res' w'. admit demo [demo_route] demo_auth_request response0 world0 = (Inr (Forward demo_route ''/api/x'' out res'), w') \<and>
    header ''x-user-id'' demo_auth_request = Some ''admin'' \<and> header ''x-user-id'' out = Some (cl_sub demo_bearer_claims)"
proof -
  obtain out res' w' where run: "admit demo [demo_route] demo_auth_request response0 world0 =
     (Inr (Forward demo_route ''/api/x'' out res'), w')" and au: "rq_auth out = Some demo_bearer_claims"
    using demo_admit by blast
  have "header ''x-user-id'' demo_auth_request = Some ''admin''" by (simp add: demo_auth_request_def header_def)
  with forwarded_identity [OF mem_server run] run au show ?thesis by simp
qed

lemma forwarded_authorized_witness:
  "\<exists>out res' w'. admit demo [demo_route] demo_auth_request response0 world0 = (Inr (Forward demo_route ''/api/x'' out res'), w') \<and>
    rq_auth out = Some demo_bearer_claims \<and> (\<exists>token. bearer demo_auth_request = Some token \<and> verified mem_view demo token demo_bearer_claims world0)"
proof -
  obtain out res' w' where run: "admit demo [demo_route] demo_auth_request response0 world0 =
     (Inr (Forward demo_route ''/api/x'' out res'), w')" and au: "rq_auth out = Some demo_bearer_claims"
    using demo_admit by blast
  from forwarded_authorized [OF mem_server demo_resource(3) run] run au show ?thesis by simp
qed

section \<open>Denials\<close>

definition audit_failed_line :: "log_line \<Rightarrow> bool" where
  "audit_failed_line ln \<longleftrightarrow> ll_level ln = LogError \<and> ll_message ln = ''Failed to write audit log entry''"

text \<open>\<open>entry\<close> is the last row of the audit log, after those of \<open>w\<close>, or its failure is the last log line.\<close>

definition recorded :: "audit_entry \<Rightarrow> 'r world \<Rightarrow> 'r world \<Rightarrow> bool" where
  "recorded entry w w' \<longleftrightarrow> (\<exists>i t. audit_log w' = audit_log w @ [audit_row_of entry i t]) \<or>
     (log_lines w' \<noteq> [] \<and> audit_failed_line (last (log_lines w')))"

lemma writeAudit_recorded: "writeAuditEvent entry w = (r, w') \<Longrightarrow> recorded entry w w'"
proof (cases "insert_audit entry w")
  case (Pair q w1)
  assume run: "writeAuditEvent entry w = (r, w')"
  show ?thesis
  proof (cases q)
    case (Inl e)
    with Pair run show ?thesis by (auto simp: writeAuditEvent_def log_run recorded_def audit_failed_line_def)
  next
    case (Inr u)
    with Pair run insert_audit_log(3) [OF Pair] show ?thesis
      by (auto simp: writeAuditEvent_def recorded_def audited_def)
  qed
qed

lemma recorded_from: "recorded entry w1 w' \<Longrightarrow> audit_log w1 = audit_log w \<Longrightarrow> recorded entry w w'"
  by (simp add: recorded_def)

lemma keeps_count_request [io_rules]:
  assumes "\<And>w. g (tick w) = g w" and "\<And>w r. g (w\<lparr>redis := r\<rparr>) = g w"
  shows "keeps g (count_request P k m)"
  unfolding count_request_def by (intro io_rules keeps_reply assms)

lemma keeps_rateLimiter [io_rules]:
  assumes "\<And>w. g (tick w) = g w" and "\<And>w r. g (w\<lparr>redis := r\<rparr>) = g w" and "\<And>w l. g (w\<lparr>log_lines := l\<rparr>) = g w"
  shows "keeps g (rateLimiter P o1 req res)"
  unfolding rateLimiter_def Let_def by (intro io_rules assms)

lemma keeps_isTokenRevoked [io_rules]:
  assumes "\<And>w. g (tick w) = g w" and "\<And>w r. g (w\<lparr>redis := r\<rparr>) = g w"
  shows "keeps g (isTokenRevoked P j)"
  unfolding isTokenRevoked_def by (intro io_rules assms)

lemma keeps_jose_case [io_rules]:
  "keeps g a \<Longrightarrow> (\<And>m. keeps g (b m)) \<Longrightarrow> keeps g (case e of JWTExpired \<Rightarrow> a | JoseError m \<Rightarrow> b m)"
  by (cases e) simp_all

lemma keeps_verifyAccessToken [io_rules]:
  assumes "keys_frame g" and "\<And>w. g (tick w) = g w" and "\<And>w r. g (w\<lparr>redis := r\<rparr>) = g w"
    and "\<And>w l. g (w\<lparr>log_lines := l\<rparr>) = g w"
  shows "keeps g (verifyAccessToken P token)"
  unfolding verifyAccessToken_def by (intro io_rules assms)

lemma keeps_validateAccessToken [io_rules]:
  assumes "keys_frame g" and "\<And>w. g (tick w) = g w" and "\<And>w r. g (w\<lparr>redis := r\<rparr>) = g w"
    and "\<And>w l. g (w\<lparr>log_lines := l\<rparr>) = g w"
  shows "keeps g (validateAccessToken P b req res)"
  unfolding validateAccessToken_def Let_def by (intro io_rules assms)

lemma keeps_denial: "keeps g (writeAuditEvent (denial_entry req c e)) \<Longrightarrow> keeps g (auditDenial req c e)"
  by (simp add: auditDenial_def)

lemma enforce_denies:
  assumes "enforceAuthorization P route c req res w = (Inr (Some e, res'), w')"
  shows "recorded (denial_entry req c e) w w'"
proof -
  have "\<exists>w1 u. auditDenial req c e w1 = (Inr u, w') \<and> audit_log w1 = audit_log w"
  proof (cases "has_allowed_role route c \<and> has_scope route c")
    case False
    with assms show ?thesis
      by (auto simp: enforceAuthorization_def Let_def elim!: await_InrE split: if_splits)
  next
    case True
    then have "await (runRateLimiter P route req res) (\<lambda>(rateLimitError, res1). case rateLimitError of
          Some e \<Rightarrow> await (auditDenial req c e) (\<lambda>_. pure (Some e, res1))
        | None \<Rightarrow> pure (None, res1)) w = (Inr (Some e, res'), w')"
      using assms by (simp add: enforceAuthorization_def)
    then obtain d w1 where rl: "runRateLimiter P route req res w = (Inr d, w1)"
      and "(case d of (rateLimitError, res1) \<Rightarrow> (case rateLimitError of
          Some e \<Rightarrow> await (auditDenial req c e) (\<lambda>_. pure (Some e, res1))
        | None \<Rightarrow> pure (None, res1))) w1 = (Inr (Some e, res'), w')" by (rule await_InrE)
    then have "\<exists>u. auditDenial req c e w1 = (Inr u, w')"
      by (auto elim!: await_InrE split: prod.splits option.splits)
    moreover have "audit_log w1 = audit_log w"
    proof -
      obtain st where "rateLimiter P (route_limits route) req res w = (Inr st, w1)"
        using rl by (auto simp: runRateLimiter_def elim!: await_InrE split: next_step.splits)
      then show ?thesis by (rule keepsD [OF keeps_rateLimiter, rotated -1]) simp_all
    qed
    ultimately show ?thesis by blast
  qed
  then show ?thesis unfolding auditDenial_def using writeAudit_recorded recorded_from by blast
qed

text \<open>
  C31. Every denial of a matched route is recorded: when the proxy refuses a request with an error,
  be it a missing or rejected token, a missing role or scope, or the rate limit, one audit row for
  exactly that error, resource and user was appended, or the failure to write it is the last line
  of the log.
\<close>

theorem denial_recorded:
  assumes "resolveRoute P (resourcePath req) routes = Inr (Some rv)"
    and "admit P routes req res w = (Inr (Refuse (Fail e req' res')), w')"
  shows "recorded (denial_entry req' (rq_auth req') e) w w'"
proof -
  let ?req1 = "req\<lparr>rq_headers := stripSpoofedHeaders (rq_headers req)\<rparr>" and ?r = "rv_route rv"
  have "await (validateAccessToken P (\<not> rc_auth_required ?r) ?req1 res) (after_token P ?r (rv_forwardPath rv)) w =
      (Inr (Refuse (Fail e req' res')), w')"
    using assms by (simp add: admit_def Let_def)
  then obtain st w1 where v: "validateAccessToken P (\<not> rc_auth_required ?r) ?req1 res w = (Inr st, w1)"
    and rest: "after_token P ?r (rv_forwardPath rv) st w1 = (Inr (Refuse (Fail e req' res')), w')"
    by (rule await_InrE)
  have log: "audit_log w1 = audit_log w"
    by (rule keepsD [OF keeps_validateAccessToken v]) simp_all
  show ?thesis
  proof (cases st)
    case (Continue req2 res2)
    with rest obtain d where "enforceAuthorization P ?r (rq_auth req2) req2 res2 w1 = (Inr d, w')"
      and "d = (Some e, res')" and "req' = req2"
      by (auto simp: after_token_def elim!: await_InrE split: option.splits)
    then show ?thesis using enforce_denies log recorded_from by blast
  next
    case (Fail e2 req2 res2)
    with rest have "e2 = e" "req2 = req'" "\<exists>u. writeAuditEvent (denial_entry req' (rq_auth req') e) w1 = (Inr u, w')"
      by (auto simp: after_token_def auditDenial_def elim!: await_InrE)
    then show ?thesis using writeAudit_recorded log recorded_from by blast
  next
    case (Respond res2)
    with rest show ?thesis by (simp add: after_token_def)
  qed
qed

lemma denial_recorded_witness:
  "\<exists>w'. admit demo [demo_route] (demo_request\<lparr>rq_originalUrl := ''/api/x''\<rparr>) response0 world0 =
     (Inr (Refuse (Fail (UnauthorizedError ''Missing or malformed Authorization header'')
        (demo_request\<lparr>rq_originalUrl := ''/api/x''\<rparr>) response0)), w') \<and>
     recorded (denial_entry (demo_request\<lparr>rq_originalUrl := ''/api/x''\<rparr>) None
       (UnauthorizedError ''Missing or malformed Authorization header'')) world0 w'"
proof -
  let ?req = "demo_request\<lparr>rq_originalUrl := ''/api/x''\<rparr>" and ?e = "UnauthorizedError ''Missing or malformed Authorization header''"
  have strip: "demo_request\<lparr>rq_originalUrl := ''/api/x'', rq_headers := stripSpoofedHeaders (rq_headers demo_request)\<rparr> = ?req"
    by (simp add: demo_request_def stripSpoofedHeaders_def SPOOFABLE_IDENTITY_HEADERS_def)
  have r: "resourcePath ?req = ''/api/x''" by (simp add: resourcePath_def)
  have au: "rq_auth ?req = None" by (simp add: demo_request_def)
  obtain w' where wr: "writeAuditEvent (denial_entry ?req None ?e) world0 = (Inr (), w')" using writeAudit_Inr by blast
  have v: "validateAccessToken demo False ?req response0 = pure (Fail ?e ?req response0)"
    by (simp add: validateAccessToken_run bearer_def header_def demo_request_def)
  have "rc_auth_required demo_route" by (simp add: demo_route_def)
  then have run: "admit demo [demo_route] ?req response0 world0 = (Inr (Refuse (Fail ?e ?req response0)), w')"
    using wr by (simp add: admit_def Let_def r demo_resolve strip v au after_token_def auditDenial_def del: resolveRoute.simps)
  have "resolveRoute demo (resourcePath ?req) [demo_route] = Inr (Some \<lparr>rv_route = demo_route, rv_forwardPath = ''/api/x''\<rparr>)"
    unfolding r by (rule demo_resolve)
  from denial_recorded [OF this run] run show ?thesis unfolding au by blast
qed

end
