(* ===== verification/Dispatch.thy ===== *)
theory Dispatch
  imports ProxyProofs
begin

text \<open>
  The path handed to the upstream, how the promise of \<open>dispatchToUpstream\<close> settles, and what a
  client sees of an upstream failure.
\<close>

section \<open>The forwarded path\<close>

lemma resourcePath_takeWhile: "resourcePath req = takeWhile (\<lambda>c. c \<noteq> CHR ''?'') (rq_originalUrl req)"
  by (simp add: resourcePath_def hd_split_on)

lemma no_query: "CHR ''?'' \<notin> set (resourcePath req)"
  by (auto simp: resourcePath_takeWhile dest: set_takeWhileD)

lemma forward_path_subset: "c \<in> set (forward_path route path) \<Longrightarrow> c \<in> set path \<or> c = CHR ''/''"
  by (auto simp: forward_path_def Let_def split: if_splits dest: in_set_dropD)

text \<open>
  The path that reaches the upstream is the request's path, without the static prefix of the
  route's pattern where the route strips it, and never empty; the query string of the request is
  not part of it and is lost.
\<close>

theorem forwarded_path:
  assumes "admit P routes req res w = (Inr (Forward route fp out res'), w')" and "rq_originalUrl req \<noteq> []"
    and "hd (rq_originalUrl req) = CHR ''/''"
  shows "fp \<noteq> [] \<and> CHR ''?'' \<notin> set fp \<and>
    (\<not> rc_strip_prefix route \<longrightarrow> fp = takeWhile (\<lambda>c. c \<noteq> CHR ''?'') (rq_originalUrl req)) \<and>
    (\<forall>rest. rc_strip_prefix route \<longrightarrow>
       takeWhile (\<lambda>c. c \<noteq> CHR ''?'') (rq_originalUrl req) = staticPrefixOf (rc_path route) @ rest \<longrightarrow>
       fp = (if rest = [] then ''/'' else rest))"
proof -
  obtain req2 w1 where "resolveRoute P (resourcePath req) routes = Inr (Some \<lparr>rv_route = route, rv_forwardPath = fp\<rparr>)"
    by (rule admit_Forward [OF assms(1)])
  then have fp: "fp = forward_path route (resourcePath req)"
    unfolding resolveRoute_first_match first_match_def by auto
  have "resourcePath req \<noteq> []"
    using assms(2,3) by (cases "rq_originalUrl req") (auto simp: resourcePath_takeWhile)
  then have "fp \<noteq> []" by (simp add: fp forward_path_def Let_def)
  moreover have "CHR ''?'' \<notin> set fp" using forward_path_subset no_query by (fastforce simp: fp)
  ultimately show ?thesis by (auto simp: fp forward_path_def Let_def resourcePath_takeWhile)
qed

lemma forwarded_path_witness:
  "\<exists>out res' w'. admit demo [demo_route] demo_auth_request response0 world0 = (Inr (Forward demo_route ''/api/x'' out res'), w') \<and>
    rq_originalUrl demo_auth_request = ''/api/x?a=1'' \<and> CHR ''?'' \<notin> set ''/api/x''"
proof -
  obtain out res' w' where run: "admit demo [demo_route] demo_auth_request response0 world0 =
     (Inr (Forward demo_route ''/api/x'' out res'), w')" using demo_admit by blast
  from forwarded_path [OF run] run demo_resource(2) show ?thesis by simp
qed

section \<open>The promise of a dispatch\<close>

text \<open>What an event does to a promise that waits, if anything.\<close>

fun effect :: "route_config \<Rightarrow> upstream_event \<Rightarrow> (exn + unit) option" where
  "effect route (OnError isResponse c m) =
     (if isResponse then Some (Inl (AppExn (mapUpstreamError route c m))) else None)"
| "effect route Finish = Some (Inr ())"
| "effect route Close = Some (Inr ())"
| "effect route (NextCalled e) = map_option Inl e"

definition waiting :: "dispatch \<Rightarrow> bool" where
  "waiting d \<longleftrightarrow> d = dispatch0"

definition done_with :: "exn + unit \<Rightarrow> dispatch \<Rightarrow> bool" where
  "done_with r d \<longleftrightarrow> d = \<lparr>settled = True, pending = False, promise = Some r\<rparr>"

lemma on_event_waiting:
  "waiting d \<Longrightarrow> (case effect route ev of None \<Rightarrow> waiting (on_event route ev d) | Some r \<Rightarrow> done_with r (on_event route ev d))"
  by (cases "(route, ev, d)" rule: on_event.cases) (auto simp: waiting_def done_with_def dispatch0_def settle_def)

lemma on_event_done: "done_with r d \<Longrightarrow> on_event route ev d = d"
  by (cases "(route, ev, d)" rule: on_event.cases) (auto simp: done_with_def settle_def)

lemma run_done: "done_with r d \<Longrightarrow> fold (on_event route) events d = d"
  by (induction events) (simp_all add: on_event_done)

lemma run_waiting:
  "waiting d \<Longrightarrow> (case List.map_filter (effect route) events of
       [] \<Rightarrow> waiting (fold (on_event route) events d) | r # _ \<Rightarrow> done_with r (fold (on_event route) events d))"
proof (induction events arbitrary: d)
  case (Cons ev events)
  show ?case
  proof (cases "effect route ev")
    case None
    then have "waiting (on_event route ev d)" using on_event_waiting [OF Cons.prems, of route ev] by simp
    from Cons.IH [OF this] None show ?thesis by (simp add: List.map_filter_simps split: list.splits)
  next
    case (Some r)
    then have "done_with r (on_event route ev d)" using on_event_waiting [OF Cons.prems, of route ev] by simp
    with Some show ?thesis by (simp add: List.map_filter_simps run_done)
  qed
qed (simp add: List.map_filter_simps)

lemma dispatch_promise:
  "promise (fold (on_event route) events dispatch0) =
      (case List.map_filter (effect route) events of [] \<Rightarrow> None | r # _ \<Rightarrow> Some r) \<and>
   (pending (fold (on_event route) events dispatch0) \<longleftrightarrow> promise (fold (on_event route) events dispatch0) = None)"
  using run_waiting [of dispatch0 route events]
  by (auto simp: waiting_def done_with_def dispatch0_def split: list.splits)

text \<open>
  A dispatch settles exactly once, with the first of its events that settles anything (an error
  for its own response, the end of the response, the client going away, a failure of the proxy),
  whatever comes after it, in whatever order; its entry in \<open>pendingUpstreamErrors\<close> is there as
  long as the promise waits, and no longer.
\<close>

theorem dispatch_settles_once:
  "promise (fold (on_event route) events dispatch0) =
      (case List.map_filter (effect route) events of [] \<Rightarrow> None | r # _ \<Rightarrow> Some r) \<and>
   (pending (fold (on_event route) events dispatch0) \<longleftrightarrow> promise (fold (on_event route) events dispatch0) = None)"
  by (rule dispatch_promise)

lemma promise_settles:
  assumes "e \<in> set events" and "effect route e \<noteq> None"
  shows "promise (fold (on_event route) events dispatch0) \<noteq> None"
proof -
  have "List.map_filter (effect route) events \<noteq> []"
    using assms by (induction events) (auto simp: List.map_filter_simps split: option.split)
  then show ?thesis using run_waiting [of dispatch0 route events]
    by (auto simp: waiting_def done_with_def split: list.splits)
qed

text \<open>
  The handler ends, with an answer or an error passed on, whenever the response's own end or
  the end of its connection is among the events: a client that goes away does not leave it waiting.
\<close>

lemma handler_ends:
  assumes "\<forall>route req1 res1. Finish \<in> set (fst (exchange route req1 res1)) \<or> Close \<in> set (fst (exchange route req1 res1))"
  shows "fst (proxyHandler P exchange routes req res w) \<noteq> Inr None"
proof
  assume hang: "fst (proxyHandler P exchange routes req res w) = Inr None"
  from hang obtain adm w1 where "admit P routes req res w = (Inr adm, w1)"
    and rest: "fst ((case adm of
       Refuse st \<Rightarrow> pure (Some (Ended st))
     | Forward route forwardPath req1 res1 \<Rightarrow>
         await (dispatchToUpstream exchange route forwardPath req1 res1) (\<lambda>(result, req2, res2). case result of
           None \<Rightarrow> pure None
         | Some (Inl e) \<Rightarrow> pure (Some (Passed e req2 res2))
         | Some (Inr _) \<Rightarrow> await (auditAllowedIfFlagged route req2 (rq_auth req2)) (\<lambda>_.
             pure (Some (Ended (Respond res2)))))) w1) = Inr None"
    by (cases "admit P routes req res w"; cases "fst (admit P routes req res w)") (auto simp: proxyHandler_def)
  show False
  proof (cases adm)
    case (Refuse st)
    with rest show ?thesis by simp
  next
    case (Forward route fp req1 res1)
    let ?x = "exchange route (req1\<lparr>rq_url := fp\<rparr>) res1"
    obtain r where r: "promise (fold (on_event route) (fst ?x) dispatch0) = Some r"
      using assms promise_settles [of Finish "fst ?x"] promise_settles [of Close "fst ?x"] by fastforce
    obtain events res2 where x: "?x = (events, res2)" by fastforce
    obtain w2 where wr: "auditAllowedIfFlagged route req1 (rq_auth req1) (tick w1) = (Inr (), w2)"
      using that writeAudit_Inr by (cases "rc_audit_allowed_requests route") (auto simp: auditAllowedIfFlagged_def)
    show ?thesis
    proof (cases r)
      case (Inl e)
      with rest Forward r x show ?thesis by (cases e) (simp_all add: dispatchToUpstream_def Let_def)
    next
      case (Inr u)
      with rest Forward r x wr show ?thesis by (simp add: dispatchToUpstream_def Let_def)
    qed
  qed
qed

section \<open>Upstream failures\<close>

text \<open>
  When the upstream cannot be reached, the client is answered with the route's pattern in place
  of the upstream's address, as intended, but also with the error message of the connection, as it
  is: an address in it (Node writes \<open>connect ECONNREFUSED 10.0.0.7:8080\<close>) is disclosed. A timeout
  or a reset is answered without it.
\<close>

theorem upstream_failure_message:
  assumes "admit P routes req res w = (Inr (Forward route fp out res1), w1)"
    and "exchange route (out\<lparr>rq_url := fp\<rparr>) res1 = (OnError True errCode m # events, res2)"
  shows "fst (proxyHandler P exchange routes req res w) = Inr (Some (Passed (AppExn
      (if errCode = Some ''ETIMEDOUT'' \<or> errCode = Some ''ECONNRESET'' then GatewayTimeoutError (rc_path route)
       else UpstreamError (rc_path route) (Some m))) out res2)) \<and>
    (errCode \<noteq> Some ''ETIMEDOUT'' \<longrightarrow> errCode \<noteq> Some ''ECONNRESET'' \<longrightarrow> m \<noteq> [] \<longrightarrow>
      (\<forall>w2. fst (errorHandler (AppExn (UpstreamError (rc_path route) (Some m))) out res2 w2) =
        Inr (send_json 502 (JObj [(''error'', JStr ''bad_gateway''), (''error_description'',
          JStr (''Upstream service \"'' @ rc_path route @ ''\" returned an error: '' @ m)),
          (''request_id'', JStr (rq_requestId out))]) res2)))"
proof
  have "promise (fold (on_event route) (OnError True errCode m # events) dispatch0) =
      Some (Inl (AppExn (mapUpstreamError route errCode m)))"
    using run_waiting [of dispatch0 route "OnError True errCode m # events"]
    by (simp add: waiting_def done_with_def List.map_filter_simps)
  then show "fst (proxyHandler P exchange routes req res w) = Inr (Some (Passed (AppExn
      (if errCode = Some ''ETIMEDOUT'' \<or> errCode = Some ''ECONNRESET'' then GatewayTimeoutError (rc_path route)
       else UpstreamError (rc_path route) (Some m))) out res2))"
    using assms by (simp add: proxyHandler_def dispatchToUpstream_def Let_def mapUpstreamError_def del: fold.simps)
qed (simp add: errorHandler_def await_run log_run error_body_def)

definition demo_refused :: exchange where
  "demo_refused route req res = ([OnError True (Some ''ECONNREFUSED'') ''connect ECONNREFUSED 10.0.0.7:8080''], res)"

lemma upstream_failure_message_witness:
  "\<exists>out res2. fst (proxyHandler demo demo_refused [demo_route] demo_auth_request response0 world0) =
    Inr (Some (Passed (AppExn (UpstreamError ''/api/x'' (Some ''connect ECONNREFUSED 10.0.0.7:8080''))) out res2))"
proof -
  obtain out res1 w1 where run: "admit demo [demo_route] demo_auth_request response0 world0 =
     (Inr (Forward demo_route ''/api/x'' out res1), w1)" using demo_admit by blast
  have "demo_refused demo_route (out\<lparr>rq_url := ''/api/x''\<rparr>) res1 =
      (OnError True (Some ''ECONNREFUSED'') ''connect ECONNREFUSED 10.0.0.7:8080'' # [], res1)"
    by (simp add: demo_refused_def)
  note m = upstream_failure_message [where exchange = demo_refused, OF run this, THEN conjunct1]
  have "rc_path demo_route = ''/api/x''" by (simp add: demo_route_def)
  with m show ?thesis by auto
qed

end
