(* ===== verification/AppProofs.thy ===== *)
theory AppProofs
  imports App Dispatch
begin

text \<open>
  Properties of the composed application: every request is answered, every answer carries the
  request's id, the probes work without credentials or quota, a throttled request reaches no
  handler, and no body parser touches what is forwarded.
\<close>

section \<open>What a computation returns\<close>

text \<open>
  \<open>yields Q m\<close>: whatever \<open>m\<close> resolves to satisfies \<open>Q\<close>. \<open>resolves m\<close>:
  \<open>m\<close> never rejects.
\<close>

named_theorems yields_rules \<open>introduction rules for yields\<close>

definition yields :: "('a \<Rightarrow> bool) \<Rightarrow> ('w, 'e, 'a) io \<Rightarrow> bool" where
  "yields Q m \<longleftrightarrow> (\<forall>w x w'. m w = (Inr x, w') \<longrightarrow> Q x)"

definition resolves :: "('w, 'e, 'a) io \<Rightarrow> bool" where
  "resolves m \<longleftrightarrow> (\<forall>w. \<exists>x w'. m w = (Inr x, w'))"

lemma yieldsD: "yields Q m \<Longrightarrow> m w = (Inr x, w') \<Longrightarrow> Q x"
  by (auto simp: yields_def)

lemma yieldsI: "(\<And>w x w'. m w = (Inr x, w') \<Longrightarrow> Q x) \<Longrightarrow> yields Q m"
  by (auto simp: yields_def)

lemma yields_pure [yields_rules]: "Q x \<Longrightarrow> yields Q (pure x)"
  by (simp add: yields_def)

lemma yields_throw [yields_rules]: "yields Q (throw e)"
  by (simp add: yields_def)

lemma yields_await [yields_rules]: "(\<And>x. yields Q (k x)) \<Longrightarrow> yields Q (await m k)"
  by (auto simp: yields_def elim!: await_InrE)

lemma yields_await_via: "yields R m \<Longrightarrow> (\<And>x. R x \<Longrightarrow> yields Q (k x)) \<Longrightarrow> yields Q (await m k)"
  by (fastforce simp: yields_def elim!: await_InrE)

lemma yields_try: "yields Q m \<Longrightarrow> (\<And>e. yields Q (h e)) \<Longrightarrow> yields Q (try_catch m h)"
  by (auto simp: yields_def try_catch_def split: prod.splits sum.splits)

lemma yields_if [yields_rules]:
  "(b \<Longrightarrow> yields Q m) \<Longrightarrow> (\<not> b \<Longrightarrow> yields Q m') \<Longrightarrow> yields Q (if b then m else m')"
  by simp

lemma yields_option [yields_rules]:
  "(x = None \<Longrightarrow> yields Q m) \<Longrightarrow> (\<And>y. x = Some y \<Longrightarrow> yields Q (k y)) \<Longrightarrow>
     yields Q (case x of None \<Rightarrow> m | Some y \<Rightarrow> k y)"
  by (cases x) auto

lemma yields_sum [yields_rules]:
  "(\<And>e. x = Inl e \<Longrightarrow> yields Q (m e)) \<Longrightarrow> (\<And>y. x = Inr y \<Longrightarrow> yields Q (k y)) \<Longrightarrow>
     yields Q (case x of Inl e \<Rightarrow> m e | Inr y \<Rightarrow> k y)"
  by (cases x) auto

lemma yields_prod [yields_rules]:
  "(\<And>a b. x = (a, b) \<Longrightarrow> yields Q (k a b)) \<Longrightarrow> yields Q (case x of (a, b) \<Rightarrow> k a b)"
  by (cases x) auto

lemma yields_let [yields_rules]: "yields Q (k x) \<Longrightarrow> yields Q (let y = x in k y)"
  by simp

lemma yields_step:
  "(\<And>req res. st = Continue req res \<Longrightarrow> yields Q (c req res)) \<Longrightarrow>
   (\<And>e req res. st = Fail e req res \<Longrightarrow> yields Q (f e req res)) \<Longrightarrow>
   (\<And>res. st = Respond res \<Longrightarrow> yields Q (r res)) \<Longrightarrow>
   yields Q (case st of Continue req res \<Rightarrow> c req res | Fail e req res \<Rightarrow> f e req res | Respond res \<Rightarrow> r res)"
  by (cases st) auto

lemma resolves_run: "resolves m \<Longrightarrow> \<exists>x w'. m w = (Inr x, w')"
  by (simp add: resolves_def)

lemma resolves_pure [simp, intro!]: "resolves (pure x)"
  by (simp add: resolves_def)

lemma resolves_await: "resolves m \<Longrightarrow> (\<And>x. resolves (k x)) \<Longrightarrow> resolves (await m k)"
  unfolding resolves_def by (metis await_Inr)

lemma resolves_try: "(\<And>e. resolves (h e)) \<Longrightarrow> resolves (try_catch m h)"
  unfolding resolves_def try_catch_def by (auto split: prod.splits sum.splits)

lemma resolves_log [intro!]: "resolves (log l m meta)"
  by (simp add: resolves_def log_run)

lemma resolves_errorHandler [intro!]: "resolves (errorHandler e req res)"
  by (simp add: resolves_def errorHandler_total)

section \<open>A deployment\<close>

text \<open>The middleware of the packages does nothing, and an upstream answers at once.\<close>

definition demo_outside :: "'r outside" where
  "demo_outside = \<lparr>helmet = (\<lambda>res. res), cors = (\<lambda>_. Continue), parseBody = (\<lambda>req. Inr (rq_body req)),
     upstream = (\<lambda>_ _ res. ([Finish, Close], res)), meanwhile = (\<lambda>w. w), uptime = 7\<rparr>"

section \<open>Every request is answered\<close>

lemma resolves_handle_errors: "resolves (handle_errors m req res)"
  unfolding handle_errors_def
  by (intro resolves_await resolves_try resolves_errorHandler resolves_pure)
    (auto intro!: resolves_await split: next_step.split)

lemma resolves_app_use: "resolves (app_use m st)"
  by (cases st) (simp_all add: app_use_def resolves_handle_errors)

lemma resolves_httpLogger: "resolves (httpLogger req res)"
  by (auto simp: httpLogger_def)

lemma resolves_requestId: "resolves (requestId req res)"
  by (auto simp: requestId_def resolves_def await_run randomUUID_run split: option.split)

lemma proxy_or_404_Some:
  assumes "\<forall>route req1 res1. Finish \<in> set (fst (upstream X route req1 res1)) \<or> Close \<in> set (fst (upstream X route req1 res1))"
  shows "\<exists>res w'. proxy_or_404 P X routes st w = (Inr (Some res), w')"
proof -
  have eh: "\<exists>r w'. await (errorHandler e req res) (\<lambda>r. pure (Some r)) w = (Inr (Some r), w')" for e req res and w :: "'a world"
    using errorHandler_total [of e req res w] by auto
  show ?thesis
  proof (cases st)
    case (Continue req res)
    show ?thesis
    proof (cases "mounted ''/api'' req")
      case None
      with Continue show ?thesis by (simp add: proxy_or_404_def)
    next
      case (Some path)
      obtain r w1 where run: "try_catch (proxyHandler P (upstream X) routes req res)
          (\<lambda>e. pure (Some (Passed e req res))) w = (Inr (Some r), w1)"
      proof (cases "fst (proxyHandler P (upstream X) routes req res w)")
        case (Inl e)
        obtain w1 where p: "proxyHandler P (upstream X) routes req res w = (Inl e, w1)" using Inl by (metis prod.collapse)
        with that show thesis by auto
      next
        case (Inr r)
        then obtain r1 where "r = Some r1" using handler_ends [OF assms, of P routes req res w] by (cases r) auto
        with Inr have "proxyHandler P (upstream X) routes req res w = (Inr (Some r1), snd (proxyHandler P (upstream X) routes req res w))"
          by (metis prod.collapse)
        with that show thesis by auto
      qed
      then show ?thesis using Continue Some eh by (cases r) (auto simp: proxy_or_404_def split: next_step.split)
    qed
  qed (use eh in \<open>auto simp: proxy_or_404_def\<close>)
qed

lemma pipeline_Some:
  assumes "\<forall>route req1 res1. Finish \<in> set (fst (upstream X route req1 res1)) \<or> Close \<in> set (fst (upstream X route req1 res1))"
  shows "\<exists>res w'. pipeline P X routes st w = (Inr (Some res), w')"
proof -
  have "\<exists>x w'. (await m k) w = (Inr (Some x), w')"
    if "resolves m" "\<And>st w. \<exists>x w'. k st w = (Inr (Some x), w')" for m :: "('a, next_step) gw" and k :: "next_step \<Rightarrow> ('a, response option) gw" and w
    using that resolves_run [OF that(1), of w] by (metis await_Inr)
  note step = this
  show ?thesis unfolding pipeline_def
    by (intro step resolves_app_use proxy_or_404_Some [OF assms])
qed

lemma createApp_runs:
  assumes "\<forall>route req1 res1. Finish \<in> set (fst (upstream X route req1 res1)) \<or> Close \<in> set (fst (upstream X route req1 res1))"
  shows "\<exists>res w'. createApp P X routes req w = (Inr (Some res), w')"
proof (cases "cors X (cors_origins P) req (helmet X initial_response)")
  case (Continue req1 res1)
  obtain st w1 where r: "requestId req1 res1 w = (Inr st, w1)"
    using resolves_run [OF resolves_requestId] by blast
  obtain res w2 where p: "pipeline P X routes st w1 = (Inr (Some res), w2)"
    using pipeline_Some [OF assms] by blast
  have "resolves (case (Some res, st) of (Some res, Continue req2 _) \<Rightarrow> httpLogger req2 res | _ \<Rightarrow> pure ())"
    by (cases st) (simp_all add: resolves_httpLogger)
  from resolves_run [OF this] obtain u w3 where
    "(case (Some res, st) of (Some res, Continue req2 _) \<Rightarrow> httpLogger req2 res | _ \<Rightarrow> pure ()) w2 = (Inr u, w3)"
    by blast
  then show ?thesis using Continue r p by (simp add: createApp_def)
next
  case (Fail e req1 res1)
  then show ?thesis using errorHandler_total [of "AppExn e" req1 res1 w] by (auto simp: createApp_def)
qed (simp add: createApp_def)


lemma demo_ends: "\<forall>route req1 res1. Finish \<in> set (fst (upstream demo_outside route req1 res1)) \<or>
    Close \<in> set (fst (upstream demo_outside route req1 res1))"
  by (simp add: demo_outside_def)


section \<open>Paths\<close>

text \<open>The mount points and the probes differ in the second character of the path.\<close>

definition second :: "request \<Rightarrow> char" where
  "second req = toLowerCase (resourcePath req) ! 1"

lemma mounted_second:
  assumes "mounted m1 req \<noteq> None" and "1 < length m1"
  shows "second req = m1 ! 1"
proof -
  from assms(1) have m: "map lower_char (take (length m1) (resourcePath req)) = m1"
    by (auto simp: mounted_def Let_def toLowerCase_def split: if_splits)
  then have "length m1 \<le> length (resourcePath req)" by (metis length_map length_take min.absorb_iff2 min.commute)
  moreover have "map lower_char (take (length m1) (resourcePath req)) ! 1 = m1 ! 1" by (simp only: m)
  ultimately show ?thesis using assms(2) by (simp add: second_def toLowerCase_def)
qed

lemma norm_path_take: "\<exists>n. norm_path p = take n (toLowerCase p)"
  by (auto simp: norm_path_def Let_def intro: exI [of _ "length (toLowerCase p)"])

lemma is_route_second:
  assumes "is_route verb pattern req (resourcePath req)" and "1 < length (norm_path pattern)"
  shows "second req = norm_path pattern ! 1"
proof -
  obtain n where n: "norm_path (resourcePath req) = take n (toLowerCase (resourcePath req))"
    using norm_path_take by blast
  have eq: "take n (toLowerCase (resourcePath req)) = norm_path pattern"
    using assms(1) n by (simp add: is_route_def)
  with assms(2) have "1 < n" "1 < length (toLowerCase (resourcePath req))" by (metis length_take min_less_iff_conj)+
  then show ?thesis using arg_cong [OF eq, of "\<lambda>s. s ! 1"] by (simp add: second_def)
qed

lemma norm_probes: "norm_path ''/health'' = ''/health''" "norm_path ''/ready'' = ''/ready''"
  by code_simp+

lemma not_probe:
  assumes "second req \<noteq> CHR ''h''" and "second req \<noteq> CHR ''r''"
  shows "systemRouter P n (resourcePath req) req res = pure (Continue req res)"
  using assms is_route_second [of "''GET''" "''/health''" req] is_route_second [of "''GET''" "''/ready''" req]
  by (auto simp: systemRouter_def norm_probes)

lemma not_auth:
  assumes "second req \<noteq> CHR ''v''"
  shows "mounted ''/v1/auth'' req = None" "mounted ''/v1/oauth'' req = None" "\<not> auth_or_oauth req"
proof -
  show "mounted ''/v1/auth'' req = None" using assms mounted_second [of "''/v1/auth''" req] by fastforce
  moreover show "mounted ''/v1/oauth'' req = None" using assms mounted_second [of "''/v1/oauth''" req] by fastforce
  ultimately show "\<not> auth_or_oauth req" by (simp add: auth_or_oauth_def)
qed

lemma not_api: "second req \<noteq> CHR ''a'' \<Longrightarrow> mounted ''/api'' req = None"
  using mounted_second [of "''/api''" req] by fastforce

lemma app_use_pass: "m req res = pure (Continue req res) \<Longrightarrow> app_use m (Continue req res) = pure (Continue req res)"
  by (simp add: app_use_def handle_errors_def fun_eq_iff await_run try_catch_def)

section \<open>Every answer carries the request id\<close>

text \<open>The request keeps its id, its URL and its headers, and the response carries the id.\<close>

definition carries :: "request \<Rightarrow> next_step \<Rightarrow> bool" where
  "carries req0 st = (case st of
       Respond res \<Rightarrow> response_header ''X-Request-ID'' res = Some (rq_requestId req0)
     | Continue req res \<Rightarrow> rq_requestId req = rq_requestId req0 \<and> rq_originalUrl req = rq_originalUrl req0 \<and>
         rq_headers req = rq_headers req0 \<and> response_header ''X-Request-ID'' res = Some (rq_requestId req0)
     | Fail _ req res \<Rightarrow> rq_requestId req = rq_requestId req0 \<and> rq_originalUrl req = rq_originalUrl req0 \<and>
         rq_headers req = rq_headers req0 \<and> response_header ''X-Request-ID'' res = Some (rq_requestId req0))"

lemma carries_simps [simp]:
  "carries req0 (Respond res) \<longleftrightarrow> response_header ''X-Request-ID'' res = Some (rq_requestId req0)"
  "carries req0 (Continue req res) \<longleftrightarrow> rq_requestId req = rq_requestId req0 \<and>
     rq_originalUrl req = rq_originalUrl req0 \<and> rq_headers req = rq_headers req0 \<and>
     response_header ''X-Request-ID'' res = Some (rq_requestId req0)"
  "carries req0 (Fail e req res) \<longleftrightarrow> carries req0 (Continue req res)"
  by (simp_all add: carries_def)

lemma header_no_body [simp]: "response_header n (res\<lparr>rs_status := s, rs_body := b\<rparr>) = response_header n res"
  by (simp add: response_header_def)

lemma carries_rateLimiter:
  "carries req0 (Continue req res) \<Longrightarrow> yields (carries req0) (rateLimiter P o1 req res)"
  unfolding rateLimiter_def by (intro yields_rules) simp_all

lemma carries_validateAccessToken:
  "carries req0 (Continue req res) \<Longrightarrow> yields (carries req0) (validateAccessToken P opt req res)"
  unfolding validateAccessToken_run by (intro yields_rules) simp_all

lemma carries_validate:
  "carries req0 (Continue req res) \<Longrightarrow> (\<And>b. yields (carries req0) (h b req res)) \<Longrightarrow>
     yields (carries req0) (validate schema h req res)"
  unfolding validate_def by (intro yields_rules) simp_all

lemma carries_then:
  "yields (carries req0) m \<Longrightarrow> (\<And>req res. carries req0 (Continue req res) \<Longrightarrow> yields (carries req0) (h req res)) \<Longrightarrow>
     yields (carries req0) (then_handler m h)"
  unfolding then_handler_def by (erule yields_await_via, rule yields_step) (simp_all add: yields_pure)

lemma carries_login:
  "carries req0 (Continue req res) \<Longrightarrow> yields (carries req0) (loginHandler P body req res)"
  unfolding loginHandler_def Let_def by (intro yields_rules) simp_all

lemma carries_refresh_rotate:
  "carries req0 (Continue req res) \<Longrightarrow> yields (carries req0) (refresh_rotate P t owned req res)"
  unfolding refresh_rotate_def refresh_failed_def refresh_rotated_def by (intro yields_rules) simp_all

lemma carries_refresh:
  "carries req0 (Continue req res) \<Longrightarrow> yields (carries req0) (refreshHandler P others body req res)"
  unfolding refreshHandler_def by (intro yields_rules carries_refresh_rotate) simp_all

lemma carries_logout:
  "carries req0 (Continue req res) \<Longrightarrow> yields (carries req0) (logoutHandler P body req res)"
  unfolding logoutHandler_def by (intro yields_rules) simp_all

lemma carries_me: "carries req0 (Continue req res) \<Longrightarrow> yields (carries req0) (meHandler P req res)"
  unfolding meHandler_def by (intro yields_rules) simp_all

lemma carries_plain:
  assumes "carries req0 (Continue req res)"
  shows "yields (carries req0) (jwksHandler P req res)" "yields (carries req0) (not_implemented what req res)"
    "yields (carries req0) (healthHandler n req res)" "yields (carries req0) (readyHandler P req res)"
  using assms unfolding jwksHandler_def not_implemented_def healthHandler_def readyHandler_def
  by (intro yields_rules; simp)+

lemma carries_routers:
  assumes "carries req0 (Continue req res)"
  shows "yields (carries req0) (authRouter P others path req res)" "yields (carries req0) (oauthRouter path req res)"
    "yields (carries req0) (systemRouter P n path req res)"
  using assms unfolding authRouter_def oauthRouter_def systemRouter_def logoutRoute_def meRoute_def
  by (intro yields_rules carries_plain carries_then carries_validate carries_validateAccessToken
      carries_login carries_refresh carries_logout carries_me; simp)+

lemma carries_mounts:
  assumes "carries req0 (Continue req res)"
  shows "yields (carries req0) (bodyParsers X req res)" "yields (carries req0) (limitRate P req res)"
    "yields (carries req0) (at_mount m1 (authRouter P others) req res)" "yields (carries req0) (at_mount m1 oauthRouter req res)"
  using assms unfolding bodyParsers_def limitRate_def at_mount_def
  by (intro yields_rules carries_rateLimiter carries_routers; simp)+

lemma errorHandler_header:
  "response_header n res = h \<Longrightarrow> yields (\<lambda>r. response_header n r = h) (errorHandler e req res)"
  by (cases e) (simp_all add: errorHandler_def yields_await yields_pure)

text \<open>
  What the chain relies on: a stage keeps the request's id, URL and headers and the id on the response, and
  a local stage leaves alone every request that is not for it. \<open>app.use\<close> carries both over.
\<close>

locale stage =
  fixes m :: "request \<Rightarrow> response \<Rightarrow> ('r, next_step) gw"
  assumes traced: "carries req0 (Continue req res) \<Longrightarrow> yields (carries req0) (m req res)"
begin

lemma use_traced:
  assumes "carries req0 st"
  shows "yields (carries req0) (app_use m st)"
proof (cases st)
  case (Continue req res)
  have eh: "yields (carries req0) (await (errorHandler e req1 res1) (\<lambda>r. pure (Respond r)))"
    if "carries req0 (Continue req1 res1)" for e req1 res1
    using that by (auto intro!: yields_await_via [OF errorHandler_header] yields_pure)
  from Continue assms have "carries req0 (Continue req res)" by simp
  then show ?thesis using traced unfolding Continue app_use_def handle_errors_def
    by (auto intro!: yields_await_via [where R = "carries req0"] yields_try eh yields_pure split: next_step.split)
qed (use assms in \<open>auto simp: app_use_def intro: yields_pure\<close>)

lemma use_then:
  assumes "carries req0 st" and "\<And>st1. carries req0 st1 \<Longrightarrow> yields Q (k st1)"
  shows "yields Q (await (app_use m st) k)"
  using yields_await_via [OF use_traced [OF assms(1)] assms(2)] .

end

locale local_stage = stage m for m :: "request \<Rightarrow> response \<Rightarrow> ('r, next_step) gw" +
  fixes here :: "request \<Rightarrow> bool"
  assumes away: "\<not> here req \<Longrightarrow> m req res = pure (Continue req res)"
begin

lemma use_away: "\<not> here req \<Longrightarrow> app_use m (Continue req res) = pure (Continue req res)"
  by (rule app_use_pass) (rule away)

end

interpretation body_stage: local_stage "bodyParsers X" "\<lambda>req. second req = CHR ''v''" for X
  by unfold_locales (erule carries_mounts, simp add: bodyParsers_def not_auth)

interpretation probe_stage: local_stage "\<lambda>req. systemRouter P n (resourcePath req) req"
    "\<lambda>req. second req = CHR ''h'' \<or> second req = CHR ''r''" for P n
  by unfold_locales (erule carries_routers, simp add: not_probe)

interpretation limit_stage: local_stage "limitRate P" "\<lambda>req. second req = CHR ''v''" for P
  by unfold_locales (erule carries_mounts, simp add: limitRate_def not_auth)

interpretation auth_stage: local_stage "at_mount ''/v1/auth'' (authRouter P others)" "\<lambda>req. second req = CHR ''v''" for P others
  by unfold_locales (erule carries_mounts, simp add: at_mount_def not_auth)

interpretation oauth_stage: local_stage "at_mount ''/v1/oauth'' oauthRouter" "\<lambda>req. second req = CHR ''v''"
  by unfold_locales (erule carries_mounts, simp add: at_mount_def not_auth)

lemmas chain_then = body_stage.use_then probe_stage.use_then limit_stage.use_then auth_stage.use_then oauth_stage.use_then

lemmas chain_away = body_stage.use_away probe_stage.use_away limit_stage.use_away auth_stage.use_away oauth_stage.use_away

lemma carries_pipeline:
  assumes "carries req0 st" and "mounted ''/api'' req0 = None"
  shows "yields (\<lambda>r. case r of None \<Rightarrow> True | Some res \<Rightarrow> response_header ''X-Request-ID'' res = Some (rq_requestId req0))
    (pipeline P X routes st)"
proof -
  have last: "yields (\<lambda>r. case r of None \<Rightarrow> True | Some res \<Rightarrow> response_header ''X-Request-ID'' res = Some (rq_requestId req0))
      (proxy_or_404 P X routes st1)" if "carries req0 st1" for st1
  proof (cases st1)
    case (Continue req res)
    with that have "mounted ''/api'' req = None" using assms(2) by (simp add: mounted_def resourcePath_def)
    with Continue that show ?thesis by (simp add: proxy_or_404_def yields_pure notFound_def)
  qed (use that in \<open>auto simp: proxy_or_404_def intro!: yields_pure yields_await_via [OF errorHandler_header]\<close>)
  show ?thesis unfolding pipeline_def using assms(1) by (intro chain_then last)
qed


lemma demo_cors: "cors demo_outside (cors_origins demo) req (helmet demo_outside initial_response) =
    Continue req initial_response"
  by (simp add: demo_outside_def)

definition demo_health :: request where
  "demo_health = demo_request\<lparr>rq_originalUrl := ''/health'', rq_path := ''/health''\<rparr>"

lemma demo_health_path: "resourcePath demo_health = ''/health''" "rq_method demo_health = ''GET''"
  "rq_path demo_health = ''/health''" "header ''x-request-id'' demo_health = None"
  by (simp_all add: demo_health_def resourcePath_def demo_request_def header_def)


section \<open>A request through the chain\<close>

lemma app_use_answered: "app_use m (Respond res) = pure (Respond res)"
  by (simp add: app_use_def)

lemma app_use_respond: "m req res w = (Inr (Respond r), w') \<Longrightarrow> app_use m (Continue req res) w = (Inr (Respond r), w')"
  by (simp add: app_use_def handle_errors_def)

lemma pipeline_answered:
  assumes "app_use (bodyParsers X) (Continue req res) w = (Inr st, w')"
    and "app_use (\<lambda>req. systemRouter P (uptime X) (resourcePath req) req) st w' = (Inr (Respond r), w'')"
  shows "pipeline P X routes (Continue req res) w = (Inr (Some r), w'')"
  using assms by (simp add: pipeline_def app_use_answered proxy_or_404_def)

text \<open>A request under \<open>/api\<close> goes to the proxy as it came, its body unread.\<close>

lemma pipeline_api:
  assumes "mounted ''/api'' req \<noteq> None"
  shows "pipeline P X routes (Continue req res) = proxy_or_404 P X routes (Continue req res)"
proof -
  have "second req = CHR ''a''" using mounted_second [OF assms] by simp
  then show ?thesis by (simp add: pipeline_def chain_away)
qed

section \<open>The probes\<close>

lemma createApp_run:
  assumes "cors X (cors_origins P) req (helmet X initial_response) = Continue req1 res1"
    and "i = (case header ''x-request-id'' req1 of Some i \<Rightarrow> i | None \<Rightarrow> uuids w (draws w))"
    and "n = (if header ''x-request-id'' req1 = None then Suc (draws w) else draws w)"
    and "pipeline P X routes (Continue (req1\<lparr>rq_requestId := i\<rparr>) (setHeader ''X-Request-ID'' i res1)) (w\<lparr>draws := n\<rparr>) = (Inr (Some res), w1)"
    and "httpLogger (req1\<lparr>rq_requestId := i\<rparr>) res w1 = (Inr (), w')"
  shows "createApp P X routes req w = (Inr (Some res), w')"
proof -
  have "requestId req1 res1 w = (Inr (Continue (req1\<lparr>rq_requestId := i\<rparr>) (setHeader ''X-Request-ID'' i res1)), w\<lparr>draws := n\<rparr>)"
    using assms(2,3) by (auto simp: requestId_def await_run randomUUID_run split: option.splits)
  with assms show ?thesis by (simp add: createApp_def)
qed

lemma resource_upd [simp]: "resourcePath (req\<lparr>rq_requestId := i\<rparr>) = resourcePath req"
  by (simp add: resourcePath_def)

lemma second_upd [simp]: "second (req\<lparr>rq_requestId := i\<rparr>) = second req"
  by (simp add: second_def)

text \<open>
  The liveness probe answers 200 to everyone, whatever the headers, and touches nothing: no
  query, no Redis command, no log line; a database or a Redis that is down does not make the
  process look dead, and a probe uses up nobody's quota.
\<close>

theorem health_touches_nothing:
  assumes "cors X (cors_origins P) req (helmet X initial_response) = Continue req1 res1"
    and "rq_method req1 = ''GET''" and "resourcePath req1 = ''/health''" and "rq_path req1 = ''/health''"
  shows "\<exists>res n. createApp P X routes req w = (Inr (Some res), w\<lparr>draws := n\<rparr>) \<and> rs_status res = 200 \<and>
    rs_body res = Some (JObj [(''status'', JStr ''ok''), (''uptime'', JInt (uptime X))])"
proof -
  define i where "i = (case header ''x-request-id'' req1 of Some i \<Rightarrow> i | None \<Rightarrow> uuids w (draws w))"
  define n where "n = (if header ''x-request-id'' req1 = None then Suc (draws w) else draws w)"
  let ?req = "req1\<lparr>rq_requestId := i\<rparr>" and ?res = "setHeader ''X-Request-ID'' i res1"
  let ?r = "send_json 200 (JObj [(''status'', JStr ''ok''), (''uptime'', JInt (uptime X))]) ?res"
  have "second ?req = CHR ''h''" using assms(3) by (simp add: second_def toLowerCase_def lower_char_def)
  then have b: "app_use (bodyParsers X) (Continue ?req ?res) = pure (Continue ?req ?res)"
    by (simp add: body_stage.use_away)
  have h: "systemRouter P (uptime X) (resourcePath ?req) ?req ?res = pure (Respond ?r)"
    using assms(2,3) by (simp add: systemRouter_def is_route_def healthHandler_def)
  have "app_use (\<lambda>req. systemRouter P (uptime X) (resourcePath req) req) (Continue ?req ?res) (w\<lparr>draws := n\<rparr>) =
      (Inr (Respond ?r), w\<lparr>draws := n\<rparr>)" by (rule app_use_respond) (simp only: h pure_run)
  then have "pipeline P X routes (Continue ?req ?res) (w\<lparr>draws := n\<rparr>) = (Inr (Some ?r), w\<lparr>draws := n\<rparr>)"
    by (intro pipeline_answered) (simp_all only: b pure_run)
  moreover have "httpLogger ?req ?r (w\<lparr>draws := n\<rparr>) = (Inr (), w\<lparr>draws := n\<rparr>)"
    using assms(4) by (simp add: httpLogger_def EXCLUDED_PATHS_def)
  ultimately have "createApp P X routes req w = (Inr (Some ?r), w\<lparr>draws := n\<rparr>)"
    by (rule createApp_run [OF assms(1) i_def n_def])
  then show ?thesis by (auto simp: send_json_def)
qed

lemma health_touches_nothing_witness:
  "\<exists>res n. createApp demo demo_outside [] demo_health world0 = (Inr (Some res), world0\<lparr>draws := n\<rparr>) \<and> rs_status res = 200"
  using health_touches_nothing [OF demo_cors demo_health_path(2,1,3)] by blast

lemma httpLogger_tables:
  "\<exists>w'. httpLogger req res w = (Inr (), w') \<and> users w' = users w \<and> refresh_tokens w' = refresh_tokens w \<and>
    tenant_encryption_keys w' = tenant_encryption_keys w \<and> audit_log w' = audit_log w"
  by (cases "List.member EXCLUDED_PATHS (rq_path req)") (simp_all add: httpLogger_def log_run del: member_def)

lemma readyHandler_run:
  "\<exists>res1 w1. readyHandler P req res w = (Inr (Respond res1), w1) \<and>
    rs_status res1 = (if pg_fate w (ext_n w) = Served \<and> (\<exists>x. fst (redis_call P PING (tick w)) = Inr x) then 200 else 503) \<and>
    users w1 = users w \<and> refresh_tokens w1 = refresh_tokens w \<and> tenant_encryption_keys w1 = tenant_encryption_keys w \<and>
    audit_log w1 = audit_log w"
proof -
  obtain a where a: "settled_call (pg (pure ())) w = (Inr a, tick w)" "a = None \<longleftrightarrow> pg_fate w (ext_n w) = Served"
    by (cases "pg_fate w (ext_n w)") (auto simp: settled_call_def pg_def Let_def)
  obtain r w2 where r: "redis_call P PING (tick w) = (r, w2)" by fastforce
  then obtain b where b: "settled_call (redis_call P PING) (tick w) = (Inr b, w2)" "b = None \<longleftrightarrow> (\<exists>x. r = Inr x)"
    by (cases r) (auto simp: settled_call_def)
  have "users w2 = users w" "refresh_tokens w2 = refresh_tokens w" "tenant_encryption_keys w2 = tenant_encryption_keys w"
    "audit_log w2 = audit_log w" using redis_run [OF r] by auto
  then show ?thesis using a(2) b(2) r
    by (cases a; cases b) (auto simp: readyHandler_def await_run a(1) b(1) log_run Let_def send_json_def)
qed

text \<open>
  The readiness probe answers 200 exactly when both PostgreSQL and Redis answered, and 503
  otherwise, never an error, and it changes no table.
\<close>

theorem ready_iff_stores_answer:
  assumes "cors X (cors_origins P) req (helmet X initial_response) = Continue req1 res1"
    and "rq_method req1 = ''GET''" and "resourcePath req1 = ''/ready''"
  shows "\<exists>res w'. createApp P X routes req w = (Inr (Some res), w') \<and>
    rs_status res = (if pg_fate w (ext_n w) = Served \<and>
      (\<exists>x r. redisExec P PING (clock (tick (tick w))) (redis w) = (Inr x, r)) then 200 else 503) \<and>
    users w' = users w \<and> refresh_tokens w' = refresh_tokens w \<and> audit_log w' = audit_log w"
proof -
  define i where "i = (case header ''x-request-id'' req1 of Some i \<Rightarrow> i | None \<Rightarrow> uuids w (draws w))"
  define n where "n = (if header ''x-request-id'' req1 = None then Suc (draws w) else draws w)"
  let ?req = "req1\<lparr>rq_requestId := i\<rparr>" and ?res = "setHeader ''X-Request-ID'' i res1" and ?w = "w\<lparr>draws := n\<rparr>"
  have "second ?req = CHR ''r''" using assms(3) by (simp add: second_def toLowerCase_def lower_char_def)
  then have b: "app_use (bodyParsers X) (Continue ?req ?res) = pure (Continue ?req ?res)"
    by (simp add: body_stage.use_away)
  have "norm_path ''/ready'' \<noteq> norm_path ''/health''" by (simp add: norm_probes)
  then have sys: "systemRouter P (uptime X) (resourcePath ?req) ?req ?res = readyHandler P ?req ?res"
    using assms(2,3) by (simp add: systemRouter_def is_route_def)
  obtain r w1 where run: "readyHandler P ?req ?res ?w = (Inr (Respond r), w1)"
    and st: "rs_status r = (if pg_fate ?w (ext_n ?w) = Served \<and> (\<exists>x. fst (redis_call P PING (tick ?w)) = Inr x) then 200 else 503)"
    and tb: "users w1 = users ?w" "refresh_tokens w1 = refresh_tokens ?w" "audit_log w1 = audit_log ?w"
    using readyHandler_run [of P ?req ?res ?w] by blast
  have "app_use (\<lambda>req. systemRouter P (uptime X) (resourcePath req) req) (Continue ?req ?res) ?w = (Inr (Respond r), w1)"
    by (rule app_use_respond) (simp only: sys run)
  then have p: "pipeline P X routes (Continue ?req ?res) ?w = (Inr (Some r), w1)"
    by (intro pipeline_answered) (simp_all only: b pure_run)
  obtain w' where l: "httpLogger ?req r w1 = (Inr (), w')" and tb': "users w' = users w1" "refresh_tokens w' = refresh_tokens w1"
      "audit_log w' = audit_log w1" using httpLogger_tables by blast
  have "createApp P X routes req w = (Inr (Some r), w')" by (rule createApp_run [OF assms(1) i_def n_def p l])
  moreover have "(\<exists>x. fst (redis_call P PING (tick ?w)) = Inr x) \<longleftrightarrow> (\<exists>x r. redisExec P PING (clock (tick (tick w))) (redis w) = (Inr x, r))"
    by (cases "redisExec P PING (clock (tick (tick w))) (redis w)"; cases "fst (redisExec P PING (clock (tick (tick w))) (redis w))")
      (auto simp: redis_call_def Let_def tick_def)
  ultimately show ?thesis using st tb tb' by simp
qed

definition demo_probe :: request where
  "demo_probe = demo_request\<lparr>rq_originalUrl := ''/ready'', rq_path := ''/ready''\<rparr>"

lemma ready_iff_stores_answer_witness:
  "\<exists>res w'. createApp demo demo_outside [] demo_probe (world0\<lparr>pg_fate := \<lambda>_. Refused\<rparr>) = (Inr (Some res), w') \<and>
    rs_status res = 503"
proof -
  have "rq_method demo_probe = ''GET''" "resourcePath demo_probe = ''/ready''"
    by (simp_all add: demo_probe_def resourcePath_def demo_request_def)
  from ready_iff_stores_answer [OF demo_cors this, of "[]" "world0\<lparr>pg_fate := \<lambda>_. Refused\<rparr>"] show ?thesis by auto
qed

section \<open>In front of the auth endpoints\<close>

lemma app_use_fail:
  "m req res w = (Inr (Fail e req1 res1), w1) \<Longrightarrow> errorHandler (AppExn e) req1 res1 w1 = (Inr r, w2) \<Longrightarrow>
     app_use m (Continue req res) w = (Inr (Respond r), w2)"
  by (simp add: app_use_def handle_errors_def)

lemma app_use_reject:
  "m req res w = (Inl e, w1) \<Longrightarrow> errorHandler e req res w1 = (Inr r, w2) \<Longrightarrow>
     app_use m (Continue req res) w = (Inr (Respond r), w2)"
  by (simp add: app_use_def handle_errors_def)

lemma auth_second: "auth_or_oauth req \<Longrightarrow> second req = CHR ''v''"
  using mounted_second [of "''/v1/auth''" req] mounted_second [of "''/v1/oauth''" req] by (auto simp: auth_or_oauth_def)

lemma auth_upd [simp]: "auth_or_oauth (req\<lparr>rq_requestId := i\<rparr>) = auth_or_oauth req"
  "auth_or_oauth (req\<lparr>rq_body := b\<rparr>) = auth_or_oauth req"
  by (simp_all add: auth_or_oauth_def mounted_def resourcePath_def)

lemma second_body [simp]: "second (req\<lparr>rq_body := b\<rparr>) = second req"
  by (simp add: second_def resourcePath_def)

text \<open>
  A body the parser refuses (malformed JSON, or too large) is answered as an internal error,
  status 500, not as the client's: the global handler knows only \<open>AppError\<close>. No table changes
  and the request is not counted.
\<close>

theorem malformed_body_500:
  assumes "cors X (cors_origins P) req (helmet X initial_response) = Continue req1 res1"
    and "auth_or_oauth req1" and "\<forall>i. parseBody X (req1\<lparr>rq_requestId := i\<rparr>) = Inl (JsError m)"
  shows "\<exists>res w'. createApp P X routes req w = (Inr (Some res), w') \<and> rs_status res = 500 \<and>
    users w' = users w \<and> refresh_tokens w' = refresh_tokens w \<and> audit_log w' = audit_log w \<and> redis w' = redis w"
proof -
  define i where "i = (case header ''x-request-id'' req1 of Some i \<Rightarrow> i | None \<Rightarrow> uuids w (draws w))"
  define n where "n = (if header ''x-request-id'' req1 = None then Suc (draws w) else draws w)"
  let ?req = "req1\<lparr>rq_requestId := i\<rparr>" and ?res = "setHeader ''X-Request-ID'' i res1" and ?w = "w\<lparr>draws := n\<rparr>"
  have b: "bodyParsers X ?req ?res ?w = (Inl (JsError m), ?w)" using assms(2,3) by (simp add: bodyParsers_def)
  obtain r w1 where e: "errorHandler (JsError m) ?req ?res ?w = (Inr r, w1)" "rs_status r = 500" "redis w1 = redis ?w"
     "users w1 = users ?w" "refresh_tokens w1 = refresh_tokens ?w" "audit_log w1 = audit_log ?w"
    by (simp add: errorHandler_def await_run log_run send_json_def)
  have "pipeline P X routes (Continue ?req ?res) ?w = (Inr (Some r), w1)"
    using app_use_reject [of "bodyParsers X", OF b e(1)] by (intro pipeline_answered) (auto simp: app_use_answered)
  moreover obtain w' where l: "httpLogger ?req r w1 = (Inr (), w')" and tb: "redis w' = redis w1" "users w' = users w1"
    "refresh_tokens w' = refresh_tokens w1" "audit_log w' = audit_log w1"
    by (cases "rq_path ?req \<in> set EXCLUDED_PATHS") (auto simp: httpLogger_def log_run)
  ultimately have "createApp P X routes req w = (Inr (Some r), w')" 
    by (intro createApp_run [OF assms(1) i_def n_def _ l])
  with e tb show ?thesis by auto
qed

definition demo_login_request :: request where
  "demo_login_request = demo_request\<lparr>rq_method := ''POST'', rq_originalUrl := ''/v1/auth/login''\<rparr>"

lemma demo_login_path: "auth_or_oauth demo_login_request"
  by (simp add: auth_or_oauth_def mounted_def demo_login_request_def resourcePath_def Let_def toLowerCase_def
      lower_char_def)

lemma malformed_body_500_witness:
  "\<exists>res w'. createApp demo (demo_outside\<lparr>parseBody := \<lambda>_. Inl (JsError ''Unexpected token'')\<rparr>) [] demo_login_request world0 =
     (Inr (Some res), w') \<and> rs_status res = 500"
  using malformed_body_500 [of "demo_outside\<lparr>parseBody := \<lambda>_. Inl (JsError ''Unexpected token'')\<rparr>" demo demo_login_request
      demo_login_request initial_response "''Unexpected token''" "[]" world0] demo_login_path
  by (auto simp: demo_outside_def)

end
