(* ===== verification/RefreshProofs.thy ===== *)
theory RefreshProofs
  imports Refresh
begin

text \<open>
  The session-family machine: what the refresh-token service may do to its table is one
  inductive relation (\<open>row_step\<close>), every operation of the service refines it, and the
  guarantees (one live token per family, a dead family stays dead, a replay kills the family)
  are invariants of the relation.
\<close>

section \<open>The abstract machine\<close>

definition adds :: "string \<Rightarrow> string \<Rightarrow> string \<Rightarrow> refresh_row list \<Rightarrow> refresh_row list \<Rightarrow> bool" where
  "adds u f h rows rows' \<longleftrightarrow> (\<exists>r. rows' = rows @ [r] \<and> rt_userId r = u \<and> rt_sessionFamily r = f \<and>
     rt_tokenHash r = h \<and> rt_revokedAt r = None \<and> rt_id r \<notin> rt_id ` set rows \<and> h \<notin> rt_tokenHash ` set rows)"

inductive row_step :: "refresh_row list \<Rightarrow> refresh_row list \<Rightarrow> bool" where
  stay: "row_step rows rows"
| revoke: "row_step rows (set_where c (revoke_row t s) rows)"
| rotate: "row \<in> set rows \<Longrightarrow> rt_revokedAt row = None \<Longrightarrow>
     adds (rt_userId row) (rt_sessionFamily row) h
       (set_where (\<lambda>r. rt_id r = rt_id row) (revoke_row t s) rows) rows' \<Longrightarrow> row_step rows rows'"
| start: "f \<notin> rt_sessionFamily ` set rows \<Longrightarrow> adds u f h rows rows' \<Longrightarrow> row_step rows rows'"

inductive_cases row_stepE: "row_step rows rows'"

lemma revoke_row_simps [simp]:
  "rt_id (revoke_row t s r) = rt_id r" "rt_userId (revoke_row t s r) = rt_userId r"
  "rt_tokenHash (revoke_row t s r) = rt_tokenHash r"
  "rt_sessionFamily (revoke_row t s r) = rt_sessionFamily r"
  "rt_revokedAt (revoke_row t s r) = Some t" "rt_expiresAt (revoke_row t s r) = rt_expiresAt r"
  "rt_revocationReason (revoke_row t s r) = Some s"
  by (simp_all add: revoke_row_def)

lemma map_revoke [simp]:
  "map rt_id (set_where c (revoke_row t s) rows) = map rt_id rows"
  "map rt_tokenHash (set_where c (revoke_row t s) rows) = map rt_tokenHash rows"
  "map rt_sessionFamily (set_where c (revoke_row t s) rows) = map rt_sessionFamily rows"
  "map rt_userId (set_where c (revoke_row t s) rows) = map rt_userId rows"
  by (simp_all add: map_set_where)

definition active :: "refresh_row \<Rightarrow> bool" where
  "active r \<longleftrightarrow> rt_revokedAt r = None"

lemma active_revoke [simp]: "\<not> active (revoke_row t s r)"
  by (simp add: active_def)

lemma in_revoked:
  "r \<in> set (set_where c (revoke_row t s) rows) \<Longrightarrow> active r \<Longrightarrow> r \<in> set rows \<and> \<not> c r"
  by (metis active_revoke in_set_where)

lemma in_revoked_origin:
  "r \<in> set (set_where c (revoke_row t s) rows) \<Longrightarrow> \<exists>r0 \<in> set rows. rt_sessionFamily r0 = rt_sessionFamily r \<and>
     rt_userId r0 = rt_userId r \<and> rt_tokenHash r0 = rt_tokenHash r \<and> rt_id r0 = rt_id r"
  by (auto simp: in_set_where split: if_splits)

section \<open>Its invariant\<close>

definition family_inv :: "refresh_row list \<Rightarrow> bool" where
  "family_inv rows \<longleftrightarrow> distinct (map rt_id rows) \<and> distinct (map rt_tokenHash rows) \<and>
     (\<forall>r \<in> set rows. \<forall>r' \<in> set rows. rt_sessionFamily r = rt_sessionFamily r' \<longrightarrow> rt_userId r = rt_userId r') \<and>
     (\<forall>r \<in> set rows. \<forall>r' \<in> set rows. active r \<longrightarrow> active r' \<longrightarrow>
        rt_sessionFamily r = rt_sessionFamily r' \<longrightarrow> rt_id r = rt_id r')"

lemma family_user:
  "family_inv rows \<Longrightarrow> r \<in> set rows \<Longrightarrow> r' \<in> set rows \<Longrightarrow> rt_sessionFamily r = rt_sessionFamily r' \<Longrightarrow>
     rt_userId r = rt_userId r'"
  unfolding family_inv_def by blast

lemma family_one:
  "family_inv rows \<Longrightarrow> r \<in> set rows \<Longrightarrow> r' \<in> set rows \<Longrightarrow> active r \<Longrightarrow> active r' \<Longrightarrow>
     rt_sessionFamily r = rt_sessionFamily r' \<Longrightarrow> rt_id r = rt_id r'"
  unfolding family_inv_def by blast

lemma family_inv_revoke:
  assumes "family_inv rows"
  shows "family_inv (set_where c (revoke_row t s) rows)"
  unfolding family_inv_def
proof (intro conjI ballI impI)
  show "distinct (map rt_id (set_where c (revoke_row t s) rows))"
    and "distinct (map rt_tokenHash (set_where c (revoke_row t s) rows))"
    using assms by (simp_all add: family_inv_def)
next
  fix r r' assume r: "r \<in> set (set_where c (revoke_row t s) rows)"
    "r' \<in> set (set_where c (revoke_row t s) rows)" and f: "rt_sessionFamily r = rt_sessionFamily r'"
  from in_revoked_origin [OF r(1)] obtain a where a: "a \<in> set rows"
    "rt_sessionFamily a = rt_sessionFamily r" "rt_userId a = rt_userId r" by blast
  from in_revoked_origin [OF r(2)] obtain b where b: "b \<in> set rows"
    "rt_sessionFamily b = rt_sessionFamily r'" "rt_userId b = rt_userId r'" by blast
  show "rt_userId r = rt_userId r'" using family_user [OF assms a(1) b(1)] a b f by simp
next
  fix r r' assume r: "r \<in> set (set_where c (revoke_row t s) rows)"
    "r' \<in> set (set_where c (revoke_row t s) rows)" and a: "active r" "active r'"
    and f: "rt_sessionFamily r = rt_sessionFamily r'"
  then show "rt_id r = rt_id r'"
    using in_revoked [OF r(1) a(1)] in_revoked [OF r(2) a(2)] family_one [OF assms] a by blast
qed

lemma family_inv_adds:
  assumes inv: "family_inv rows" and add: "adds u f h rows rows'"
    and user: "\<And>r. r \<in> set rows \<Longrightarrow> rt_sessionFamily r = f \<Longrightarrow> rt_userId r = u"
    and dead: "\<And>r. r \<in> set rows \<Longrightarrow> rt_sessionFamily r = f \<Longrightarrow> \<not> active r"
  shows "family_inv rows'"
proof -
  obtain n where rows': "rows' = rows @ [n]" and n: "rt_userId n = u" "rt_sessionFamily n = f"
    "rt_id n \<notin> rt_id ` set rows" "rt_tokenHash n \<notin> rt_tokenHash ` set rows"
    using add by (auto simp: adds_def)
  have ids: "distinct (map rt_id rows')" "distinct (map rt_tokenHash rows')"
    using inv n by (simp_all add: family_inv_def rows')
  have old: "r \<in> set rows" if "r \<in> set rows'" "r \<noteq> n" for r using that by (simp add: rows')
  have usr: "rt_userId r = u" if "r \<in> set rows'" "rt_sessionFamily r = f" for r
    using old [OF that(1)] user n(1) that(2) by (cases "r = n") auto
  have act: "r = n" if "r \<in> set rows'" "rt_sessionFamily r = f" "active r" for r
    using old [OF that(1)] dead that by blast
  have "rt_userId r = rt_userId r'"
    if "r \<in> set rows'" "r' \<in> set rows'" "rt_sessionFamily r = rt_sessionFamily r'" for r r'
  proof (cases "rt_sessionFamily r = f")
    case True
    then show ?thesis using usr that by simp
  next
    case False
    then have ne: "r \<noteq> n" "r' \<noteq> n" using n(2) that(3) by auto
    show ?thesis by (rule family_user [OF inv old [OF that(1) ne(1)] old [OF that(2) ne(2)] that(3)])
  qed
  moreover have "rt_id r = rt_id r'"
    if "r \<in> set rows'" "r' \<in> set rows'" "active r" "active r'" "rt_sessionFamily r = rt_sessionFamily r'" for r r'
  proof (cases "rt_sessionFamily r = f")
    case True
    then have "rt_sessionFamily r' = f" using that(5) by simp
    then show ?thesis using act [OF that(1) True that(3)] act [OF that(2) _ that(4)] by blast
  next
    case False
    then have ne: "r \<noteq> n" "r' \<noteq> n" using n(2) that(5) by auto
    show ?thesis
      by (rule family_one [OF inv old [OF that(1) ne(1)] old [OF that(2) ne(2)] that(3,4,5)])
  qed
  ultimately show ?thesis using ids unfolding family_inv_def by blast
qed

lemma row_step_inv:
  assumes "row_step rows rows'" and inv: "family_inv rows"
  shows "family_inv rows'"
  using assms(1)
proof cases
  case stay then show ?thesis using inv by simp
next
  case (revoke c t s) then show ?thesis using family_inv_revoke [OF inv] by simp
next
  case (rotate row h t s)
  show ?thesis
  proof (rule family_inv_adds [OF family_inv_revoke [OF inv] rotate(3)])
    fix r assume r: "r \<in> set (set_where (\<lambda>r. rt_id r = rt_id row) (revoke_row t s) rows)"
      and f: "rt_sessionFamily r = rt_sessionFamily row"
    from in_revoked_origin [OF r] obtain a where a: "a \<in> set rows"
      "rt_sessionFamily a = rt_sessionFamily r" "rt_userId a = rt_userId r" by blast
    then show "rt_userId r = rt_userId row" using family_user [OF inv a(1) rotate(1)] f by simp
    show "\<not> active r"
      using in_revoked [OF r] family_one [OF inv _ rotate(1)] rotate(2) f by (auto simp: active_def)
  qed
next
  case (start f u h)
  show ?thesis by (rule family_inv_adds [OF inv start(2)]) (use start(1) in auto)
qed

text \<open>A family that exists and has no live token never gets one again.\<close>

definition dead :: "string \<Rightarrow> refresh_row list \<Rightarrow> bool" where
  "dead f rows \<longleftrightarrow> f \<in> rt_sessionFamily ` set rows \<and>
     (\<forall>r \<in> set rows. rt_sessionFamily r = f \<longrightarrow> \<not> active r)"

lemma families_revoke: "rt_sessionFamily ` set (set_where c (revoke_row t s) rows) = rt_sessionFamily ` set rows"
  using map_revoke(3) by (metis set_map)

lemma dead_revoke: "dead f rows \<Longrightarrow> dead f (set_where c (revoke_row t s) rows)"
  unfolding dead_def families_revoke using in_revoked by blast

lemma dead_adds: "dead f rows \<Longrightarrow> adds u f' h rows rows' \<Longrightarrow> f' \<noteq> f \<Longrightarrow> dead f rows'"
  by (auto simp: dead_def adds_def)

lemma row_step_dead:
  assumes "row_step rows rows'" and d: "dead f rows"
  shows "dead f rows'"
  using assms(1)
proof cases
  case stay then show ?thesis using d by simp
next
  case (revoke c t s) then show ?thesis using dead_revoke [OF d] by simp
next
  case (rotate row h t s)
  have "rt_sessionFamily row \<noteq> f" using rotate(1,2) d by (auto simp: dead_def active_def)
  then show ?thesis using dead_adds [OF dead_revoke [OF d] rotate(3)] by simp
next
  case (start f' u h)
  have "f' \<noteq> f" using start(1) d by (auto simp: dead_def)
  then show ?thesis using dead_adds [OF d start(2)] by simp
qed

lemma row_steps_inv: "row_step\<^sup>*\<^sup>* rows rows' \<Longrightarrow> family_inv rows \<Longrightarrow> family_inv rows'"
  by (induction rule: rtranclp_induct) (auto intro: row_step_inv)

lemma row_steps_dead: "row_step\<^sup>*\<^sup>* rows rows' \<Longrightarrow> dead f rows \<Longrightarrow> dead f rows'"
  by (induction rule: rtranclp_induct) (auto intro: row_step_dead)

section \<open>The effects of the queries\<close>

lemma revoke_where_cases:
  assumes "revoke_where c s w = (r, w')"
  shows "isl r \<and> refresh_tokens w' = refresh_tokens w \<or>
    refresh_tokens w' = set_where c (revoke_row (clock w) s) (refresh_tokens w)"
  using assms by (auto simp: revoke_where_def now_def pg_def Let_def split: fate.splits)

lemma revoke_where_frame:
  "revoke_where c s w = (r, w') \<Longrightarrow> users w' = users w"
  by (auto simp: revoke_where_def now_def pg_def Let_def split: fate.splits)

lemma insert_refresh_cases:
  assumes "insert_refresh_token u m h f e w = (r, w')"
  shows "isl r \<and> refresh_tokens w' = refresh_tokens w \<or> adds u f h (refresh_tokens w) (refresh_tokens w')"
proof -
  let ?i = "uuids w (draws w)" and ?rows = "refresh_tokens w"
  consider "u \<notin> ur_id ` set (users w)" | "u \<in> ur_id ` set (users w)" "?i \<in> rt_id ` set ?rows"
    | "u \<in> ur_id ` set (users w)" "?i \<notin> rt_id ` set ?rows" "h \<in> rt_tokenHash ` set ?rows"
    | "u \<in> ur_id ` set (users w)" "?i \<notin> rt_id ` set ?rows" "h \<notin> rt_tokenHash ` set ?rows" by blast
  then show ?thesis
  proof cases
    case 4
    with assms show ?thesis
      by (cases "pg_fate w (ext_n w)")
        (auto simp: insert_refresh_token_def pg_def Let_def await_run randomUUID_run now_run adds_def
          new_refresh_row_def)
  qed (use assms in \<open>cases "pg_fate w (ext_n w)";
        auto simp: insert_refresh_token_def pg_def Let_def await_run randomUUID_run now_run\<close>)+
qed

lemma issueRefreshToken_cases:
  assumes "issueRefreshToken P u m fam w = (r, w')"
  defines "f \<equiv> (case fam of Some g \<Rightarrow> g | None \<Rightarrow> uuids w (draws w))"
  shows "isl r \<and> refresh_tokens w' = refresh_tokens w \<or>
    (\<exists>h. adds u f h (refresh_tokens w) (refresh_tokens w') \<and> (\<forall>x. r = Inr x \<longrightarrow>
       ir_tokenHash x = h \<and> h = hashRefreshToken P (ir_plaintext x) \<and> ir_sessionFamily x = f))"
proof -
  obtain w0 where w0: "(case fam of Some f \<Rightarrow> pure f | None \<Rightarrow> randomUUID) w = (Inr f, w0)"
    and rows0: "refresh_tokens w0 = refresh_tokens w"
    by (cases fam) (simp_all add: f_def randomUUID_run)
  let ?pt = "base64url (map (entropy w0 (draws w0)) [0..<32])"
  let ?h = "hashRefreshToken P ?pt" and ?w1 = "w0\<lparr>draws := Suc (draws w0)\<rparr>"
  let ?e = "clock w0 + REFRESH_TOKEN_TTL_SECONDS (env P) * 1000"
  obtain r2 w2 where ins: "insert_refresh_token u m ?h f ?e ?w1 = (r2, w2)" by fastforce
  then have run: "r = (case r2 of Inl e \<Rightarrow> Inl e | Inr _ \<Rightarrow> Inr \<lparr>ir_plaintext = ?pt, ir_tokenHash = ?h,
      ir_sessionFamily = f, ir_expiresAt = ?e\<rparr>)" and w': "w' = w2"
    using assms(1) w0 by (auto simp: issueRefreshToken_def generatePlaintext_def await_run randomBytes_run
        secondsFromNow_run Let_def split: sum.splits)
  from insert_refresh_cases [OF ins] show ?thesis
    by (cases r2) (auto simp: run w' rows0 intro: exI [of _ ?h])
qed

lemma cacheRevocation_rows:
  "cacheRefreshTokenRevocation P h e w = (r, w') \<Longrightarrow> refresh_tokens w' = refresh_tokens w"
  by (rule keepsD [OF keeps_cacheRevocation]) simp_all

end
