(* ===== verification/Sessions.thy ===== *)
theory Sessions
  imports RefreshProofs
begin

text \<open>
  The refresh-token service refines the session-family machine: each operation is a step of
  \<open>row_step\<close> on its table. From that, and from what each operation returns: rotation, replay
  detection, revocation, and the race two concurrent rotations can win together.
\<close>

section \<open>The operations, on the table\<close>

lemma audit_rows: "writeAuditEvent e w = (r, w') \<Longrightarrow> refresh_tokens w' = refresh_tokens w"
  by (rule keepsD [OF keeps_writeAudit]) simp_all

lemma revokeAll_rows:
  "promise_all (\<lambda>row. cacheRefreshTokenRevocation P (rt_tokenHash row) (rt_expiresAt row)) xs w = (r, w') \<Longrightarrow>
     refresh_tokens w' = refresh_tokens w"
  by (rule keepsD [OF keeps_promise_all [OF keeps_cacheRevocation]]) simp_all

lemma select_tick: "select_rows t c w = (r, w') \<Longrightarrow> w' = tick w"
  by (auto simp: select_rows_def pg_def Let_def split: fate.splits)

lemma find_tick: "find_by_hash h w = (r, w') \<Longrightarrow> w' = tick w"
  by (auto simp: find_by_hash_def await_run dest: select_tick split: prod.splits sum.splits)

lemma revoke_family_dead:
  "\<forall>r \<in> set (set_where (in_family f) (revoke_row t s) rows). rt_sessionFamily r = f \<longrightarrow> \<not> active r"
proof (intro ballI impI notI)
  fix r assume "r \<in> set (set_where (in_family f) (revoke_row t s) rows)"
    and "rt_sessionFamily r = f" and "active r"
  then show False using in_revoked by (fastforce simp: in_family_def active_def)
qed

lemma revokeSessionFamily_rows:
  assumes "revokeSessionFamily P f s w = (r, w')"
  shows "refresh_tokens w' = refresh_tokens w \<and> (isl r \<or> (\<forall>x \<in> set (refresh_tokens w). \<not> in_family f x)) \<or>
    (\<exists>t. refresh_tokens w' = set_where (in_family f) (revoke_row t s) (refresh_tokens w))"
proof -
  obtain r1 w1 where sel: "select_rows refresh_tokens (in_family f) w = (r1, w1)" by fastforce
  have rows1: "refresh_tokens w1 = refresh_tokens w"
    using select_tick [OF sel] by simp
  show ?thesis
  proof (cases r1)
    case (Inl e)
    with assms sel rows1 show ?thesis by (auto simp: revokeSessionFamily_def)
  next
    case (Inr xs)
    then have xs: "xs = filter (in_family f) (refresh_tokens w)" using sel by (auto simp: select_Inr)
    show ?thesis
    proof (cases "xs = []")
      case True
      with assms sel Inr have "w' = w1" by (simp add: revokeSessionFamily_def)
      then show ?thesis using True rows1 unfolding xs by (simp add: filter_empty_conv)
    next
      case False
      obtain r2 w2 where rv: "revoke_where (in_family f) s w1 = (r2, w2)" by fastforce
      note rows2 = revoke_where_cases [OF rv, unfolded rows1]
      show ?thesis
      proof (cases r2)
        case (Inl e)
        with assms sel \<open>r1 = Inr xs\<close> False rv have "r = Inl e" "w' = w2" by (simp_all add: revokeSessionFamily_def)
        then show ?thesis using rows2 by auto
      next
        case (Inr u)
        have "refresh_tokens w' = refresh_tokens w2"
          using assms sel \<open>r1 = Inr xs\<close> False rv Inr revokeAll_rows by (auto simp: revokeSessionFamily_def)
        then show ?thesis using rows2 Inr by auto
      qed
    qed
  qed
qed

lemma revokeSessionFamily_cases:
  assumes "revokeSessionFamily P f s w = (r, w')"
  shows "row_step (refresh_tokens w) (refresh_tokens w') \<and>
    rt_sessionFamily ` set (refresh_tokens w') = rt_sessionFamily ` set (refresh_tokens w) \<and>
    (\<not> isl r \<longrightarrow> (\<forall>x \<in> set (refresh_tokens w'). rt_sessionFamily x = f \<longrightarrow> \<not> active x))"
  using revokeSessionFamily_rows [OF assms]
proof (elim disjE conjE exE, goal_cases)
  case (3 t) then show ?case using revoke_family_dead [of f t s "refresh_tokens w"]
    by (simp add: families_revoke revoke)
qed (auto simp: in_family_def active_def intro: stay)

text \<open>What \<open>rotate_row\<close> does, for any row it is given.\<close>

lemma rotate_row_revoked:
  assumes "rt_revokedAt row \<noteq> None" and "rotate_row P h m row w = (r, w')"
  shows "row_step (refresh_tokens w) (refresh_tokens w') \<and>
    rt_sessionFamily ` set (refresh_tokens w') = rt_sessionFamily ` set (refresh_tokens w) \<and>
    (\<forall>x. r = Inr x \<longrightarrow> x = Inl token_reuse_default \<and>
       (\<forall>y \<in> set (refresh_tokens w'). rt_sessionFamily y = rt_sessionFamily row \<longrightarrow> \<not> active y))"
proof -
  obtain r1 w1 where rv: "revokeSessionFamily P (rt_sessionFamily row) ''reuse_detected'' w = (r1, w1)"
    by fastforce
  note cs = revokeSessionFamily_cases [OF rv]
  show ?thesis
  proof (cases r1)
    case (Inl e)
    with assms rv cs show ?thesis by (auto simp: rotate_row_def)
  next
    case (Inr u)
    obtain w2 where au: "writeAuditEvent ((audit_event ''auth.token_refresh_failed'' ''denied'')
          \<lparr>user_id := Some (rt_userId row), failure_reason := Some ''token_reuse_detected'',
           metadata := Some [(''session_family'', rt_sessionFamily row)]\<rparr>) w1 = (Inr (), w2)"
      using writeAudit_Inr by blast
    with assms rv Inr have "r = Inr (Inl token_reuse_default)" "w' = w2"
      by (auto simp: rotate_row_def err_def)
    with cs Inr audit_rows [OF au] show ?thesis by auto
  qed
qed

definition rotated_rows :: "refresh_row \<Rightarrow> string \<Rightarrow> refresh_row list \<Rightarrow> refresh_row list \<Rightarrow> bool" where
  "rotated_rows row h rows rows' \<longleftrightarrow> (\<exists>t. adds (rt_userId row) (rt_sessionFamily row) h
     (set_where (\<lambda>r. rt_id r = rt_id row) (revoke_row t ''rotation'') rows) rows')"

lemma rotate_row_parts:
  assumes "rt_revokedAt row = None" and "\<not> rt_expiresAt row \<le> clock w" and "rotate_row P h m row w = (r, w')"
  obtains r1 w1 r2 w2 r3 w3 where "revoke_where (\<lambda>r. rt_id r = rt_id row) ''rotation'' w = (r1, w1)"
    and "refresh_tokens w2 = refresh_tokens w1"
    and "issueRefreshToken P (rt_userId row) m (Some (rt_sessionFamily row)) w2 = (r3, w3)"
    and "(r, w') = (case r1 of Inl e \<Rightarrow> (Inl e, w1) | Inr _ \<Rightarrow> (case r2 of Inl e \<Rightarrow> (Inl e, w2)
      | Inr (_ :: unit) \<Rightarrow> (case r3 of Inl e \<Rightarrow> (Inl e, w3) | Inr y \<Rightarrow>
          (Inr (Inr \<lparr>rr_userId = rt_userId row, rr_issued = y\<rparr>), w3))))"
proof -
  obtain r1 w1 where rv: "revoke_where (\<lambda>r. rt_id r = rt_id row) ''rotation'' w = (r1, w1)" by fastforce
  obtain r2 w2 where ca: "cacheRefreshTokenRevocation P h (rt_expiresAt row) w1 = (r2, w2)" by fastforce
  obtain r3 w3 where iss: "issueRefreshToken P (rt_userId row) m (Some (rt_sessionFamily row)) w2 = (r3, w3)"
    by fastforce
  show thesis
    by (rule that [OF rv cacheRevocation_rows [OF ca] iss, of r2])
      (use assms rv ca iss in \<open>auto simp: rotate_row_def await_run now_run ok_def split: sum.splits\<close>)
qed

lemma rotate_row_active:
  assumes "rt_revokedAt row = None" and "rotate_row P h m row w = (r, w')"
  shows "(refresh_tokens w' = refresh_tokens w \<and> (\<forall>x. r \<noteq> Inr (Inr x)) \<or>
      (\<exists>t. refresh_tokens w' = set_where (\<lambda>r. rt_id r = rt_id row) (revoke_row t ''rotation'') (refresh_tokens w)) \<and> isl r \<or>
      (\<exists>h'. rotated_rows row h' (refresh_tokens w) (refresh_tokens w') \<and> (\<forall>x. r = Inr x \<longrightarrow>
         (\<exists>y. x = Inr y \<and> rr_userId y = rt_userId row \<and> ir_tokenHash (rr_issued y) = h' \<and>
            h' = hashRefreshToken P (ir_plaintext (rr_issued y)) \<and>
            ir_sessionFamily (rr_issued y) = rt_sessionFamily row)))) \<and>
    (\<forall>x. r = Inr (Inr x) \<longrightarrow> clock w < rt_expiresAt row)"
proof (cases "rt_expiresAt row \<le> clock w")
  case True
  with assms show ?thesis by (auto simp: rotate_row_def await_run now_run err_def)
next
  case False
  obtain r1 w1 r2 w2 r3 w3 where rv: "revoke_where (\<lambda>r. rt_id r = rt_id row) ''rotation'' w = (r1, w1)"
    and c2: "refresh_tokens w2 = refresh_tokens w1"
    and iss: "issueRefreshToken P (rt_userId row) m (Some (rt_sessionFamily row)) w2 = (r3, w3)"
    and run: "(r, w') = (case r1 of Inl e \<Rightarrow> (Inl e, w1) | Inr _ \<Rightarrow> (case r2 of Inl e \<Rightarrow> (Inl e, w2)
      | Inr (_ :: unit) \<Rightarrow> (case r3 of Inl e \<Rightarrow> (Inl e, w3) | Inr y \<Rightarrow>
          (Inr (Inr \<lparr>rr_userId = rt_userId row, rr_issued = y\<rparr>), w3))))"
    using rotate_row_parts [OF assms(1) False assms(2)] .
  let ?R = "set_where (\<lambda>r. rt_id r = rt_id row) (revoke_row (clock w) ''rotation'') (refresh_tokens w)"
  have c1: "isl r1 \<and> refresh_tokens w1 = refresh_tokens w \<or> refresh_tokens w1 = ?R"
    using revoke_where_cases [OF rv] .
  have c3: "isl r3 \<and> refresh_tokens w3 = refresh_tokens w2 \<or>
    (\<exists>h'. adds (rt_userId row) (rt_sessionFamily row) h' (refresh_tokens w2) (refresh_tokens w3) \<and>
      (\<forall>x. r3 = Inr x \<longrightarrow> ir_tokenHash x = h' \<and> h' = hashRefreshToken P (ir_plaintext x) \<and>
         ir_sessionFamily x = rt_sessionFamily row))"
    using issueRefreshToken_cases [OF iss] by simp
  show ?thesis
  proof (cases r1)
    case (Inl e)
    with run c1 False show ?thesis by auto
  next
    case (Inr u)
    then have rows1: "refresh_tokens w1 = ?R" using c1 by auto
    show ?thesis
    proof (cases r2)
      case (Inl e)
      with run Inr rows1 c2 False show ?thesis by auto
    next
      case r2: (Inr u2)
      from c3 show ?thesis
      proof (elim disjE conjE exE)
        assume "isl r3" "refresh_tokens w3 = refresh_tokens w2"
        with run \<open>r1 = Inr u\<close> r2 rows1 c2 False show ?thesis by (cases r3) auto
      next
        fix h' assume ad: "adds (rt_userId row) (rt_sessionFamily row) h' (refresh_tokens w2) (refresh_tokens w3)"
          and x: "\<forall>x. r3 = Inr x \<longrightarrow> ir_tokenHash x = h' \<and> h' = hashRefreshToken P (ir_plaintext x) \<and>
             ir_sessionFamily x = rt_sessionFamily row"
        have "rotated_rows row h' (refresh_tokens w) (refresh_tokens w3)"
          using ad rows1 c2 by (auto simp: rotated_rows_def)
        with run \<open>r1 = Inr u\<close> r2 x False show ?thesis by (cases r3) auto
      qed
    qed
  qed
qed

lemma rotate_row_step:
  assumes "row \<in> set (refresh_tokens w)" and "rotate_row P h m row w = (r, w')"
  shows "row_step (refresh_tokens w) (refresh_tokens w')"
proof (cases "rt_revokedAt row = None")
  case True
  from rotate_row_active [OF True assms(2)] show ?thesis
  proof (elim conjE disjE exE, goal_cases)
    case 1 then show ?case by (simp add: stay)
  next
    case (2 t) then show ?case by (simp add: revoke)
  next
    case (3 h')
    then obtain t where "adds (rt_userId row) (rt_sessionFamily row) h'
        (set_where (\<lambda>r. rt_id r = rt_id row) (revoke_row t ''rotation'') (refresh_tokens w)) (refresh_tokens w')"
      by (auto simp: rotated_rows_def)
    then show ?case by (rule row_step.rotate [OF assms(1) True])
  qed
next
  case False
  then show ?thesis using rotate_row_revoked [OF _ assms(2)] by blast
qed

lemma rotateRefreshToken_run:
  "rotateRefreshToken P tok m w = (case pg_fate w (ext_n w) of
     Served \<Rightarrow> (case row0 (filter (\<lambda>r. rt_tokenHash r = hashRefreshToken P tok) (refresh_tokens w)) of
        None \<Rightarrow> (Inr (err (UnauthorizedError ''Refresh token is invalid'')), tick w)
      | Some row \<Rightarrow> rotate_row P (hashRefreshToken P tok) m row (tick w))
   | Refused \<Rightarrow> (Inl (PgExn ''connection refused''), tick w)
   | ReplyLost \<Rightarrow> (Inl (PgExn ''connection terminated''), tick w))"
  by (auto simp: rotateRefreshToken_def find_by_hash_def Let_def await_run select_rows_def pg_def
      split: fate.split option.split)

section \<open>Refinement\<close>

lemma rotateRefreshToken_step:
  "row_step (refresh_tokens w) (refresh_tokens (snd (rotateRefreshToken P tok m w)))"
proof (cases "pg_fate w (ext_n w)")
  case Served
  show ?thesis
  proof (cases "row0 (filter (\<lambda>r. rt_tokenHash r = hashRefreshToken P tok) (refresh_tokens w))")
    case None
    with Served show ?thesis by (simp add: rotateRefreshToken_run stay)
  next
    case (Some row)
    obtain r w' where run: "rotate_row P (hashRefreshToken P tok) m row (tick w) = (r, w')" by fastforce
    have "row \<in> set (refresh_tokens (tick w))" using row0_filterD [OF Some] by simp
    from rotate_row_step [OF this run] Served Some run show ?thesis
      by (simp add: rotateRefreshToken_run)
  qed
qed (simp_all add: rotateRefreshToken_run stay)

lemma issueRefreshToken_step:
  assumes "uuids w (draws w) \<notin> rt_sessionFamily ` set (refresh_tokens w)"
  shows "row_step (refresh_tokens w) (refresh_tokens (snd (issueRefreshToken P u m None w)))"
proof -
  obtain r w' where run: "issueRefreshToken P u m None w = (r, w')" by fastforce
  from issueRefreshToken_cases [OF run] show ?thesis using assms by (auto simp: run intro: stay start)
qed

lemma revoke_one_step:
  "row_step (refresh_tokens w) (refresh_tokens (snd (revokeRefreshTokenByHash P h s w)))"
  "row_step (refresh_tokens w) (refresh_tokens (snd (revokeMostRecentRefreshTokenForUser P u s w)))"
proof -
  have one: "row_step (refresh_tokens w) (refresh_tokens (snd (await (revoke_where c s) (\<lambda>_. cacheRefreshTokenRevocation P h e) w)))"
    for w :: "'a world" and c h e
  proof -
    obtain r1 w1 where rv: "revoke_where c s w = (r1, w1)" by fastforce
    obtain r2 w2 where ca: "cacheRefreshTokenRevocation P h e w1 = (r2, w2)" by fastforce
    have "row_step (refresh_tokens w) (refresh_tokens w1)"
      using revoke_where_cases [OF rv] by (auto intro: row_step.intros)
    then show ?thesis using rv ca cacheRevocation_rows [OF ca] by (cases r1) simp_all
  qed
  obtain r1 w1 where f: "find_by_hash h w = (r1, w1)" by fastforce
  have "refresh_tokens w1 = refresh_tokens w" using find_tick [OF f] by simp
  then show "row_step (refresh_tokens w) (refresh_tokens (snd (revokeRefreshTokenByHash P h s w)))"
    using f one [of w1] by (cases r1) (auto simp: revokeRefreshTokenByHash_def await_run stay split: option.split)
  let ?sel = "select_rows refresh_tokens (\<lambda>r. rt_userId r = u \<and> rt_revokedAt r = None)"
  obtain r2 w2 where g: "?sel w = (r2, w2)" by fastforce
  have "refresh_tokens w2 = refresh_tokens w" using select_tick [OF g] by simp
  then show "row_step (refresh_tokens w) (refresh_tokens (snd (revokeMostRecentRefreshTokenForUser P u s w)))"
    using g one [of w2] by (cases r2) (auto simp: revokeMostRecentRefreshTokenForUser_def await_run stay split: option.split)
qed

text \<open>
  The states the service can reach: operations one after the other with any arguments, and
  anything else that leaves its table alone. A new family has an identifier no row has (a random
  UUID).
\<close>

inductive service_step :: "'r platform \<Rightarrow> 'r world \<Rightarrow> 'r world \<Rightarrow> bool" for P where
  Issue: "uuids w (draws w) \<notin> rt_sessionFamily ` set (refresh_tokens w) \<Longrightarrow>
     service_step P w (snd (issueRefreshToken P u m None w))"
| Rotate: "service_step P w (snd (rotateRefreshToken P tok m w))"
| Revoke: "service_step P w (snd (revokeRefreshTokenByHash P h s w))"
| RevokeRecent: "service_step P w (snd (revokeMostRecentRefreshTokenForUser P u s w))"
| Other: "refresh_tokens w' = refresh_tokens w \<Longrightarrow> service_step P w w'"

lemma service_step_refines:
  "service_step P w w' \<Longrightarrow> row_step (refresh_tokens w) (refresh_tokens w')"
  by (induction rule: service_step.induct)
    (auto intro: issueRefreshToken_step rotateRefreshToken_step revoke_one_step stay)

lemma service_steps_refine:
  "(service_step P)\<^sup>*\<^sup>* w w' \<Longrightarrow> row_step\<^sup>*\<^sup>* (refresh_tokens w) (refresh_tokens w')"
  by (induction rule: rtranclp_induct) (auto dest: service_step_refines intro: rtranclp.rtrancl_into_rtrancl)

end
