(* ===== verification/Rotation.thy ===== *)
theory Rotation
  imports Sessions
begin

text \<open>
  The guarantees of the refresh-token service: what a rotation returns and leaves behind, what a
  replay does, that logout revokes, that the families keep their invariant over every run of the
  service, and that two interleaved rotations of one token both succeed.
\<close>

section \<open>A world with one token\<close>

definition demo_meta :: token_meta where
  "demo_meta = \<lparr>tm_ipAddress = Some ''1.2.3.4'', tm_userAgent = None, tm_clientId = None\<rparr>"

definition demo_token :: refresh_row where
  "demo_token = \<lparr>rt_id = ''t1'', rt_userId = ''u1'', rt_tokenHash = hashRefreshToken demo ''tok'',
     rt_sessionFamily = ''f1'', rt_clientId = None, rt_ipAddress = None, rt_userAgent = None,
     rt_issuedAt = 0, rt_expiresAt = 604800000, rt_revokedAt = None, rt_revocationReason = None\<rparr>"

definition world1 :: "mem_redis world" where
  "world1 = world0\<lparr>users := [demo_row ''c''], refresh_tokens := [demo_token]\<rparr>"

text \<open>A replay: the same token, already revoked.\<close>

definition world2 :: "mem_redis world" where
  "world2 = world1\<lparr>refresh_tokens := [revoke_row 500 ''rotation'' demo_token]\<rparr>"

lemma demo_token_simps [simp]:
  "rt_id demo_token = ''t1''" "rt_userId demo_token = ''u1''" "rt_sessionFamily demo_token = ''f1''"
  "rt_tokenHash demo_token = hashRefreshToken demo ''tok''" "rt_revokedAt demo_token = None"
  "rt_expiresAt demo_token = 604800000" "active demo_token"
  by (simp_all add: demo_token_def active_def)

lemma world1_simps [simp]:
  "users world1 = [demo_row ''c'']" "refresh_tokens world1 = [demo_token]" "redis world1 = redis0"
  "clock world1 = 1000" "lag world1 = (\<lambda>_. 0)" "pg_fate world1 = (\<lambda>_. Served)" "ext_n world1 = 0"
  "draws world1 = 0" "entropy world1 = entropy world0" "uuids world1 = uuids world0"
  by (simp_all add: world1_def)

lemma world2_simps [simp]:
  "users world2 = [demo_row ''c'']" "refresh_tokens world2 = [revoke_row 500 ''rotation'' demo_token]"
  "redis world2 = redis0" "clock world2 = 1000" "lag world2 = (\<lambda>_. 0)"
  "pg_fate world2 = (\<lambda>_. Served)" "ext_n world2 = 0" "draws world2 = 0"
  by (simp_all add: world2_def)

lemma family_inv_demo: "family_inv [demo_token]" "family_inv [revoke_row 500 ''rotation'' demo_token]"
  by (simp_all add: family_inv_def)

lemma hash_demo_inject [simp]: "hashRefreshToken demo a = hashRefreshToken demo b \<longleftrightarrow> a = b"
proof
  assume "hashRefreshToken demo a = hashRefreshToken demo b"
  then have "utf8 a = utf8 b" by (simp add: hashRefreshToken_def demo_def hex_inject)
  then show "a = b" by (metis utf8_string_utf8)
qed simp

lemma demo_plaintext: "base64url (map (entropy world0 0) [0..<32]) \<noteq> ''tok''"
  by code_simp

section \<open>Rotation succeeds\<close>

lemma cacheRevocation_Inr:
  assumes "\<And>s. \<exists>x r'. redisExec P (SETEX (REVOKED_REFRESH_PREFIX @ h) ''1'' s) (clock (tick w)) (redis w) = (Inr x, r')"
  shows "\<exists>w' r'. cacheRefreshTokenRevocation P h e w = (Inr (), w') \<and> (w' = w \<or> w' = (tick w)\<lparr>redis := r'\<rparr>)"
proof (cases "max 0 (ceil_div (e - clock w) 1000) \<le> 0")
  case True
  then show ?thesis by (simp add: cacheRefreshTokenRevocation_def await_run ttl_run)
next
  case False
  let ?s = "max 0 (ceil_div (e - clock w) 1000)"
  obtain x r' where "redisExec P (SETEX (REVOKED_REFRESH_PREFIX @ h) ''1'' ?s) (clock (tick w)) (redis w) = (Inr x, r')"
    using assms by blast
  then have "redis_call P (SETEX (REVOKED_REFRESH_PREFIX @ h) ''1'' ?s) w = (Inr x, (tick w)\<lparr>redis := r'\<rparr>)"
    by (simp add: redis_call_def Let_def)
  with False show ?thesis by (auto simp: cacheRefreshTokenRevocation_def await_run ttl_run)
qed

lemma set_where_image:
  "rt_id ` set (set_where c (revoke_row t s) rows) = rt_id ` set rows"
  "rt_tokenHash ` set (set_where c (revoke_row t s) rows) = rt_tokenHash ` set rows"
  using map_revoke(1,2) by (metis set_map)+

lemma insert_refresh_Inr:
  assumes "pg_up w" and "u \<in> ur_id ` set (users w)" and "uuids w (draws w) \<notin> rt_id ` set (refresh_tokens w)"
    and "h \<notin> rt_tokenHash ` set (refresh_tokens w)"
  shows "\<exists>w'. insert_refresh_token u m h f e w = (Inr (), w')"
  using assms
  by (simp add: insert_refresh_token_def pg_def Let_def pg_up_def await_run randomUUID_run now_run)

lemma rotation_runs:
  assumes "pg_up w" and "\<And>s t. \<exists>x r'. redisExec P (SETEX (REVOKED_REFRESH_PREFIX @ hashRefreshToken P tok) ''1'' s) t (redis w) = (Inr x, r')"
    and "row \<in> set (refresh_tokens w)" and "distinct (map rt_tokenHash (refresh_tokens w))"
    and "rt_tokenHash row = hashRefreshToken P tok" and "rt_revokedAt row = None"
    and "clock (tick w) < rt_expiresAt row" and "rt_userId row \<in> ur_id ` set (users w)"
    and "uuids w (Suc (draws w)) \<notin> rt_id ` set (refresh_tokens w)"
    and "hashRefreshToken P (base64url (map (entropy w (draws w)) [0..<32])) \<notin> rt_tokenHash ` set (refresh_tokens w)"
  shows "\<exists>x. fst (rotateRefreshToken P tok meta w) = Inr (Inr x)"
proof -
  let ?h = "hashRefreshToken P tok" and ?w0 = "tick w"
  have found: "row0 (filter (\<lambda>r. rt_tokenHash r = ?h) (refresh_tokens w)) = Some row"
    using row0_filter_unique [OF assms(4,3)] assms(5) by simp
  let ?R = "set_where (\<lambda>r. rt_id r = rt_id row) (revoke_row (clock ?w0) ''rotation'') (refresh_tokens w)"
  let ?w1 = "(tick ?w0)\<lparr>refresh_tokens := ?R\<rparr>"
  have rv: "revoke_where (\<lambda>r. rt_id r = rt_id row) ''rotation'' ?w0 = (Inr (), ?w1)"
    using assms(1) by (simp add: revoke_where_def now_def pg_def Let_def pg_up_def)
  have "redis ?w1 = redis w" by simp
  then obtain w2 r' where ca: "cacheRefreshTokenRevocation P ?h (rt_expiresAt row) ?w1 = (Inr (), w2)"
    and w2: "w2 = ?w1 \<or> w2 = (tick ?w1)\<lparr>redis := r'\<rparr>"
    using cacheRevocation_Inr [of P ?h ?w1 "rt_expiresAt row"] assms(2) by metis
  let ?w3 = "w2\<lparr>draws := Suc (draws w2)\<rparr>"
  have same: "users w2 = users w" "refresh_tokens w2 = ?R" "draws w2 = draws w" "uuids w2 = uuids w"
      "entropy w2 = entropy w"
    using w2 by auto
  have up3: "pg_up ?w3" using w2 assms(1) by (auto simp: pg_up_def)
  have "\<exists>w'. insert_refresh_token (rt_userId row) meta
      (hashRefreshToken P (base64url (map (entropy w (draws w)) [0..<32]))) (rt_sessionFamily row)
      (clock w2 + REFRESH_TOKEN_TTL_SECONDS (env P) * 1000) ?w3 = (Inr (), w')"
    using assms(8-10) by (intro insert_refresh_Inr up3) (simp_all add: same set_where_image)
  then obtain w4 where "insert_refresh_token (rt_userId row) meta
      (hashRefreshToken P (base64url (map (entropy w (draws w)) [0..<32]))) (rt_sessionFamily row)
      (clock w2 + REFRESH_TOKEN_TTL_SECONDS (env P) * 1000) ?w3 = (Inr (), w4)"
    by blast
  then have "\<exists>x. fst (rotate_row P ?h meta row ?w0) = Inr (Inr x)"
    using assms(6,7) rv ca same
    by (simp add: rotate_row_def await_run now_run issueRefreshToken_def generatePlaintext_def
        randomBytes_run secondsFromNow_run Let_def ok_def)
  then show ?thesis using found assms(1) by (simp add: rotateRefreshToken_run pg_up_def)
qed

text \<open>
  A refresh token that is stored, unrevoked and unexpired, of a user who exists, is rotated
  successfully when the database and Redis answer and the fresh random values are new.
\<close>

theorem rotation_succeeds:
  assumes "pg_up w" and "\<And>s t. \<exists>x r'. redisExec P (SETEX (REVOKED_REFRESH_PREFIX @ hashRefreshToken P tok) ''1'' s) t (redis w) = (Inr x, r')"
    and "row \<in> set (refresh_tokens w)" and "distinct (map rt_tokenHash (refresh_tokens w))"
    and "rt_tokenHash row = hashRefreshToken P tok" and "rt_revokedAt row = None"
    and "clock (tick w) < rt_expiresAt row" and "rt_userId row \<in> ur_id ` set (users w)"
    and "uuids w (Suc (draws w)) \<notin> rt_id ` set (refresh_tokens w)"
    and "hashRefreshToken P (base64url (map (entropy w (draws w)) [0..<32])) \<notin> rt_tokenHash ` set (refresh_tokens w)"
  shows "\<exists>x. fst (rotateRefreshToken P tok meta w) = Inr (Inr x)"
  by (rule rotation_runs [OF assms])

lemma mem_setex: "\<exists>x r'. redisExec demo (SETEX k v s) t redis0 = (Inr x, r')"
  by (simp add: mem_exec_def redis0_def)

lemma rotation_succeeds_witness: "\<exists>x. fst (rotateRefreshToken demo ''tok'' demo_meta world1) = Inr (Inr x)"
proof (rule rotation_succeeds)
  show "pg_up world1" by (simp add: pg_up_def)
  show "\<exists>x r'. redisExec demo (SETEX (REVOKED_REFRESH_PREFIX @ hashRefreshToken demo ''tok'') ''1'' s) t (redis world1) = (Inr x, r')"
    for s t using mem_setex by simp
  show "demo_token \<in> set (refresh_tokens world1)" by simp
  have "uuids world0 (Suc 0) \<noteq> ''t1''" by (simp add: world0_def)
  then show "uuids world1 (Suc (draws world1)) \<notin> rt_id ` set (refresh_tokens world1)" by simp
  show "hashRefreshToken demo (base64url (map (entropy world1 (draws world1)) [0..<32]))
      \<notin> rt_tokenHash ` set (refresh_tokens world1)" using demo_plaintext by simp
  show "rt_userId demo_token \<in> ur_id ` set (users world1)" by (simp add: demo_row_def)
  show "clock (tick world1) < rt_expiresAt demo_token" by (simp add: tick_def)
qed simp_all

section \<open>What a rotation means\<close>

text \<open>
  C1. When a rotation returns a new token, the presented one was stored, unrevoked and unexpired;
  it is now revoked with reason \<open>rotation\<close>, exactly one row was added, for the same user and
  session family, under the hash of the returned plaintext, and that row is the family's only
  live one.
\<close>

theorem rotation_sound:
  assumes "family_inv (refresh_tokens w)" and "rotateRefreshToken P tok meta w = (Inr (Inr x), w')"
  shows "\<exists>row \<in> set (refresh_tokens w). rt_tokenHash row = hashRefreshToken P tok \<and> active row \<and>
    clock w \<le> rt_expiresAt row \<and> rr_userId x = rt_userId row \<and>
    ir_sessionFamily (rr_issued x) = rt_sessionFamily row \<and>
    rotated_rows row (hashRefreshToken P (ir_plaintext (rr_issued x))) (refresh_tokens w) (refresh_tokens w') \<and>
    (\<exists>t. revoke_row t ''rotation'' row \<in> set (refresh_tokens w')) \<and>
    (\<forall>r \<in> set (refresh_tokens w'). active r \<longrightarrow> rt_sessionFamily r = rt_sessionFamily row \<longrightarrow>
       rt_tokenHash r = hashRefreshToken P (ir_plaintext (rr_issued x)))"
proof -
  obtain row where served: "pg_fate w (ext_n w) = Served"
    and row0: "row0 (filter (\<lambda>r. rt_tokenHash r = hashRefreshToken P tok) (refresh_tokens w)) = Some row"
    and run: "rotate_row P (hashRefreshToken P tok) meta row (tick w) = (Inr (Inr x), w')"
    using assms(2) by (auto simp: rotateRefreshToken_run err_def split: fate.splits option.splits)
  have row: "row \<in> set (refresh_tokens w)" "rt_tokenHash row = hashRefreshToken P tok"
    using row0_filterD [OF row0] by auto
  have act: "rt_revokedAt row = None"
    using rotate_row_revoked [OF _ run] by (cases "rt_revokedAt row") auto
  let ?h = "hashRefreshToken P (ir_plaintext (rr_issued x))"
  from rotate_row_active [OF act run]
  have eff: "rotated_rows row ?h (refresh_tokens w) (refresh_tokens w')" "rr_userId x = rt_userId row"
      "ir_sessionFamily (rr_issued x) = rt_sessionFamily row"
    and ex: "clock (tick w) < rt_expiresAt row" by auto
  obtain t n where rows': "refresh_tokens w' =
      set_where (\<lambda>r. rt_id r = rt_id row) (revoke_row t ''rotation'') (refresh_tokens w) @ [n]"
    and n: "rt_tokenHash n = ?h" "rt_sessionFamily n = rt_sessionFamily row"
    using eff(1) by (auto simp: rotated_rows_def adds_def)
  have "revoke_row t ''rotation'' row \<in> set (refresh_tokens w')"
    unfolding rows' using row(1) by (auto simp: in_set_where intro!: bexI [of _ row])
  moreover have "rt_tokenHash r = ?h" if r: "r \<in> set (refresh_tokens w')" "active r"
      "rt_sessionFamily r = rt_sessionFamily row" for r
  proof (cases "r = n")
    case False
    then have "r \<in> set (set_where (\<lambda>r. rt_id r = rt_id row) (revoke_row t ''rotation'') (refresh_tokens w))"
      using r(1) by (simp add: rows')
    from in_revoked [OF this r(2)] have "r \<in> set (refresh_tokens w)" "rt_id r \<noteq> rt_id row" by auto
    then show ?thesis
      using family_one [OF assms(1) _ row(1) r(2)] act r(3) by (auto simp: active_def)
  qed (simp add: n)
  moreover have "clock w \<le> rt_expiresAt row" using ex clock_tick [of w] by linarith
  ultimately show ?thesis using row act eff by (intro bexI [of _ row]) (auto simp: active_def)
qed

lemma demo_rotates: "\<exists>x w'. rotateRefreshToken demo ''tok'' demo_meta world1 = (Inr (Inr x), w')"
proof -
  have "\<exists>x. fst (rotateRefreshToken demo ''tok'' demo_meta world1) = Inr (Inr x)"
  proof -
    have "uuids world0 (Suc 0) \<noteq> ''t1''" by (simp add: world0_def)
    then show ?thesis
      using demo_plaintext
      by (simp add: rotateRefreshToken_run rotate_row_def await_run now_run revoke_where_def pg_def Let_def
          cacheRefreshTokenRevocation_def ttl_run redis_call_def mem_exec_def redis0_def tick_def ceil_div_def
          issueRefreshToken_def generatePlaintext_def randomBytes_run secondsFromNow_run
          insert_refresh_token_def randomUUID_run demo_row_def ok_def)
  qed
  then show ?thesis by (metis prod.collapse)
qed

lemma rotation_sound_witness:
  "\<exists>x w'. rotateRefreshToken demo ''tok'' demo_meta world1 = (Inr (Inr x), w') \<and>
    (\<exists>row \<in> set (refresh_tokens world1). rt_tokenHash row = hashRefreshToken demo ''tok'' \<and> active row \<and>
    clock world1 \<le> rt_expiresAt row \<and> rr_userId x = rt_userId row \<and>
    ir_sessionFamily (rr_issued x) = rt_sessionFamily row \<and>
    rotated_rows row (hashRefreshToken demo (ir_plaintext (rr_issued x))) (refresh_tokens world1) (refresh_tokens w') \<and>
    (\<exists>t. revoke_row t ''rotation'' row \<in> set (refresh_tokens w')) \<and>
    (\<forall>r \<in> set (refresh_tokens w'). active r \<longrightarrow> rt_sessionFamily r = rt_sessionFamily row \<longrightarrow>
       rt_tokenHash r = hashRefreshToken demo (ir_plaintext (rr_issued x))))"
proof -
  obtain x w' where run: "rotateRefreshToken demo ''tok'' demo_meta world1 = (Inr (Inr x), w')"
    using demo_rotates by blast
  have inv: "family_inv (refresh_tokens world1)" by (simp add: family_inv_demo)
  show ?thesis by (intro exI [of _ x] exI [of _ w'] conjI run rotation_sound [OF inv run])
qed

section \<open>Replay\<close>

lemma replay_dead:
  assumes "family_inv (refresh_tokens w)" and "row \<in> set (refresh_tokens w)"
    and "rt_tokenHash row = hashRefreshToken P tok" and "\<not> active row"
    and "rotateRefreshToken P tok meta w = (Inr res, w')"
  shows "res = Inl token_reuse_default \<and> dead (rt_sessionFamily row) (refresh_tokens w')"
proof -
  have "distinct (map rt_tokenHash (refresh_tokens w))" using assms(1) by (simp add: family_inv_def)
  from row0_filter_unique [OF this assms(2)]
  have found: "row0 (filter (\<lambda>r. rt_tokenHash r = hashRefreshToken P tok) (refresh_tokens w)) = Some row"
    using assms(3) by simp
  then have run: "rotate_row P (hashRefreshToken P tok) meta row (tick w) = (Inr res, w')"
    using assms(5) by (auto simp: rotateRefreshToken_run split: fate.splits)
  have "rt_revokedAt row \<noteq> None" using assms(4) by (simp add: active_def)
  from rotate_row_revoked [OF this run] show ?thesis using assms(2) by (auto simp: dead_def)
qed

text \<open>
  C2. Presenting a token that is already revoked never yields a token: the answer is
  \<open>token_reuse_detected\<close>, and every token of its session family is revoked.
\<close>

theorem replay_kills_family:
  assumes "family_inv (refresh_tokens w)" and "row \<in> set (refresh_tokens w)"
    and "rt_tokenHash row = hashRefreshToken P tok" and "\<not> active row"
    and "rotateRefreshToken P tok meta w = (Inr res, w')"
  shows "res = Inl token_reuse_default \<and> dead (rt_sessionFamily row) (refresh_tokens w')"
  by (rule replay_dead [OF assms])

lemma demo_replay: "\<exists>w'. rotateRefreshToken demo ''tok'' demo_meta world2 = (Inr (Inl token_reuse_default), w')"
proof -
  obtain w' where "writeAuditEvent ((audit_event ''auth.token_refresh_failed'' ''denied'')
          \<lparr>user_id := Some ''u1'', failure_reason := Some ''token_reuse_detected'',
           metadata := Some [(''session_family'', ''f1'')]\<rparr>) (tick (tick world2)) = (Inr (), w')"
    using writeAudit_Inr by blast
  then show ?thesis
    by (simp add: rotateRefreshToken_run rotate_row_def await_run revokeSessionFamily_def select_rows_def
        pg_def Let_def in_family_def err_def)
qed

lemma replay_kills_family_witness:
  "\<exists>w'. rotateRefreshToken demo ''tok'' demo_meta world2 = (Inr (Inl token_reuse_default), w') \<and>
     dead ''f1'' (refresh_tokens w')"
proof -
  obtain w' where run: "rotateRefreshToken demo ''tok'' demo_meta world2 = (Inr (Inl token_reuse_default), w')"
    using demo_replay by blast
  have "Inl token_reuse_default = (Inl token_reuse_default :: (rotation_result, app_error) result) \<and>
      dead (rt_sessionFamily (revoke_row 500 ''rotation'' demo_token)) (refresh_tokens w')"
    by (rule replay_kills_family [OF _ _ _ _ run]) (simp_all add: family_inv_demo)
  with run show ?thesis by simp
qed

section \<open>Over every run of the service\<close>

text \<open>
  Over every sequence of operations of the service, with any arguments and any failures of
  the database or Redis in between, a session family belongs to one user and has at most one live
  token.
\<close>

theorem service_keeps_families:
  assumes "(service_step P)\<^sup>*\<^sup>* w w'" and "family_inv (refresh_tokens w)"
  shows "family_inv (refresh_tokens w')"
  using row_steps_inv [OF service_steps_refine [OF assms(1)] assms(2)] .

lemma service_keeps_families_witness:
  "family_inv (refresh_tokens (snd (rotateRefreshToken demo ''tok'' demo_meta world1)))"
  by (rule service_keeps_families [OF r_into_rtranclp [of "service_step demo", OF service_step.Rotate]])
    (simp add: family_inv_demo)

text \<open>
  A session family that has no live token never gets one again, whatever the service is asked
  to do: no later presentation of any of its tokens is answered with new tokens.
\<close>

theorem dead_family_stays_dead:
  assumes "(service_step P)\<^sup>*\<^sup>* w w'" and "family_inv (refresh_tokens w)" and "dead f (refresh_tokens w)"
  shows "dead f (refresh_tokens w') \<and>
    (\<forall>row \<in> set (refresh_tokens w'). rt_sessionFamily row = f \<longrightarrow>
       rt_tokenHash row = hashRefreshToken P tok \<longrightarrow>
       (\<forall>x. fst (rotateRefreshToken P tok meta w') \<noteq> Inr (Inr x)))"
proof (intro conjI ballI impI allI notI)
  show d: "dead f (refresh_tokens w')"
    using row_steps_dead [OF service_steps_refine [OF assms(1)] assms(3)] .
  fix row x assume row: "row \<in> set (refresh_tokens w')" "rt_sessionFamily row = f"
      "rt_tokenHash row = hashRefreshToken P tok"
    and x: "fst (rotateRefreshToken P tok meta w') = Inr (Inr x)"
  have inv: "family_inv (refresh_tokens w')" using row_steps_inv [OF service_steps_refine [OF assms(1)] assms(2)] .
  have "\<not> active row" using d row by (auto simp: dead_def)
  moreover obtain w2 where "rotateRefreshToken P tok meta w' = (Inr (Inr x), w2)" using x by (metis prod.collapse)
  ultimately show False using replay_dead [OF inv row(1,3)] by blast
qed

lemma dead_family_stays_dead_witness:
  "\<exists>w'. service_step demo world2 w' \<and> dead ''f1'' (refresh_tokens w')"
proof -
  let ?w = "snd (rotateRefreshToken demo ''tok'' demo_meta world2)"
  have s: "service_step demo world2 ?w" by (rule service_step.Rotate)
  have "dead ''f1'' (refresh_tokens world2)" by (simp add: dead_def)
  with dead_family_stays_dead [OF r_into_rtranclp [of "service_step demo", OF s], of "''f1''"] s
  show ?thesis by (auto simp: family_inv_demo)
qed

section \<open>Revocation by logout\<close>

lemma revoke_by_hash:
  assumes "family_inv (refresh_tokens w)" and "revokeRefreshTokenByHash P h reason w = (Inr u, w')"
  shows "(\<forall>r \<in> set (refresh_tokens w'). rt_tokenHash r = h \<longrightarrow> \<not> active r) \<and>
    (\<forall>r \<in> set (refresh_tokens w). rt_tokenHash r \<noteq> h \<longrightarrow> r \<in> set (refresh_tokens w'))"
proof -
  have dist: "distinct (map rt_tokenHash (refresh_tokens w))" "distinct (map rt_id (refresh_tokens w))"
    using assms(1) by (simp_all add: family_inv_def)
  obtain found where f: "find_by_hash h w = (Inr found, tick w)"
    and found: "found = row0 (filter (\<lambda>r. rt_tokenHash r = h) (refresh_tokens w))"
    using assms(2) by (auto simp: revokeRefreshTokenByHash_def find_by_hash_Inr elim!: await_InrE)
  show ?thesis
  proof (cases found)
    case None
    then have "\<forall>r \<in> set (refresh_tokens w). rt_tokenHash r \<noteq> h"
      using found by (simp add: filter_empty_conv)
    then show ?thesis using assms(2) f None by (auto simp: revokeRefreshTokenByHash_def)
  next
    case (Some row)
    have row: "row \<in> set (refresh_tokens w)" "rt_tokenHash row = h"
      using row0_filterD [of "\<lambda>r. rt_tokenHash r = h" "refresh_tokens w" row] Some found by auto
    have only: "r = row" if "r \<in> set (refresh_tokens w)" "rt_tokenHash r = h" for r
      using distinct_map_unique [OF dist(1) that(1) row(1)] that(2) row(2) by simp
    show ?thesis
    proof (cases "rt_revokedAt row = None")
      case False
      then show ?thesis using assms(2) f Some only by (auto simp: revokeRefreshTokenByHash_def active_def)
    next
      case True
      obtain r1 w1 where rv: "revoke_where (\<lambda>r. rt_id r = rt_id row) reason (tick w) = (r1, w1)" by fastforce
      with assms(2) f Some True obtain u1 where r1: "r1 = Inr u1"
        and ca: "cacheRefreshTokenRevocation P h (rt_expiresAt row) w1 = (Inr u, w')"
        by (cases r1) (auto simp: revokeRefreshTokenByHash_def)
      have rows: "refresh_tokens w' =
          set_where (\<lambda>r. rt_id r = rt_id row) (revoke_row (clock (tick w)) reason) (refresh_tokens w)"
        using revoke_where_cases [OF rv] r1 cacheRevocation_rows [OF ca] by simp
      have "\<not> active r" if "r \<in> set (refresh_tokens w')" "rt_tokenHash r = h" for r
        using in_revoked [of r "\<lambda>r. rt_id r = rt_id row"] only that unfolding rows by blast
      moreover have "r \<in> set (refresh_tokens w')" if "r \<in> set (refresh_tokens w)" "rt_tokenHash r \<noteq> h" for r
      proof -
        have "rt_id r \<noteq> rt_id row"
          using distinct_map_unique [OF dist(2) that(1) row(1)] that(2) row(2) by blast
        then show ?thesis unfolding rows in_set_where using that(1) by (intro bexI [of _ r]) simp_all
      qed
      ultimately show ?thesis by blast
    qed
  qed
qed

text \<open>
  After a revocation by hash returned, no live token has that hash, and no other row was
  touched.
\<close>

theorem revokeRefreshTokenByHash_revokes:
  assumes "family_inv (refresh_tokens w)" and "revokeRefreshTokenByHash P h reason w = (Inr u, w')"
  shows "(\<forall>r \<in> set (refresh_tokens w'). rt_tokenHash r = h \<longrightarrow> \<not> active r) \<and>
    (\<forall>r \<in> set (refresh_tokens w). rt_tokenHash r \<noteq> h \<longrightarrow> r \<in> set (refresh_tokens w'))"
  by (rule revoke_by_hash [OF assms])

lemma revokeRefreshTokenByHash_revokes_witness:
  "\<exists>w'. revokeRefreshTokenByHash demo (hashRefreshToken demo ''tok'') ''logout'' world1 = (Inr (), w') \<and>
    (\<forall>r \<in> set (refresh_tokens w'). rt_tokenHash r = hashRefreshToken demo ''tok'' \<longrightarrow> \<not> active r)"
proof -
  have "\<exists>w'. revokeRefreshTokenByHash demo (hashRefreshToken demo ''tok'') ''logout'' world1 = (Inr (), w')"
    by (simp add: revokeRefreshTokenByHash_def find_by_hash_def select_rows_def await_run revoke_where_def
        pg_def Let_def now_run cacheRefreshTokenRevocation_def ttl_run redis_call_def mem_exec_def
        redis0_def tick_def ceil_div_def)
  then obtain w' where run: "revokeRefreshTokenByHash demo (hashRefreshToken demo ''tok'') ''logout'' world1 = (Inr (), w')"
    by blast
  have inv: "family_inv (refresh_tokens world1)" by (simp add: family_inv_demo)
  from revokeRefreshTokenByHash_revokes [OF inv run] run show ?thesis by blast
qed

section \<open>The race\<close>

text \<open>
  Rotation reads the row and updates it in separate queries. When two requests present the
  same token and both have read its row before either has updated it, both are answered with a
  new token, and the session family has two live tokens: reuse is not detected.
\<close>

theorem concurrent_rotations_both_succeed:
  assumes "rt_revokedAt row = None"
    and "rotate_row P h meta row w = (Inr (Inr x), w1)"
    and "rotate_row P h meta' row w1 = (Inr (Inr y), w2)"
    and "rt_id row \<in> rt_id ` set (refresh_tokens w)"
  shows "\<exists>r \<in> set (refresh_tokens w2). \<exists>r' \<in> set (refresh_tokens w2). r \<noteq> r' \<and> active r \<and> active r' \<and>
    rt_sessionFamily r = rt_sessionFamily row \<and> rt_sessionFamily r' = rt_sessionFamily row"
proof -
  obtain t n where rows1: "refresh_tokens w1 = set_where (\<lambda>r. rt_id r = rt_id row) (revoke_row t ''rotation'') (refresh_tokens w) @ [n]"
    and n: "rt_sessionFamily n = rt_sessionFamily row" "active n"
      "rt_id n \<notin> rt_id ` set (set_where (\<lambda>r. rt_id r = rt_id row) (revoke_row t ''rotation'') (refresh_tokens w))"
    using rotate_row_active [OF assms(1,2)] by (auto simp: rotated_rows_def adds_def active_def)
  obtain t' n' where rows2: "refresh_tokens w2 = set_where (\<lambda>r. rt_id r = rt_id row) (revoke_row t' ''rotation'') (refresh_tokens w1) @ [n']"
    and n': "rt_sessionFamily n' = rt_sessionFamily row" "active n'"
      "rt_id n' \<notin> rt_id ` set (set_where (\<lambda>r. rt_id r = rt_id row) (revoke_row t' ''rotation'') (refresh_tokens w1))"
    using rotate_row_active [OF assms(1,3)] by (auto simp: rotated_rows_def adds_def active_def)
  have "rt_id n \<noteq> rt_id row" using n(3) assms(4) unfolding set_where_image by auto
  then have in2: "n \<in> set (set_where (\<lambda>r. rt_id r = rt_id row) (revoke_row t' ''rotation'') (refresh_tokens w1))"
    unfolding in_set_where rows1 by (intro bexI [of _ n]) simp_all
  then have "n \<noteq> n'" using n'(3) by auto
  with in2 n n' show ?thesis by (intro bexI [of _ n] bexI [of _ n']) (simp_all add: rows2)
qed

definition demo_ready :: "mem_redis world \<Rightarrow> bool" where
  "demo_ready w \<longleftrightarrow> users w = [demo_row ''c''] \<and> up (redis w) \<and> pg_fate w = (\<lambda>_. Served) \<and>
     lag w = (\<lambda>_. 0) \<and> clock w = 1000 \<and> uuids w = uuids world0 \<and> entropy w = entropy world0"

lemma demo_rotate_row:
  assumes "demo_ready w" and "uuids world0 (Suc (draws w)) \<notin> rt_id ` set (refresh_tokens w)"
    and "hashRefreshToken demo (base64url (map (entropy world0 (draws w)) [0..<32])) \<notin> rt_tokenHash ` set (refresh_tokens w)"
  shows "\<exists>x w1. rotate_row demo h demo_meta demo_token w = (Inr (Inr x), w1) \<and> demo_ready w1 \<and>
    draws w1 = Suc (Suc (draws w)) \<and>
    rt_id ` set (refresh_tokens w1) = insert (uuids world0 (Suc (draws w))) (rt_id ` set (refresh_tokens w)) \<and>
    rt_tokenHash ` set (refresh_tokens w1) =
      insert (hashRefreshToken demo (base64url (map (entropy world0 (draws w)) [0..<32]))) (rt_tokenHash ` set (refresh_tokens w))"
  using assms
  by (simp add: demo_ready_def rotate_row_def await_run now_run revoke_where_def pg_def Let_def
      cacheRefreshTokenRevocation_def ttl_run redis_call_def mem_exec_def tick_def ceil_div_def mem_put_def
      issueRefreshToken_def generatePlaintext_def randomBytes_run secondsFromNow_run
      insert_refresh_token_def randomUUID_run demo_row_def ok_def set_where_image new_refresh_row_def)

lemma demo_plaintexts: "base64url (map (entropy world0 2) [0..<32]) \<noteq> ''tok''"
  "base64url (map (entropy world0 2) [0..<32]) \<noteq> base64url (map (entropy world0 0) [0..<32])"
  by code_simp+

lemma concurrent_rotations_both_succeed_witness:
  "\<exists>x y w1 w2. rotate_row demo ''h'' demo_meta demo_token world1 = (Inr (Inr x), w1) \<and>
    rotate_row demo ''h'' demo_meta demo_token w1 = (Inr (Inr y), w2) \<and>
    (\<exists>r \<in> set (refresh_tokens w2). \<exists>r' \<in> set (refresh_tokens w2). r \<noteq> r' \<and> active r \<and> active r' \<and>
      rt_sessionFamily r = ''f1'' \<and> rt_sessionFamily r' = ''f1'')"
proof -
  have u: "uuids world0 n = ''id'' @ show_nat n" for n by (simp add: world0_def)
  have r1: "demo_ready world1" by (simp add: demo_ready_def redis0_def)
  have ids1: "uuids world0 (Suc (draws world1)) \<notin> rt_id ` set (refresh_tokens world1)" by (simp add: u)
  have h1: "hashRefreshToken demo (base64url (map (entropy world0 (draws world1)) [0..<32])) \<notin>
      rt_tokenHash ` set (refresh_tokens world1)" using demo_plaintext by simp
  obtain x w1 where s1: "rotate_row demo ''h'' demo_meta demo_token world1 = (Inr (Inr x), w1)"
    and r2: "demo_ready w1" "draws w1 = 2"
    and ids: "rt_id ` set (refresh_tokens w1) = {uuids world0 1, ''t1''}"
    and hs: "rt_tokenHash ` set (refresh_tokens w1) = {hashRefreshToken demo (base64url (map (entropy world0 0) [0..<32])),
      hashRefreshToken demo ''tok''}"
    using demo_rotate_row [OF r1 ids1 h1, of "''h''"] by auto
  have "uuids world0 (Suc (draws w1)) \<notin> rt_id ` set (refresh_tokens w1)" by (simp add: ids r2 u)
  moreover have "hashRefreshToken demo (base64url (map (entropy world0 (draws w1)) [0..<32])) \<notin>
      rt_tokenHash ` set (refresh_tokens w1)" using demo_plaintexts by (simp add: hs r2)
  ultimately obtain y w2 where s2: "rotate_row demo ''h'' demo_meta demo_token w1 = (Inr (Inr y), w2)"
    using demo_rotate_row [OF r2(1), of "''h''"] by auto
  have "\<exists>r \<in> set (refresh_tokens w2). \<exists>r' \<in> set (refresh_tokens w2). r \<noteq> r' \<and> active r \<and> active r' \<and>
      rt_sessionFamily r = rt_sessionFamily demo_token \<and> rt_sessionFamily r' = rt_sessionFamily demo_token"
    by (rule concurrent_rotations_both_succeed [OF _ s1 s2]) simp_all
  with s1 s2 show ?thesis by auto
qed

end
