(* ===== verification/Login.thy ===== *)
theory Login
  imports AuthRoutes ProxyProofs Rotation
begin

text \<open>
  \<open>POST /v1/auth/login\<close>: who is let in, what a success leaves behind, and that every failure
  looks the same.
\<close>

section \<open>The steps of a login\<close>

text \<open>What follows the password check.\<close>

definition login_issue :: "'r platform \<Rightarrow> authenticated_user \<Rightarrow> request \<Rightarrow> response \<Rightarrow> ('r, next_step) gw" where
  "login_issue P user req res =
     await (signAccessToken P (subject_of P user)) (\<lambda>signed.
     await (issueRefreshToken P (au_id user) (requestMeta req) None) (\<lambda>refresh.
     await (markLastLogin (au_id user)) (\<lambda>_.
     await (writeAuditEvent (auditMeta (requestMeta req) ((audit_event ''auth.login'' ''success'')
       \<lparr>user_id := Some (au_id user), resource := Some ''/v1/auth/login''\<rparr>))) (\<lambda>_.
     pure (Respond (send_json 200
       (token_response P (sat_token signed) (ir_plaintext refresh)) res))))))"

definition login_reject :: "string option \<Rightarrow> request \<Rightarrow> response \<Rightarrow> ('r, next_step) gw" where
  "login_reject user req res = await (writeAuditEvent (login_failed user (requestMeta req))) (\<lambda>_.
     pure (Fail invalid_credentials_default req res))"

lemma loginHandler_alt:
  "loginHandler P body req res = await (findUserByEmail P (lb_email body)) (\<lambda>found. case found of
     None \<Rightarrow> login_reject None req res
   | Some (user, passwordHash) \<Rightarrow> if \<not> au_isActive user \<or> \<not> truthy passwordHash then login_reject None req res
       else if \<not> bcryptCompare P (lb_password body) (the passwordHash) then login_reject (Some (au_id user)) req res
       else login_issue P user req res)"
  unfolding loginHandler_def login_reject_def login_issue_def Let_def verifyPassword_def await_pure ..

text \<open>The two ways a login ends without an exception.\<close>

lemma login_cases:
  assumes "loginHandler P body req res w = (Inr st, w')"
  obtains (issued) user hash w1 where "findUserByEmail P (lb_email body) w = (Inr (Some (user, Some hash)), w1)"
      and "au_isActive user" and "hash \<noteq> []" and "bcryptCompare P (lb_password body) hash"
      and "login_issue P user req res w1 = (Inr st, w')"
  | (rejected) user found w1 where "findUserByEmail P (lb_email body) w = (Inr found, w1)"
      and "login_reject user req res w1 = (Inr st, w')"
proof -
  obtain found w1 where f: "findUserByEmail P (lb_email body) w = (Inr found, w1)"
    and rest: "(case found of
     None \<Rightarrow> login_reject None req res
   | Some (user, passwordHash) \<Rightarrow> if \<not> au_isActive user \<or> \<not> truthy passwordHash then login_reject None req res
       else if \<not> bcryptCompare P (lb_password body) (the passwordHash) then login_reject (Some (au_id user)) req res
       else login_issue P user req res) w1 = (Inr st, w')"
    using assms unfolding loginHandler_alt by (rule await_InrE)
  show thesis
  proof (cases found)
    case None
    with f rest show thesis by (intro rejected) auto
  next
    case (Some uh)
    obtain user ph where uh: "uh = (user, ph)" by fastforce
    show thesis
    proof (cases "au_isActive user \<and> truthy ph \<and> bcryptCompare P (lb_password body) (the ph)")
      case True
      then obtain hash where ph: "ph = Some hash" "hash \<noteq> []" by (cases ph) (auto simp: truthy_def)
      show thesis by (rule issued [of user hash w1]) (use f rest Some uh ph True in simp_all)
    next
      case False
      with f rest Some uh show thesis by (auto split: if_splits intro: rejected)
    qed
  qed
qed

lemma login_reject_run:
  assumes "login_reject user req res w = (Inr st, w')"
  shows "st = Fail invalid_credentials_default req res \<and> recorded (login_failed user (requestMeta req)) w w' \<and>
    refresh_tokens w' = refresh_tokens w \<and> users w' = users w \<and> redis w' = redis w"
proof -
  obtain u where wr: "writeAuditEvent (login_failed user (requestMeta req)) w = (Inr u, w')"
    and st: "st = Fail invalid_credentials_default req res"
    using assms by (auto simp: login_reject_def elim!: await_InrE)
  have "(refresh_tokens w', users w', redis w') = (refresh_tokens w, users w, redis w)"
    by (rule keepsD [OF keeps_writeAudit wr]) simp_all
  then show ?thesis using st writeAudit_recorded [OF wr] by simp
qed

lemma lookup_frame:
  "findUserByEmail P e w = (r, w') \<Longrightarrow> refresh_tokens w' = refresh_tokens w \<and> users w' = users w \<and>
     redis w' = redis w \<and> audit_log w' = audit_log w"
  using keepsD [OF keeps_user_lookup(1) [of "\<lambda>w. (refresh_tokens w, users w, redis w, audit_log w)" P e], of w r w']
  by simp

lemma login_issue_run:
  assumes "login_issue P user req res w = (Inr st, w')"
  shows "\<exists>signed (refresh :: issued_refresh_token) w2. signAccessToken P (subject_of P user) w = (Inr signed, w2) \<and>
    st = Respond (send_json 200 (token_response P (sat_token signed) (ir_plaintext refresh)) res) \<and>
    adds (au_id user) (ir_sessionFamily refresh) (hashRefreshToken P (ir_plaintext refresh))
      (refresh_tokens w) (refresh_tokens w')"
proof -
  obtain signed refresh w2 w3 w4 u1 u2 where s: "signAccessToken P (subject_of P user) w = (Inr signed, w2)"
    and i: "issueRefreshToken P (au_id user) (requestMeta req) None w2 = (Inr refresh, w3)"
    and m: "markLastLogin (au_id user) w3 = (Inr u1, w4)"
    and a: "writeAuditEvent (auditMeta (requestMeta req) ((audit_event ''auth.login'' ''success'')
       \<lparr>user_id := Some (au_id user), resource := Some ''/v1/auth/login''\<rparr>)) w4 = (Inr u2, w')"
    and st: "st = Respond (send_json 200 (token_response P (sat_token signed) (ir_plaintext refresh)) res)"
    using assms by (auto simp: login_issue_def elim!: await_InrE)
  have "refresh_tokens w2 = refresh_tokens w" by (rule keepsD [OF keeps_signAccessToken s]) simp_all
  moreover have "refresh_tokens w4 = refresh_tokens w3" by (rule keepsD [OF keeps_markLastLogin m]) simp_all
  moreover have "refresh_tokens w' = refresh_tokens w4" by (rule audit_rows [OF a])
  ultimately have "adds (au_id user) (ir_sessionFamily refresh) (hashRefreshToken P (ir_plaintext refresh))
      (refresh_tokens w) (refresh_tokens w')" using issueRefreshToken_cases [OF i] by auto
  with s st show ?thesis by blast
qed

text \<open>
  C10. A login that answers with tokens was for an address the user table knows, of an active user
  with a password, and with that password; its access token is signed for that user, and its
  refresh token is the only row added to the token table, live, of that user, in a new family.
\<close>

theorem login_sound:
  assumes "loginHandler P body req res w = (Inr (Respond r), w')"
  shows "\<exists>user hash signed (refresh :: issued_refresh_token) w1 w2. fst (findUserByEmail P (lb_email body) w) = Inr (Some (user, Some hash)) \<and>
    au_isActive user \<and> hash \<noteq> [] \<and> bcryptCompare P (lb_password body) hash \<and>
    signAccessToken P (subject_of P user) w1 = (Inr signed, w2) \<and>
    r = send_json 200 (token_response P (sat_token signed) (ir_plaintext refresh)) res \<and>
    adds (au_id user) (ir_sessionFamily refresh) (hashRefreshToken P (ir_plaintext refresh))
      (refresh_tokens w) (refresh_tokens w')"
  using assms
proof (cases rule: login_cases)
  case (issued user hash w1)
  from login_issue_run [OF issued(5)] lookup_frame [OF issued(1)] show ?thesis
    by (intro exI [of _ user] exI [of _ hash]) (auto simp: issued)
next
  case (rejected user found w1)
  then show ?thesis using login_reject_run by fastforce
qed

text \<open>
  C32. Every failed login looks the same: whether the address is unknown, the user inactive, without
  a password, or the password wrong, the request is refused with the same error, nothing but the
  audit log changes, and the failure is recorded there (or the failure to record it in the log).
\<close>

theorem login_failure_uniform:
  assumes "loginHandler P body req res w = (Inr (Fail e req' res'), w')"
  shows "e = invalid_credentials_default \<and> req' = req \<and> res' = res \<and>
    refresh_tokens w' = refresh_tokens w \<and> users w' = users w \<and> redis w' = redis w \<and>
    (\<exists>user. recorded (login_failed user (requestMeta req)) w w')"
  using assms
proof (cases rule: login_cases)
  case (issued user hash w1)
  from login_issue_run [OF issued(5)] show ?thesis by auto
next
  case (rejected user found w1)
  from login_reject_run [OF rejected(2)] lookup_frame [OF rejected(1)] show ?thesis
    by (auto intro: recorded_from)
qed

section \<open>A user can log in\<close>

lemma sign_runs:
  assumes "load_keys P = Inr ks" and "key_caches P w"
  shows "\<exists>t w'. signAccessToken P s w = (Inr t, w') \<and> users w' = users w \<and> refresh_tokens w' = refresh_tokens w \<and>
    pg_fate w' = pg_fate w \<and> uuids w' = uuids w \<and> entropy w' = entropy w \<and> draws w' = Suc (draws w)"
  using assms by (auto simp: signAccessToken_def await_run loadSigningKeys_run randomUUID_run now_run Let_def
      key_caches_def split: option.split)

lemma issue_runs:
  assumes "pg_up w" and "u \<in> ur_id ` set (users w)"
    and "uuids w (Suc (Suc (draws w))) \<notin> rt_id ` set (refresh_tokens w)"
    and "hashRefreshToken P (base64url (map (entropy w (Suc (draws w))) [0..<32])) \<notin> rt_tokenHash ` set (refresh_tokens w)"
  shows "\<exists>x w'. issueRefreshToken P u meta None w = (Inr x, w') \<and> pg_up w'"
  using assms
  by (simp add: issueRefreshToken_def generatePlaintext_def await_run randomUUID_run randomBytes_run
      secondsFromNow_run Let_def insert_refresh_token_def pg_def now_run pg_up_def)

lemma login_runs:
  assumes "findUserByEmail P (lb_email body) w = (Inr (Some (user, Some hash)), w1)"
    and "au_isActive user" and "hash \<noteq> []" and "bcryptCompare P (lb_password body) hash"
    and "load_keys P = Inr ks" and "key_caches P w1" and "pg_up w1" and "au_id user \<in> ur_id ` set (users w1)"
    and "uuids w1 (draws w1 + 3) \<notin> rt_id ` set (refresh_tokens w1)"
    and "hashRefreshToken P (base64url (map (entropy w1 (draws w1 + 2)) [0..<32])) \<notin> rt_tokenHash ` set (refresh_tokens w1)"
  shows "\<exists>r. fst (loginHandler P body req res w) = Inr (Respond r) \<and> rs_status r = 200"
proof -
  obtain t w2 where s: "signAccessToken P (subject_of P user) w1 = (Inr t, w2)"
    and w2: "users w2 = users w1" "refresh_tokens w2 = refresh_tokens w1" "pg_fate w2 = pg_fate w1" "uuids w2 = uuids w1"
      "entropy w2 = entropy w1" "draws w2 = Suc (draws w1)" using sign_runs [OF assms(5,6)] by blast
  have "\<exists>x w3. issueRefreshToken P (au_id user) (requestMeta req) None w2 = (Inr x, w3) \<and> pg_up w3"
    using assms(7-10) by (intro issue_runs) (simp_all add: w2 pg_up_def numeral_3_eq_3)
  then obtain x w3 where i: "issueRefreshToken P (au_id user) (requestMeta req) None w2 = (Inr x, w3)"
    and up: "pg_up w3" by blast
  obtain w4 where m: "markLastLogin (au_id user) w3 = (Inr (), w4)"
    using up by (simp add: markLastLogin_def now_run await_run pg_def Let_def pg_up_def)
  obtain w5 where "writeAuditEvent (auditMeta (requestMeta req) ((audit_event ''auth.login'' ''success'')
       \<lparr>user_id := Some (au_id user), resource := Some ''/v1/auth/login''\<rparr>)) w4 = (Inr (), w5)"
    using writeAudit_Inr by blast
  with s i m have "login_issue P user req res w1 =
      (Inr (Respond (send_json 200 (token_response P (sat_token t) (ir_plaintext x)) res)), w5)"
    by (simp add: login_issue_def)
  then show ?thesis using assms(1-4) by (simp add: loginHandler_alt truthy_def send_json_def)
qed

text \<open>
  C33. A user who presents the right password gets tokens: when the lookup finds the active user and
  the password compares, the signing keys load, the database answers and the fresh identifiers are
  new, the login succeeds.
\<close>

theorem login_succeeds:
  assumes "findUserByEmail P (lb_email body) w = (Inr (Some (user, Some hash)), w1)"
    and "au_isActive user" and "hash \<noteq> []" and "bcryptCompare P (lb_password body) hash"
    and "load_keys P = Inr ks" and "key_caches P w1" and "pg_up w1" and "au_id user \<in> ur_id ` set (users w1)"
    and "uuids w1 (draws w1 + 3) \<notin> rt_id ` set (refresh_tokens w1)"
    and "hashRefreshToken P (base64url (map (entropy w1 (draws w1 + 2)) [0..<32])) \<notin> rt_tokenHash ` set (refresh_tokens w1)"
  shows "\<exists>r. fst (loginHandler P body req res w) = Inr (Respond r) \<and> rs_status r = 200"
  by (rule login_runs [OF assms])

section \<open>A world with a user\<close>

text \<open>Empty caches are coherent with anything.\<close>

lemma coherent_cold: "lru.coherent Q []"
  by (simp add: lru.coherent_def lru_ok_def)

definition user_world :: "string \<Rightarrow> key_row list \<Rightarrow> bool \<Rightarrow> mem_redis world" where
  "user_world c keys a = world0\<lparr>users := [demo_row c\<lparr>ur_isActive := a\<rparr>], tenant_encryption_keys := keys,
     dekCache := [], activeVersionCache := [], refresh_tokens := [demo_token]\<rparr>"

lemma user_world_simps [simp]:
  "users (user_world c keys a) = [demo_row c\<lparr>ur_isActive := a\<rparr>]" "tenant_encryption_keys (user_world c keys a) = keys"
  "refresh_tokens (user_world c keys a) = [demo_token]" "pg_fate (user_world c keys a) = (\<lambda>_. Served)"
  "redis (user_world c keys a) = redis0" "clock (user_world c keys a) = 1000" "lag (user_world c keys a) = (\<lambda>_. 0)"
  "draws (user_world c keys a) = 0" "uuids (user_world c keys a) = uuids world0"
  "entropy (user_world c keys a) = entropy world0" "cachedKeys (user_world c keys a) = None"
  "cachedJwksDocument (user_world c keys a) = None" "cachedVerifyKeySet (user_world c keys a) = None"
  "audit_log (user_world c keys a) = []" "log_lines (user_world c keys a) = []"
  by (simp_all add: user_world_def)

lemma demo_user_world: "\<exists>c keys. \<forall>a. dek_inv demo (user_world c keys a) \<and> opens demo keys None c ''a@b''"
proof -
  obtain c w1 where enc: "encryptEmail demo ''a@b'' None world0 = (Inr c, w1)"
    using demo_encryptEmail by blast
  have o: "opens demo (tenant_encryption_keys w1) None c ''a@b''" and inv: "dek_inv demo w1"
    using encryptEmail_opens [OF demo_gcm demo_hkdf_laws dek_inv_world0 enc] by simp_all
  have "dek_inv demo (user_world c (tenant_encryption_keys w1) a)" for a
    using inv by (simp add: user_world_def dek_inv_def caches_ok_def coherent_cold)
  with o show ?thesis by blast
qed

text \<open>Nothing a lookup touches matters to a login.\<close>

definition looked_up :: "'r world \<Rightarrow> 'r world \<Rightarrow> bool" where
  "looked_up w w' \<longleftrightarrow> (users w', refresh_tokens w', tenant_encryption_keys w', audit_log w', redis w', cachedKeys w',
     cachedJwksDocument w', cachedVerifyKeySet w', log_lines w', pg_fate w', uuids w', entropy w', draws w') =
   (users w, refresh_tokens w, tenant_encryption_keys w, audit_log w, redis w, cachedKeys w,
     cachedJwksDocument w, cachedVerifyKeySet w, log_lines w, pg_fate w, uuids w, entropy w, draws w)"

lemma lookup_looked_up: "findUserByEmail P e w = (r, w') \<Longrightarrow> looked_up w w'"
  unfolding looked_up_def by (rule keepsD [OF keeps_user_lookup(1)]) simp_all

lemma find_looked_up: "findUserById P i w = (r, w') \<Longrightarrow> looked_up w w'"
  unfolding looked_up_def by (rule keepsD [OF keeps_user_lookup(2)]) simp_all

lemma demo_found:
  assumes "dek_inv demo (user_world c keys a)" and "opens demo keys None c ''a@b''"
  shows "\<exists>w1. findUserByEmail demo ''a@b'' (user_world c keys a) =
      (Inr (Some (user_of_row (demo_row c\<lparr>ur_isActive := a\<rparr>) ''a@b'', Some ''$pw'')), w1) \<and> looked_up (user_world c keys a) w1"
proof -
  let ?row = "demo_row c\<lparr>ur_isActive := a\<rparr>"
  have "fst (findUserByEmail demo ''a@b'' (user_world c keys a)) = Inr (Some (user_of_row ?row ''a@b'', ur_passwordHash ?row))"
    by (rule user_found [OF assms(1)]) (use assms(2) in \<open>simp_all add: pg_up_def demo_row_def\<close>)
  moreover obtain r w1 where run: "findUserByEmail demo ''a@b'' (user_world c keys a) = (r, w1)" by fastforce
  ultimately have "r = Inr (Some (user_of_row ?row ''a@b'', Some ''$pw''))" by (simp add: demo_row_def)
  with run lookup_looked_up [OF run] show ?thesis by blast
qed

definition demo_login :: login_body where
  "demo_login = \<lparr>lb_email = ''a@b'', lb_password = ''pw''\<rparr>"

lemma demo_plaintext2: "base64url (map (entropy world0 2) [0..<32]) \<noteq> ''tok''"
  by code_simp

lemma demo_login_premises:
  "\<exists>c keys w1. findUserByEmail demo (lb_email demo_login) (user_world c keys True) =
      (Inr (Some (user_of_row (demo_row c) ''a@b'', Some ''$pw'')), w1) \<and>
    key_caches demo w1 \<and> pg_up w1 \<and> users w1 = [demo_row c] \<and>
    uuids w1 (draws w1 + 3) \<notin> rt_id ` set (refresh_tokens w1) \<and>
    hashRefreshToken demo (base64url (map (entropy w1 (draws w1 + 2)) [0..<32])) \<notin> rt_tokenHash ` set (refresh_tokens w1)"
proof -
  obtain c keys where w: "dek_inv demo (user_world c keys True)" "opens demo keys None c ''a@b''"
    using demo_user_world by blast
  have row: "demo_row c\<lparr>ur_isActive := True\<rparr> = demo_row c" by (simp add: demo_row_def)
  obtain w1 where f: "findUserByEmail demo ''a@b'' (user_world c keys True) =
      (Inr (Some (user_of_row (demo_row c) ''a@b'', Some ''$pw'')), w1)"
    and l: "looked_up (user_world c keys True) w1" using demo_found [OF w] unfolding row by blast
  have "key_caches demo w1" using l by (intro key_caches_empty) (simp_all add: looked_up_def)
  moreover have "uuids world0 3 \<noteq> ''t1''" by (simp add: world0_def)
  ultimately show ?thesis using f l demo_plaintext2 [unfolded numeral_2_eq_2]
    by (intro exI [of _ c] exI [of _ keys] exI [of _ w1]) (simp add: looked_up_def pg_up_def demo_login_def row)
qed

lemma demo_password: "bcryptCompare demo (lb_password demo_login) ''$pw''"
  by (simp add: demo_def demo_login_def)

lemma demo_user: "au_isActive (user_of_row (demo_row c) m)" "au_id (user_of_row (demo_row c) m) = ''u1''" "ur_id (demo_row c) = ''u1''"
  by (simp_all add: user_of_row_def demo_row_def)

lemma login_succeeds_witness:
  "\<exists>c keys r. fst (loginHandler demo demo_login demo_request response0 (user_world c keys True)) = Inr (Respond r) \<and> rs_status r = 200"
proof -
  obtain c keys w1 where p: "findUserByEmail demo (lb_email demo_login) (user_world c keys True) =
      (Inr (Some (user_of_row (demo_row c) ''a@b'', Some ''$pw'')), w1)"
    "key_caches demo w1" "pg_up w1" "users w1 = [demo_row c]" "uuids w1 (draws w1 + 3) \<notin> rt_id ` set (refresh_tokens w1)"
    "hashRefreshToken demo (base64url (map (entropy w1 (draws w1 + 2)) [0..<32])) \<notin> rt_tokenHash ` set (refresh_tokens w1)"
    using demo_login_premises by blast
  have "\<exists>r. fst (loginHandler demo demo_login demo_request response0 (user_world c keys True)) = Inr (Respond r) \<and> rs_status r = 200"
    by (rule login_succeeds [OF p(1) demo_user(1) _ demo_password demo_load p(2,3) _ p(5,6)])
      (simp_all add: p(4) demo_user)
  then show ?thesis by blast
qed

lemma demo_logs_in:
  "\<exists>c keys r w'. loginHandler demo demo_login demo_request response0 (user_world c keys True) = (Inr (Respond r), w')"
proof -
  obtain c keys w1 where p: "findUserByEmail demo (lb_email demo_login) (user_world c keys True) =
      (Inr (Some (user_of_row (demo_row c) ''a@b'', Some ''$pw'')), w1)"
    "key_caches demo w1" "pg_up w1" "users w1 = [demo_row c]" "uuids w1 (draws w1 + 3) \<notin> rt_id ` set (refresh_tokens w1)"
    "hashRefreshToken demo (base64url (map (entropy w1 (draws w1 + 2)) [0..<32])) \<notin> rt_tokenHash ` set (refresh_tokens w1)"
    using demo_login_premises by blast
  have "\<exists>r. fst (loginHandler demo demo_login demo_request response0 (user_world c keys True)) = Inr (Respond r) \<and> rs_status r = 200"
    by (rule login_runs [OF p(1) demo_user(1) _ demo_password demo_load p(2,3) _ p(5,6)])
      (simp_all add: p(4) demo_user)
  then obtain r where "fst (loginHandler demo demo_login demo_request response0 (user_world c keys True)) = Inr (Respond r)"
    by blast
  then show ?thesis by (metis prod.collapse)
qed

lemma login_sound_witness:
  "\<exists>c keys r w'. loginHandler demo demo_login demo_request response0 (user_world c keys True) = (Inr (Respond r), w') \<and>
    (\<exists>u f h. adds u f h [demo_token] (refresh_tokens w'))"
proof -
  obtain c keys r w' where run: "loginHandler demo demo_login demo_request response0 (user_world c keys True) = (Inr (Respond r), w')"
    using demo_logs_in by blast
  from login_sound [OF run] have "\<exists>u f h. adds u f h [demo_token] (refresh_tokens w')" by auto
  with run show ?thesis by blast
qed

lemma login_failure_uniform_witness:
  "\<exists>w'. loginHandler demo demo_login demo_request response0 world0 =
      (Inr (Fail invalid_credentials_default demo_request response0), w') \<and>
    (\<exists>user. recorded (login_failed user (requestMeta demo_request)) world0 w')"
proof -
  have f: "findUserByEmail demo (lb_email demo_login) world0 = (Inr None, tick world0)"
    by (simp add: findUserByEmail_def select_rows_def pg_def Let_def await_run)
  obtain w' where "writeAuditEvent (login_failed None (requestMeta demo_request)) (tick world0) = (Inr (), w')"
    using writeAudit_Inr by blast
  then have run: "loginHandler demo demo_login demo_request response0 world0 =
      (Inr (Fail invalid_credentials_default demo_request response0), w')"
    by (simp add: loginHandler_alt f login_reject_def)
  with login_failure_uniform [OF run] show ?thesis by blast
qed

end
