(* ===== verification/Slots.thy ===== *)
theory Slots
  imports TokenProofs
begin

text \<open>
  The idempotency slots of the refresh endpoint: what is completed is what a waiting request
  reads, and a slot has one owner until it is released or its 30 seconds are over.
\<close>

lemma entry_round_trip [simp]: "entry_of_json (entry_json e) = Some e"
  by (cases e) (simp_all add: entry_of_json_def str_member_def member_def)

lemma entry_wire [simp]: "wire_json (entry_json e)"
  by (cases e) simp_all

lemma entry_not_null [simp]: "entry_json e \<noteq> JNull"
  by (cases e) simp_all

lemma parse_entry [simp]: "parse (stringify (entry_json e)) = Some (entry_json e)"
  by (rule parse_stringify) simp

lemma idempotencyRedisKey_inject [simp]: "idempotencyRedisKey k = idempotencyRedisKey k' \<longleftrightarrow> k = k'"
  by (simp add: idempotencyRedisKey_def)

text \<open>\<open>holds P e s\<close>: the ciphertext \<open>s\<close> is not empty and reads as the entry \<open>e\<close>.\<close>

definition holds :: "'r platform \<Rightarrow> idempotency_entry \<Rightarrow> string \<Rightarrow> bool" where
  "holds P e s \<longleftrightarrow> s \<noteq> [] \<and> decryptIdempotencyCacheValue P s = Inr (stringify (entry_json e))"

lemma encrypt_holds:
  assumes "gcm_laws P" and "hkdf_laws P"
    and run: "encryptIdempotencyCacheValue P (stringify (entry_json e)) w = (r, w')"
  obtains s where "r = Inr s" and "holds P e s" and "w' = w\<lparr>draws := Suc (draws w)\<rparr>"
proof -
  let ?k = "idempotencyCacheKey P" and ?pt = "utf8 (stringify (entry_json e))"
  have len: "length ?k = 32" by (simp add: idempotencyCacheKey_def length_deriveKey assms(2))
  obtain s where s: "encryptWithKey P ?k ?pt w = (Inr s, w\<lparr>draws := Suc (draws w)\<rparr>)"
    using encryptWithKey_total [OF assms(1) len] by blast
  have "decryptWithKey P ?k s = Inr ?pt" by (rule decrypt_encrypt [OF assms(1) len s])
  moreover have "s \<noteq> []"
  proof
    assume "s = []"
    moreover obtain ct tag where "s = base64 (map (entropy w (draws w)) [0..<12] @ tag @ ct)"
      using encryptWithKey_Inr [OF s] by (auto simp: Let_def)
    ultimately have "base64_decode [] = map (entropy w (draws w)) [0..<12] @ tag @ ct"
      by (metis base64_decode_base64)
    then show False by (simp add: base64_decode_def)
  qed
  ultimately have "holds P e s" by (simp add: holds_def decryptIdempotencyCacheValue_def)
  moreover have "r = Inr s" and "w' = w\<lparr>draws := Suc (draws w)\<rparr>"
    using run s by (simp_all add: encryptIdempotencyCacheValue_def)
  ultimately show thesis using that by blast
qed

lemma getEntry_live:
  assumes srv: "redis_server (redisExec P) view" and "holds P e s"
    and l: "live view (idempotencyRedisKey k) s t w" and t: "clock (tick w) < t"
    and run: "getIdempotencyCacheEntry P k w = (r, w')"
  shows "r = Inr (Some e) \<or> (\<exists>m. r = Inl (RedisExn m))"
proof -
  obtain res w1 where get: "redis_call P (GET (idempotencyRedisKey k)) w = (res, w1)" by fastforce
  from redis_run [OF get] obtain x r1 where
    ex: "redisExec P (GET (idempotencyRedisKey k)) (clock (tick w)) (redis w) = (x, r1)"
    and res: "case x of Inl m \<Rightarrow> res = Inl (RedisExn m) | Inr y \<Rightarrow> res = Inr y" by blast
  have v: "view (redis w) (clock (tick w)) (idempotencyRedisKey k) = Some s"
    using l t clock_tick [of w] by (auto simp: live_def)
  show ?thesis
  proof (cases x)
    case (Inl m)
    with res run get show ?thesis by (auto simp: getIdempotencyCacheEntry_def)
  next
    case (Inr y)
    then have "y = Bulk s" using redis_server.get_reply [OF srv] ex v by fastforce
    with Inr res run get assms(2) show ?thesis
      by (auto simp: getIdempotencyCacheEntry_def holds_def)
  qed
qed

lemma completeIdempotentRefresh_live:
  assumes "gcm_laws P" and "hkdf_laws P" and srv: "redis_server (redisExec P) view"
    and run: "completeIdempotentRefresh P k res w = (Inr u, w')"
  obtains s where "holds P (Done res) s" and "live view (idempotencyRedisKey k) s (clock w + 30000) w'"
proof -
  obtain r w1 where enc: "encryptIdempotencyCacheValue P (stringify (entry_json (Done res))) w = (r, w1)"
    by fastforce
  obtain s where s: "r = Inr s" "holds P (Done res) s" "w1 = w\<lparr>draws := Suc (draws w)\<rparr>"
    using encrypt_holds [OF assms(1,2) enc] .
  obtain x where set: "redis_call P (SETEX (idempotencyRedisKey k) s 30) w1 = (Inr x, w')"
    using run enc s(1) by (auto simp: completeIdempotentRefresh_def IDEMPOTENCY_REFRESH_TTL_SECONDS_def
        elim!: await_InrE)
  have "live view (idempotencyRedisKey k) s (clock w + 30000) w'"
    by (rule setex_live [OF srv _ _ set]) (simp_all add: s)
  with s(2) that show thesis by blast
qed

text \<open>
  Within 30 seconds of its completion, and unless somebody else writes the slot, a request
  with the same idempotency key reads exactly the token pair the slot was completed with,
  decrypted and parsed.
\<close>

theorem idempotency_round_trip:
  assumes "gcm_laws P" and "hkdf_laws P" and "redis_server (redisExec P) view"
    and "completeIdempotentRefresh P k res w = (Inr u, w1)"
    and "undisturbed view (idempotencyRedisKey k) w1 w2" and "clock (tick w2) < clock w + 30000"
  shows "case fst (getIdempotencyCacheEntry P k w2) of
      Inr e \<Rightarrow> e = Some (Done res) | Inl e \<Rightarrow> \<exists>m. e = RedisExn m"
proof -
  obtain s where s: "holds P (Done res) s" "live view (idempotencyRedisKey k) s (clock w + 30000) w1"
    using completeIdempotentRefresh_live [OF assms(1-4)] .
  obtain r w' where run: "getIdempotencyCacheEntry P k w2 = (r, w')" by fastforce
  from getEntry_live [OF assms(3) s(1) undisturbedD [OF assms(5) s(2)] assms(6) run]
  show ?thesis by (auto simp: run)
qed

definition demo_result :: cached_refresh_result where
  "demo_result = \<lparr>cr_userId = ''u1'', cr_accessToken = ''a'', cr_refreshToken = ''r'',
     cr_presentedTokenHash = ''h''\<rparr>"

lemma idempotency_round_trip_witness:
  "\<exists>w1. completeIdempotentRefresh demo ''k'' demo_result world0 = (Inr (), w1) \<and>
    (case fst (getIdempotencyCacheEntry demo ''k'' w1) of
      Inr e \<Rightarrow> e = Some (Done demo_result) | Inl e \<Rightarrow> \<exists>m. e = RedisExn m)"
proof -
  obtain r w1 where enc: "encryptIdempotencyCacheValue demo (stringify (entry_json (Done demo_result))) world0 = (r, w1)"
    by fastforce
  obtain s where s: "r = Inr s" "w1 = world0\<lparr>draws := Suc (draws world0)\<rparr>"
    using encrypt_holds [OF demo_gcm demo_hkdf_laws enc] .
  obtain w2 where run: "completeIdempotentRefresh demo ''k'' demo_result world0 = (Inr (), w2)"
    and c: "clock w2 = 1000" "lag w2 = (\<lambda>_. 0)"
    using enc s by (simp add: completeIdempotentRefresh_def await_run redis_call_def Let_def tick_def
        mem_exec_def redis0_def)
  have "clock (tick w2) < clock world0 + 30000" using c by (simp add: tick_def)
  from idempotency_round_trip [OF demo_gcm demo_hkdf_laws mem_server run undisturbed_refl this] run
  show ?thesis by blast
qed

section \<open>One owner\<close>

lemma claim_true:
  assumes "gcm_laws P" and "hkdf_laws P" and srv: "redis_server (redisExec P) view"
    and run: "claimIdempotencyKey P k w = (Inr True, w')"
  obtains s where "holds P Pending s" and "live view (idempotencyRedisKey k) s (clock w + 30000) w'"
proof -
  let ?k = "idempotencyRedisKey k"
  obtain r w1 where enc: "encryptIdempotencyCacheValue P (stringify (entry_json Pending)) w = (r, w1)"
    by fastforce
  obtain s where s: "r = Inr s" "holds P Pending s" "w1 = w\<lparr>draws := Suc (draws w)\<rparr>"
    using encrypt_holds [OF assms(1,2) enc] .
  obtain x where set: "redis_call P (SETEXNX ?k s 30) w1 = (Inr OK, w')"
    using run enc s(1) by (auto simp: claimIdempotencyKey_def IDEMPOTENCY_REFRESH_TTL_SECONDS_def
        elim!: await_InrE)
  then obtain r1 where ex: "redisExec P (SETEXNX ?k s 30) (clock (tick w1)) (redis w1) = (Inr OK, r1)"
    and w': "w' = (tick w1)\<lparr>redis := r1\<rparr>" by (auto simp: redis_Inr)
  have free: "view (redis w1) (clock (tick w1)) ?k = None"
    using redis_server.setnx_taken [OF srv _ ex] by (cases "view (redis w1) (clock (tick w1)) ?k") auto
  then have "\<forall>t \<ge> clock (tick w1). view r1 t ?k = (if t < clock (tick w1) + 1000 * 30 then Some s else None)"
    using redis_server.setnx_free [OF srv _ free ex] by simp
  then have "live view ?k s (clock w + 30000) w'"
    using clock_tick [of w1] s(3) by (auto simp: live_def w')
  with s(2) that show thesis by blast
qed

lemma claim_taken:
  assumes "gcm_laws P" and "hkdf_laws P" and srv: "redis_server (redisExec P) view"
    and l: "live view (idempotencyRedisKey k) u t w" and t: "clock (tick w) < t"
    and run: "claimIdempotencyKey P k w = (r, w')"
  shows "r \<noteq> Inr True"
proof
  assume r: "r = Inr True"
  let ?k = "idempotencyRedisKey k"
  obtain q w1 where enc: "encryptIdempotencyCacheValue P (stringify (entry_json Pending)) w = (q, w1)"
    by fastforce
  obtain s where s: "q = Inr s" "w1 = w\<lparr>draws := Suc (draws w)\<rparr>"
    using encrypt_holds [OF assms(1,2) enc] .
  obtain x where "redis_call P (SETEXNX ?k s 30) w1 = (Inr OK, w')"
    using run r enc s(1) by (auto simp: claimIdempotencyKey_def IDEMPOTENCY_REFRESH_TTL_SECONDS_def
        elim!: await_InrE)
  then obtain r1 where ex: "redisExec P (SETEXNX ?k s 30) (clock (tick w1)) (redis w1) = (Inr OK, r1)"
    by (auto simp: redis_Inr)
  have "clock (tick w1) = clock (tick w)" using s(2) by (simp add: tick_def)
  then have "view (redis w1) (clock (tick w1)) ?k = Some u"
    using l t s(2) clock_tick [of w] by (auto simp: live_def)
  then show False using redis_server.setnx_taken [OF srv _ ex] by blast
qed

text \<open>
  At most one request owns an idempotency key: after a claim succeeded, no other claim of the
  same key succeeds within its 30 seconds unless the slot was written in between.
\<close>

theorem claim_exclusive:
  assumes "gcm_laws P" and "hkdf_laws P" and "redis_server (redisExec P) view"
    and "claimIdempotencyKey P k w = (Inr True, w1)"
    and "undisturbed view (idempotencyRedisKey k) w1 w2" and "clock (tick w2) < clock w + 30000"
  shows "fst (claimIdempotencyKey P k w2) \<noteq> Inr True"
proof -
  obtain s where "live view (idempotencyRedisKey k) s (clock w + 30000) w1"
    using claim_true [OF assms(1-4)] .
  from claim_taken [OF assms(1-3) undisturbedD [OF assms(5) this] assms(6)]
  show ?thesis by (metis prod.collapse)
qed

lemma demo_claim: "\<exists>w2. claimIdempotencyKey demo ''k'' world0 = (Inr True, w2) \<and> clock w2 = 1000 \<and> lag w2 = (\<lambda>_. 0)"
proof -
  obtain r w1 where enc: "encryptIdempotencyCacheValue demo (stringify (entry_json Pending)) world0 = (r, w1)"
    by fastforce
  obtain s where s: "r = Inr s" "w1 = world0\<lparr>draws := Suc (draws world0)\<rparr>"
    using encrypt_holds [OF demo_gcm demo_hkdf_laws enc] .
  then show ?thesis
    using enc by (simp add: claimIdempotencyKey_def await_run redis_call_def Let_def tick_def
        mem_exec_def redis0_def mem_view_def)
qed

lemma claim_exclusive_witness:
  "\<exists>w1. claimIdempotencyKey demo ''k'' world0 = (Inr True, w1) \<and>
     fst (claimIdempotencyKey demo ''k'' w1) \<noteq> Inr True"
proof -
  obtain w1 where run: "claimIdempotencyKey demo ''k'' world0 = (Inr True, w1)"
    and c: "clock w1 = 1000" "lag w1 = (\<lambda>_. 0)" using demo_claim by blast
  have "clock (tick w1) < clock world0 + 30000" using c by (simp add: tick_def)
  from claim_exclusive [OF demo_gcm demo_hkdf_laws mem_server run undisturbed_refl this] run
  show ?thesis by blast
qed

end
