(* ===== verification/SessionRoutes.thy ===== *)
theory SessionRoutes
  imports Login Slots
begin

text \<open>
  \<open>POST /v1/auth/refresh\<close> and \<open>POST /v1/auth/logout\<close>: a retried refresh gets the pair the
  first one got, waiting is bounded, what a refresh hands out, and what a logout ends.
\<close>

section \<open>Waiting for another request\<close>

lemma getEntry_world:
  "getIdempotencyCacheEntry P k w = (r, w') \<Longrightarrow> \<exists>r0. w' = (tick w)\<lparr>redis := r0\<rparr>"
proof -
  assume run: "getIdempotencyCacheEntry P k w = (r, w')"
  obtain res w1 where get: "redis_call P (GET (idempotencyRedisKey k)) w = (res, w1)" by fastforce
  from redis_run [OF get] obtain r0 where w1: "w1 = (tick w)\<lparr>redis := r0\<rparr>" by blast
  have "w' = w1"
  proof (cases res)
    case (Inl e)
    with run get show ?thesis by (simp add: getIdempotencyCacheEntry_def)
  next
    case (Inr y)
    with run get show ?thesis
      by (auto simp: getIdempotencyCacheEntry_def await_run
          split: redis_reply.splits if_splits sum.splits option.splits)
  qed
  with w1 show ?thesis by blast
qed

lemma wait_attempts_clock:
  assumes "\<And>w. clock (others w) = clock w \<and> lag (others w) = lag w" and "\<forall>n. int (lag w n) \<le> L"
  shows "clock (snd (wait_attempts P others k h n w)) \<le> clock w + int n * (IDEMPOTENCY_CLAIM_WAIT_MS + L)"
  using assms(2)
proof (induction n arbitrary: w)
  case (Suc n)
  have L: "0 \<le> L" using Suc.prems by (meson dual_order.trans of_nat_0_le_iff)
  obtain r w1 where get: "getIdempotencyCacheEntry P k w = (r, w1)" by fastforce
  then obtain r0 where w1: "w1 = (tick w)\<lparr>redis := r0\<rparr>" using getEntry_world by blast
  have c1: "clock w1 \<le> clock w + L" using Suc.prems by (simp add: w1 tick_def)
  have step: "clock w + L \<le> clock w + int (Suc n) * (IDEMPOTENCY_CLAIM_WAIT_MS + L)"
    using L mult_nonneg_nonneg [of "int n" "IDEMPOTENCY_CLAIM_WAIT_MS + L"]
    by (simp add: IDEMPOTENCY_CLAIM_WAIT_MS_def algebra_simps)
  show ?case
  proof (cases "r = Inr (Some Pending)")
    case False
    then have "snd (wait_attempts P others k h (Suc n) w) = w1"
      using get by (cases r) (auto simp: await_run split: option.splits idempotency_entry.splits)
    then show ?thesis using order_trans [OF c1 step] by simp
  next
    case True
    let ?w2 = "others (w1\<lparr>clock := clock w1 + IDEMPOTENCY_CLAIM_WAIT_MS\<rparr>)"
    have "snd (wait_attempts P others k h (Suc n) w) = snd (wait_attempts P others k h n ?w2)"
      using True get by (simp add: delay_def)
    moreover have "\<forall>m. int (lag ?w2 m) \<le> L" using assms(1) Suc.prems by (simp add: w1)
    from Suc.IH [OF this] have "clock (snd (wait_attempts P others k h n ?w2)) \<le>
        clock ?w2 + int n * (IDEMPOTENCY_CLAIM_WAIT_MS + L)" .
    moreover have "clock ?w2 = clock w1 + IDEMPOTENCY_CLAIM_WAIT_MS" using assms(1) by simp
    ultimately show ?thesis using c1 by (simp add: algebra_simps)
  qed
qed simp

text \<open>
  A request that waits for the owner of its idempotency key gives up after five looks, however
  the slot changes meanwhile: if every Redis call takes at most \<open>L\<close> milliseconds and the others
  do not turn the clock back or slow the calls down, its wait is over within five times fifty
  milliseconds and five calls.
\<close>

theorem wait_bounded:
  assumes "\<And>w. clock (others w) = clock w \<and> lag (others w) = lag w" and "\<forall>n. int (lag w n) \<le> L"
  shows "clock (snd (waitForIdempotentResult P others k h w)) \<le> clock w + 5 * (50 + L)"
  using wait_attempts_clock [of others w L P k h 5, OF assms]
  by (simp add: waitForIdempotentResult_def IDEMPOTENCY_CLAIM_WAIT_ATTEMPTS_def IDEMPOTENCY_CLAIM_WAIT_MS_def)

lemma wait_bounded_witness:
  "clock (snd (waitForIdempotentResult demo (\<lambda>w. w) ''k'' ''h'' world0)) \<le> 1000 + 5 * (50 + 0)"
  using wait_bounded [of "\<lambda>w. w" world0 0 demo "''k''" "''h''"] by simp

section \<open>A retried refresh\<close>

lemma claim_taken_keeps:
  assumes "gcm_laws P" and "hkdf_laws P" and srv: "redis_server (redisExec P) view"
    and l: "live view (idempotencyRedisKey k) u t w" and t: "clock (tick w) < t"
    and run: "claimIdempotencyKey P k w = (Inr b, w')"
  shows "\<not> b \<and> live view (idempotencyRedisKey k) u t w' \<and> clock w' = clock (tick w) \<and> clock (tick w') = clock (tick (tick w))
    \<and> refresh_tokens w' = refresh_tokens w"
proof -
  let ?k = "idempotencyRedisKey k"
  obtain q w1 where enc: "encryptIdempotencyCacheValue P (stringify (entry_json Pending)) w = (q, w1)"
    by fastforce
  obtain s where s: "q = Inr s" "w1 = w\<lparr>draws := Suc (draws w)\<rparr>"
    using encrypt_holds [OF assms(1,2) enc] .
  obtain x where "redis_call P (SETEXNX ?k s 30) w1 = (Inr x, w')" and b: "b = (x = OK)"
    using run enc s(1) by (auto simp: claimIdempotencyKey_def IDEMPOTENCY_REFRESH_TTL_SECONDS_def
        elim!: await_InrE)
  then obtain r1 where ex: "redisExec P (SETEXNX ?k s 30) (clock (tick w1)) (redis w1) = (Inr x, r1)"
    and w': "w' = (tick w1)\<lparr>redis := r1\<rparr>" by (auto simp: redis_Inr)
  have c: "clock (tick w1) = clock (tick w)" using s(2) by (simp add: tick_def)
  then have "view (redis w1) (clock (tick w1)) ?k = Some u"
    using l t s(2) clock_tick [of w] by (auto simp: live_def)
  from redis_server.setnx_taken [OF srv this ex]
  have x: "x = Nil_reply" and v: "\<forall>t' \<ge> clock (tick w1). view r1 t' ?k = view (redis w1) t' ?k" by auto
  have "live view ?k u t w'"
    using l v clock_tick [of w] unfolding live_def w' using c s(2) by auto
  moreover have "clock (tick w') = clock (tick (tick w))" by (simp add: w' s(2) tick_def)
  ultimately show ?thesis using x b c by (simp add: w' s(2))
qed

lemma claim_fails:
  assumes "gcm_laws P" and "hkdf_laws P" and run: "claimIdempotencyKey P k w = (Inl e, w')"
  shows "\<exists>m. e = RedisExn m"
proof -
  obtain q w1 where enc: "encryptIdempotencyCacheValue P (stringify (entry_json Pending)) w = (q, w1)"
    by fastforce
  obtain x where "q = Inr x" using encrypt_holds [OF assms(1,2) enc] .
  then show ?thesis using run enc
    by (auto simp: claimIdempotencyKey_def await_run redis_call_def Let_def split: prod.splits sum.splits)
qed

lemma waiting_looks:
  "waitForIdempotentResult P others k h = await (getIdempotencyCacheEntry P k) (\<lambda>entry. case entry of
     Some (Done r) \<Rightarrow> pure (if cr_presentedTokenHash r = h then Some r else None)
   | None \<Rightarrow> pure None
   | Some Pending \<Rightarrow> await (delay others IDEMPOTENCY_CLAIM_WAIT_MS) (\<lambda>_. wait_attempts P others k h 4))"
  using wait_attempts.simps(2) [of P others k h 4]
  by (simp add: waitForIdempotentResult_def IDEMPOTENCY_CLAIM_WAIT_ATTEMPTS_def)

lemma wait_finds:
  assumes "redis_server (redisExec P) view" and "holds P (Done r) s"
    and "live view (idempotencyRedisKey k) s t w" and "clock (tick w) < t"
  shows "case fst (waitForIdempotentResult P others k (cr_presentedTokenHash r) w) of
      Inr x \<Rightarrow> x = Some r | Inl e \<Rightarrow> \<exists>m. e = RedisExn m"
    and "refresh_tokens (snd (waitForIdempotentResult P others k (cr_presentedTokenHash r) w)) = refresh_tokens w"
proof -
  obtain x w' where get: "getIdempotencyCacheEntry P k w = (x, w')" by fastforce
  note f = getEntry_live [OF assms get]
  have rows: "refresh_tokens w' = refresh_tokens w" using getEntry_world [OF get] by auto
  note five = waiting_looks [of P others k "cr_presentedTokenHash r"]
  show "case fst (waitForIdempotentResult P others k (cr_presentedTokenHash r) w) of
      Inr x \<Rightarrow> x = Some r | Inl e \<Rightarrow> \<exists>m. e = RedisExn m"
    using f get by (auto simp: five)
  show "refresh_tokens (snd (waitForIdempotentResult P others k (cr_presentedTokenHash r) w)) = refresh_tokens w"
    using f get rows by (auto simp: five)
qed

text \<open>
  A client that repeats a refresh request with its idempotency key, after the first one was
  completed and within 30 seconds, gets the token pair the first one got; the token it presents is
  not presented to rotation again, so the retry does not count as a replay: no row of the token
  table changes. Only Redis not answering can prevent it.
\<close>

theorem refresh_retry_same_pair:
  assumes "gcm_laws P" and "hkdf_laws P" and "redis_server (redisExec P) view"
    and "completeIdempotentRefresh P k r w = (Inr u, w1)"
    and "undisturbed view (idempotencyRedisKey k) w1 w2" and "clock (tick (tick w2)) < clock w + 30000"
    and "rb_idempotency_key body = Some k" and "k \<noteq> []"
    and "cr_presentedTokenHash r = hashRefreshToken P (rb_refresh_token body)"
  shows "case fst (refreshHandler P others body req res w2) of
      Inr st \<Rightarrow> st = Respond (send_json 200 (token_response P (cr_accessToken r) (cr_refreshToken r)) res) \<and>
        refresh_tokens (snd (refreshHandler P others body req res w2)) = refresh_tokens w2
    | Inl e \<Rightarrow> \<exists>m. e = RedisExn m"
proof -
  obtain s where s: "holds P (Done r) s" "live view (idempotencyRedisKey k) s (clock w + 30000) w1"
    using completeIdempotentRefresh_live [OF assms(1-4)] .
  note l2 = undisturbedD [OF assms(5) s(2)]
  have t: "clock (tick w2) < clock w + 30000" using assms(6) clock_tick [of "tick w2"] by linarith
  obtain c w3 where claim: "claimIdempotencyKey P k w2 = (c, w3)" by fastforce
  have key: "truthy (Some k)" using assms(8) by (simp add: truthy_def)
  show ?thesis
  proof (cases c)
    case (Inl e)
    then have "\<exists>m. e = RedisExn m" using claim_fails [OF assms(1,2)] claim by simp
    then show ?thesis using claim Inl key assms(7) by (simp add: refreshHandler_def Let_def)
  next
    case (Inr b)
    then have c: "claimIdempotencyKey P k w2 = (Inr b, w3)" using claim by simp
    from claim_taken_keeps [OF assms(1-3) l2 t c]
    have w3: "\<not> b" "live view (idempotencyRedisKey k) s (clock w + 30000) w3" "clock (tick w3) < clock w + 30000"
      "refresh_tokens w3 = refresh_tokens w2" using assms(6) by auto
    note wf = wait_finds [OF assms(3) s(1) w3(2,3), of others]
    obtain x w4 where wt: "waitForIdempotentResult P others k (cr_presentedTokenHash r) w3 = (x, w4)" by fastforce
    show ?thesis using wf w3(1,4) c wt key assms(7,9)
      by (cases x) (auto simp: refreshHandler_def Let_def)
  qed
qed

definition demo_refresh :: "string option \<Rightarrow> refresh_body" where
  "demo_refresh k = \<lparr>rb_refresh_token = ''tok'', rb_idempotency_key = k\<rparr>"

definition demo_pair_result :: cached_refresh_result where
  "demo_pair_result = demo_result\<lparr>cr_presentedTokenHash := hashRefreshToken demo ''tok''\<rparr>"

lemma demo_completes: "\<exists>w1. completeIdempotentRefresh demo ''k'' r world0 = (Inr (), w1) \<and> clock w1 = 1000 \<and> lag w1 = (\<lambda>_. 0)"
proof -
  obtain q w1 where enc: "encryptIdempotencyCacheValue demo (stringify (entry_json (Done r))) world0 = (q, w1)"
    by fastforce
  obtain s where "q = Inr s" "w1 = world0\<lparr>draws := Suc (draws world0)\<rparr>"
    using encrypt_holds [OF demo_gcm demo_hkdf_laws enc] .
  with enc show ?thesis
    by (simp add: completeIdempotentRefresh_def await_run redis_call_def Let_def tick_def mem_exec_def redis0_def)
qed

lemma refresh_retry_same_pair_witness:
  "\<exists>w1. completeIdempotentRefresh demo ''k'' demo_pair_result world0 = (Inr (), w1) \<and>
    (case fst (refreshHandler demo (\<lambda>w. w) (demo_refresh (Some ''k'')) demo_request response0 w1) of
      Inr st \<Rightarrow> st = Respond (send_json 200 (token_response demo ''a'' ''r'') response0) \<and>
        refresh_tokens (snd (refreshHandler demo (\<lambda>w. w) (demo_refresh (Some ''k'')) demo_request response0 w1)) = refresh_tokens w1
    | Inl e \<Rightarrow> \<exists>m. e = RedisExn m)"
proof -
  obtain w1 where run: "completeIdempotentRefresh demo ''k'' demo_pair_result world0 = (Inr (), w1)"
    and c: "clock w1 = 1000" "lag w1 = (\<lambda>_. 0)" using demo_completes by blast
  have "clock (tick (tick w1)) < clock world0 + 30000" using c by (simp add: tick_def)
  moreover have "rb_idempotency_key (demo_refresh (Some ''k'')) = Some ''k''"
    and "cr_presentedTokenHash demo_pair_result = hashRefreshToken demo (rb_refresh_token (demo_refresh (Some ''k'')))"
    and "cr_accessToken demo_pair_result = ''a''" "cr_refreshToken demo_pair_result = ''r''"
    by (simp_all add: demo_refresh_def demo_pair_result_def demo_result_def)
  ultimately show ?thesis
    using refresh_retry_same_pair [where body = "demo_refresh (Some ''k'')" and others = "\<lambda>w. w" and req = demo_request
        and res = response0, OF demo_gcm demo_hkdf_laws mem_server run undisturbed_refl] run by (auto split: sum.splits)
qed

section \<open>What a refresh hands out\<close>

lemma refresh_failed_fails: "refresh_failed P owned e req res w = (Inr st, w') \<Longrightarrow> st = Fail e req res"
  by (auto simp: refresh_failed_def elim!: await_InrE split: option.splits if_splits)

lemma refresh_rotate_Respond:
  assumes "refresh_rotate P token owned req res w = (Inr (Respond r), w')"
  shows "\<exists>x user signed w2 w3 w4. rotateRefreshToken P token (requestMeta req) w = (Inr (Inr x), w2) \<and>
    findUserById P (rr_userId x) w2 = (Inr (Some user), w3) \<and> signAccessToken P (subject_of P user) w3 = (Inr signed, w4) \<and>
    r = send_json 200 (token_response P (sat_token signed) (ir_plaintext (rr_issued x))) res"
proof -
  obtain rot w2 where rt: "rotateRefreshToken P token (requestMeta req) w = (Inr rot, w2)"
    and rest: "(case rot of Inl e \<Rightarrow> refresh_failed P owned e req res
     | Inr x \<Rightarrow> refresh_rotated P (hashRefreshToken P token) owned x req res) w2 = (Inr (Respond r), w')"
    using assms unfolding refresh_rotate_def by (rule await_InrE)
  show ?thesis
  proof (cases rot)
    case (Inl e)
    with rest refresh_failed_fails show ?thesis by fastforce
  next
    case (Inr x)
    with rest obtain found w3 where f: "findUserById P (rr_userId x) w2 = (Inr found, w3)"
      by (auto simp: refresh_rotated_def elim!: await_InrE)
    with rest Inr obtain user where user: "found = Some user"
      by (cases found) (auto simp: refresh_rotated_def)
    with rest Inr f obtain signed w4 where "signAccessToken P (subject_of P user) w3 = (Inr signed, w4)"
      and "r = send_json 200 (token_response P (sat_token signed) (ir_plaintext (rr_issued x))) res"
      by (auto simp: refresh_rotated_def elim!: await_InrE)
    with rt Inr f user show ?thesis by blast
  qed
qed

lemma wait_source:
  "wait_attempts P others k h n w = (Inr (Some c), w') \<Longrightarrow> cr_presentedTokenHash c = h \<and>
     (\<exists>w1 w2. getIdempotencyCacheEntry P k w1 = (Inr (Some (Done c)), w2))"
proof (induction n arbitrary: w)
  case (Suc n)
  obtain entry w1 where get: "getIdempotencyCacheEntry P k w = (Inr entry, w1)"
    using Suc.prems by (auto elim!: await_InrE)
  show ?case
  proof (cases "entry = Some Pending")
    case True
    with Suc.prems get have "wait_attempts P others k h n (others (w1\<lparr>clock := clock w1 + IDEMPOTENCY_CLAIM_WAIT_MS\<rparr>)) = (Inr (Some c), w')"
      by (simp add: delay_def)
    then show ?thesis by (rule Suc.IH)
  next
    case False
    with Suc.prems get have "entry = Some (Done c)" "cr_presentedTokenHash c = h"
      by (auto split: option.splits idempotency_entry.splits if_splits)
    with get show ?thesis by blast
  qed
qed simp


section \<open>Deactivated users\<close>

lemma sign_total: "load_keys P = Inr ks \<Longrightarrow> key_caches P w \<Longrightarrow> \<exists>t w'. signAccessToken P s w = (Inr t, w')"
  using sign_runs by blast

lemma refresh_runs:
  assumes "rb_idempotency_key body = None"
    and "rotateRefreshToken P (rb_refresh_token body) (requestMeta req) w = (Inr (Inr x), w1)"
    and "findUserById P (rr_userId x) w1 = (Inr (Some user), w2)" and "load_keys P = Inr ks" and "key_caches P w2"
  shows "\<exists>r w'. refreshHandler P others body req res w = (Inr (Respond r), w') \<and> rs_status r = 200"
proof -
  obtain t w5 where s: "signAccessToken P (subject_of P user) w2 = (Inr t, w5)" using sign_total [OF assms(4,5)] by blast
  obtain w6 where "writeAuditEvent ((audit_event ''auth.token_refresh'' ''success'')
      \<lparr>user_id := Some (au_id user), resource := Some ''/v1/auth/refresh''\<rparr>) w5 = (Inr (), w6)"
    using writeAudit_Inr by blast
  then show ?thesis
    using assms(1-3) s
    by (simp add: refreshHandler_def Let_def truthy_def refresh_rotate_def refresh_rotated_def send_json_def)
qed

text \<open>
  C40. Deactivating a user stops the login and not the sessions: a user who is not active, whom the
  login refuses whatever the password, still gets a new token pair for a live refresh token.
\<close>

theorem refresh_serves_deactivated:
  assumes "rb_idempotency_key body = None"
    and "rotateRefreshToken P (rb_refresh_token body) (requestMeta req) w = (Inr (Inr x), w1)"
    and "findUserById P (rr_userId x) w1 = (Inr (Some user), w2)" and "\<not> au_isActive user"
    and "load_keys P = Inr ks" and "key_caches P w2"
  shows "(\<exists>r. fst (refreshHandler P others body req res w) = Inr (Respond r) \<and> rs_status r = 200) \<and>
    (\<forall>b hash w3 w4. findUserByEmail P (lb_email b) w3 = (Inr (Some (user, hash)), w4) \<longrightarrow>
       fst (loginHandler P b req res w3) = Inr (Fail invalid_credentials_default req res))"
proof (intro conjI allI impI)
  show "\<exists>r. fst (refreshHandler P others body req res w) = Inr (Respond r) \<and> rs_status r = 200"
    using refresh_runs [OF assms(1-3,5,6), of others res] by auto
  fix b :: login_body and hash w3 w4 assume found: "findUserByEmail P (lb_email b) w3 = (Inr (Some (user, hash)), w4)"
  obtain w7 where "writeAuditEvent (login_failed None (requestMeta req)) w4 = (Inr (), w7)"
    using writeAudit_Inr by blast
  with found assms(4) show "fst (loginHandler P b req res w3) = Inr (Fail invalid_credentials_default req res)"
    by (simp add: loginHandler_alt login_reject_def)
qed

text \<open>What a rotation leaves alone.\<close>

lemma keeps_rotateRefreshToken:
  assumes "\<And>w. g (tick w) = g w" and "\<And>w n. g (w\<lparr>draws := n\<rparr>) = g w" and "\<And>w l. g (w\<lparr>refresh_tokens := l\<rparr>) = g w"
    and "\<And>w r. g (w\<lparr>redis := r\<rparr>) = g w" and "\<And>w l. g (w\<lparr>audit_log := l\<rparr>) = g w" and "\<And>w l. g (w\<lparr>log_lines := l\<rparr>) = g w"
  shows "keeps g (rotateRefreshToken P tok m)"
  unfolding rotateRefreshToken_def rotate_row_def Let_def by (intro io_rules assms)

lemma findUserById_finds:
  assumes "dek_inv P w" and "pg_up w" and "users w = [row]" and "ur_id row = i"
    and "opens P (tenant_encryption_keys w) (ur_tenantId row) (ur_email row) m"
  shows "\<exists>w'. findUserById P i w = (Inr (Some (user_of_row row m)), w') \<and> looked_up w w'"
proof -
  obtain r w' where run: "toAuthenticatedUser P row (tick w) = (r, w')" by fastforce
  have "fst (toAuthenticatedUser P row (tick w)) = Inr (user_of_row row m)"
    by (rule toAuthenticatedUser_opens [OF dek_inv_tick [OF assms(1)]]) (use assms in \<open>simp_all add: pg_up_def\<close>)
  then have "findUserById P i w = (Inr (Some (user_of_row row m)), w')"
    using run assms(2-4) by (simp add: findUserById_def select_rows_def pg_def Let_def pg_up_def)
  with find_looked_up show ?thesis by blast
qed

lemma demo_refresh_simps: "rb_idempotency_key (demo_refresh k) = k" "rb_refresh_token (demo_refresh k) = ''tok''"
  by (simp_all add: demo_refresh_def)

text \<open>A world with one user, active or not, and one live token: the token rotates.\<close>

definition demo_ready :: "string \<Rightarrow> bool \<Rightarrow> mem_redis world \<Rightarrow> bool" where
  "demo_ready c a w \<longleftrightarrow> dek_inv demo w \<and> opens demo (tenant_encryption_keys w) None c ''a@b'' \<and>
     users w = [demo_row c\<lparr>ur_isActive := a\<rparr>] \<and> refresh_tokens w = [demo_token] \<and> pg_up w \<and> up (redis w) \<and>
     clock (tick w) < 604800000 \<and> cachedKeys w = None \<and> cachedJwksDocument w = None \<and> cachedVerifyKeySet w = None \<and>
     uuids w (Suc (draws w)) \<noteq> ''t1'' \<and> base64url (map (entropy w (draws w)) [0..<32]) \<noteq> ''tok''"

lemma demo_ready_rotates:
  assumes ready: "demo_ready c a w"
  shows "\<exists>x w1 w2. rotateRefreshToken demo ''tok'' (requestMeta demo_request) w = (Inr (Inr x), w1) \<and>
    findUserById demo (rr_userId x) w1 = (Inr (Some (user_of_row (demo_row c\<lparr>ur_isActive := a\<rparr>) ''a@b'')), w2) \<and> key_caches demo w2"
proof -
  let ?row = "demo_row c\<lparr>ur_isActive := a\<rparr>"
  have r: "dek_inv demo w" "opens demo (tenant_encryption_keys w) None c ''a@b''" "users w = [?row]"
    "refresh_tokens w = [demo_token]" "pg_up w" "up (redis w)" "clock (tick w) < 604800000" "cachedKeys w = None"
    "cachedJwksDocument w = None" "cachedVerifyKeySet w = None" "uuids w (Suc (draws w)) \<noteq> ''t1''"
    "base64url (map (entropy w (draws w)) [0..<32]) \<noteq> ''tok''" using ready by (simp_all add: demo_ready_def)
  have "\<exists>x. fst (rotateRefreshToken demo ''tok'' (requestMeta demo_request) w) = Inr (Inr x)"
    by (rule rotation_runs [where row = demo_token])
      (use r in \<open>simp_all add: mem_exec_def demo_row_def\<close>)
  then obtain x w1 where rot: "rotateRefreshToken demo ''tok'' (requestMeta demo_request) w = (Inr (Inr x), w1)"
    by (metis prod.collapse)
  have same: "(users w1, tenant_encryption_keys w1, dekCache w1, activeVersionCache w1, cachedKeys w1,
      cachedJwksDocument w1, cachedVerifyKeySet w1, pg_fate w1) = (users w, tenant_encryption_keys w, dekCache w,
      activeVersionCache w, cachedKeys w, cachedJwksDocument w, cachedVerifyKeySet w, pg_fate w)"
    by (rule keepsD [OF keeps_rotateRefreshToken rot]) simp_all
  have uid: "rr_userId x = ''u1''"
  proof -
    have "rotate_row demo (hashRefreshToken demo ''tok'') (requestMeta demo_request) demo_token (tick w) = (Inr (Inr x), w1)"
      using rot r(4,5) by (simp add: rotateRefreshToken_run pg_up_def)
    from rotate_row_active [OF _ this] show ?thesis by auto
  qed
  have "\<exists>w2. findUserById demo ''u1'' w1 = (Inr (Some (user_of_row ?row ''a@b'')), w2) \<and> looked_up w1 w2"
    by (rule findUserById_finds)
      (use r same in \<open>simp_all add: dek_inv_def caches_ok_def pg_up_def demo_row_def\<close>)
  then obtain w2 where "findUserById demo (rr_userId x) w1 = (Inr (Some (user_of_row ?row ''a@b'')), w2)"
    and l: "looked_up w1 w2" unfolding uid by blast
  moreover have "key_caches demo w2" using l same r by (intro key_caches_empty) (simp_all add: looked_up_def)
  ultimately show ?thesis using rot by blast
qed

lemma demo_refresh_premises:
  "\<exists>c keys x w1 w2. rotateRefreshToken demo (rb_refresh_token (demo_refresh None)) (requestMeta demo_request) (user_world c keys a) = (Inr (Inr x), w1) \<and>
    findUserById demo (rr_userId x) w1 = (Inr (Some (user_of_row (demo_row c\<lparr>ur_isActive := a\<rparr>) ''a@b'')), w2) \<and> key_caches demo w2"
proof -
  obtain c keys where w: "dek_inv demo (user_world c keys a)" "opens demo keys None c ''a@b''"
    using demo_user_world by blast
  have "uuids world0 (Suc 0) \<noteq> ''t1''" by (simp add: world0_def)
  then have "demo_ready c a (user_world c keys a)"
    using w demo_plaintext by (simp add: demo_ready_def pg_up_def tick_def redis0_def)
  from demo_ready_rotates [OF this] show ?thesis unfolding demo_refresh_simps by blast
qed

lemma refresh_serves_deactivated_witness:
  "\<exists>c keys r. users (user_world c keys False) = [demo_row c\<lparr>ur_isActive := False\<rparr>] \<and>
    fst (refreshHandler demo (\<lambda>w. w) (demo_refresh None) demo_request response0 (user_world c keys False)) = Inr (Respond r) \<and>
    rs_status r = 200"
proof -
  obtain c keys x w1 w2 where p: "rotateRefreshToken demo (rb_refresh_token (demo_refresh None)) (requestMeta demo_request)
        (user_world c keys False) = (Inr (Inr x), w1)"
    "findUserById demo (rr_userId x) w1 = (Inr (Some (user_of_row (demo_row c\<lparr>ur_isActive := False\<rparr>) ''a@b'')), w2)"
    "key_caches demo w2" using demo_refresh_premises by blast
  have "\<not> au_isActive (user_of_row (demo_row c\<lparr>ur_isActive := False\<rparr>) ''a@b'')" by (simp add: user_of_row_def)
  from refresh_serves_deactivated [OF demo_refresh_simps(1) p(1,2) this demo_load p(3)]
  have "\<exists>r. fst (refreshHandler demo (\<lambda>w. w) (demo_refresh None) demo_request response0 (user_world c keys False)) = Inr (Respond r) \<and> rs_status r = 200"
    by blast
  then show ?thesis by auto
qed


section \<open>Logout\<close>

lemma live_by_tick [io_rules]:
  "preserves (live view k v e) (revoke_where c s)" "preserves (live view k v e) (find_by_hash h)"
  "preserves (live view k v e) (select_rows t d)" "preserves (live view k v e) (writeAuditEvent a)"
  unfolding revoke_where_def by (intro io_rules live_tick; simp add: live_def)+

lemma live_cacheRevocation [io_rules]:
  assumes "redis_server (redisExec P) view" and "k \<noteq> REVOKED_REFRESH_PREFIX @ h"
  shows "preserves (live view k v e) (cacheRefreshTokenRevocation P h d)"
  unfolding cacheRefreshTokenRevocation_def by (intro io_rules live_setex_other [OF assms])

lemma jti_not_refresh: "REVOKED_JTI_PREFIX @ j \<noteq> REVOKED_REFRESH_PREFIX @ h"
  by (simp add: REVOKED_JTI_PREFIX_def REVOKED_REFRESH_PREFIX_def)

lemma live_revocations [io_rules]:
  assumes "redis_server (redisExec P) view"
  shows "preserves (live view (REVOKED_JTI_PREFIX @ j) v e) (revokeRefreshTokenByHash P h s)"
    and "preserves (live view (REVOKED_JTI_PREFIX @ j) v e) (revokeMostRecentRefreshTokenForUser P u s)"
  unfolding revokeRefreshTokenByHash_def revokeMostRecentRefreshTokenForUser_def
  by (intro io_rules live_cacheRevocation [OF assms jti_not_refresh])+

text \<open>What an answered logout has done: the mark is set, and no live row is left of the token it named.\<close>

lemma logout_done:
  assumes "redis_server (redisExec P) view" and "rq_auth req = Some c"
    and "logoutHandler P body req res w = (Inr (Respond r), w1)" and "family_inv (refresh_tokens w)"
  shows "rs_status r = 204" and "live view (REVOKED_JTI_PREFIX @ cl_jti c) ''1'' (cl_exp c * 1000) w1"
    and "\<forall>t. ob_refresh_token body = Some t \<longrightarrow> t \<noteq> [] \<longrightarrow>
       (\<forall>row \<in> set (refresh_tokens w1). rt_tokenHash row = hashRefreshToken P t \<longrightarrow> \<not> active row)"
proof -
  let ?revoke = "if truthy (ob_refresh_token body)
           then revokeRefreshTokenByHash P (hashRefreshToken P (the (ob_refresh_token body))) ''logout''
           else revokeMostRecentRefreshTokenForUser P (cl_sub c) ''logout''"
  let ?audit = "writeAuditEvent ((audit_event ''auth.logout'' ''success'')
           \<lparr>user_id := Some (cl_sub c), resource := Some ''/v1/auth/logout''\<rparr>)"
  obtain u1 u2 u3 wa wb where rv: "revokeToken P (cl_jti c) (cl_exp c * 1000) w = (Inr u1, wa)"
    and rr: "?revoke wa = (Inr u2, wb)" and au: "?audit wb = (Inr u3, w1)"
    and r: "r = res\<lparr>rs_status := 204, rs_body := None\<rparr>"
  proof -
    have "await (revokeToken P (cl_jti c) (cl_exp c * 1000)) (\<lambda>_. await ?revoke (\<lambda>_. await ?audit (\<lambda>_.
        pure (Respond (res\<lparr>rs_status := 204, rs_body := None\<rparr>))))) w = (Inr (Respond r), w1)"
      using assms(3) unfolding logoutHandler_def assms(2) option.case .
    then show thesis
    proof (rule await_InrE)
      fix u1 wa assume 1: "revokeToken P (cl_jti c) (cl_exp c * 1000) w = (Inr u1, wa)"
        and "await ?revoke (\<lambda>_. await ?audit (\<lambda>_. pure (Respond (res\<lparr>rs_status := 204, rs_body := None\<rparr>)))) wa = (Inr (Respond r), w1)"
      then show thesis
      proof (elim await_InrE)
        fix u2 wb u3 wc assume "?revoke wa = (Inr u2, wb)" and "?audit wb = (Inr u3, wc)"
          and "pure (Respond (res\<lparr>rs_status := 204, rs_body := None\<rparr>)) wc = (Inr (Respond r), w1)"
        then show thesis using that [OF 1] by simp
      qed
    qed
  qed
  let ?live = "live view (REVOKED_JTI_PREFIX @ cl_jti c) ''1'' (cl_exp c * 1000)"
  have wa: "?live wa" using revokeToken_live [OF assms(1) rv] .
  have "preserves ?live ?revoke" by (intro io_rules live_revocations assms(1))
  from preservesD [OF this rr wa] have wb: "?live wb" .
  from preservesD [OF live_by_tick(4) au wb] show "?live w1" .
  from r show "rs_status r = 204" by simp
  have "keeps refresh_tokens (revokeToken P (cl_jti c) (cl_exp c * 1000))"
    unfolding revokeToken_def by (intro io_rules) simp_all
  then have rows: "refresh_tokens wa = refresh_tokens w" using rv by (rule keepsD)
  have "\<not> active row" if "ob_refresh_token body = Some t" "t \<noteq> []" "row \<in> set (refresh_tokens w1)"
      "rt_tokenHash row = hashRefreshToken P t" for t row
  proof -
    have "revokeRefreshTokenByHash P (hashRefreshToken P t) ''logout'' wa = (Inr u2, wb)"
      using rr that by (simp add: truthy_def)
    from revoke_by_hash [OF _ this] assms(4) have "\<forall>r \<in> set (refresh_tokens wb). rt_tokenHash r = hashRefreshToken P t \<longrightarrow> \<not> active r"
      by (simp add: rows)
    then show ?thesis using that audit_rows [OF au] by simp
  qed
  then show "\<forall>t. ob_refresh_token body = Some t \<longrightarrow> t \<noteq> [] \<longrightarrow>
      (\<forall>row \<in> set (refresh_tokens w1). rt_tokenHash row = hashRefreshToken P t \<longrightarrow> \<not> active row)" by blast
qed

text \<open>
  A logout that is answered has ended the session: the access token it was made with is not
  accepted again before its expiry (while nobody else writes its mark), and no live row is left of
  the refresh token it named.
\<close>

theorem logout_ends_session:
  assumes "redis_server (redisExec P) view" and "rq_auth req = Some c"
    and "logoutHandler P body req res w = (Inr (Respond r), w1)" and "family_inv (refresh_tokens w)"
    and "undisturbed view (REVOKED_JTI_PREFIX @ cl_jti c) w1 w2" and "clock (tick w2) < cl_exp c * 1000"
  shows "rs_status r = 204 \<and> fst (verifyAccessToken P token w2) \<noteq> Inr (Inr c) \<and>
    (\<forall>t. ob_refresh_token body = Some t \<longrightarrow> t \<noteq> [] \<longrightarrow>
       (\<forall>row \<in> set (refresh_tokens w1). rt_tokenHash row = hashRefreshToken P t \<longrightarrow> \<not> active row))"
  using logout_done [OF assms(1-4)] live_rejects [OF assms(1) undisturbedD [OF assms(5)] assms(6)] by blast

definition demo_logged_in :: request where
  "demo_logged_in = demo_request\<lparr>rq_auth := Some demo_bearer_claims\<rparr>"

lemma demo_exp: "cl_exp demo_bearer_claims = 901"
  by (simp add: demo_bearer_claims_def access_claims_def demo_env_def)

lemma demo_revokes_access:
  assumes "refresh_tokens w = [demo_token]" and "pg_fate w = (\<lambda>_. Served)" and "lag w = (\<lambda>_. 0)" and "clock w = 1000"
    and "redis w = redis0"
  shows "\<exists>wa. revokeToken demo j (901 * 1000) w = (Inr (), wa) \<and> refresh_tokens wa = [demo_token] \<and>
    pg_fate wa = (\<lambda>_. Served) \<and> lag wa = (\<lambda>_. 0) \<and> clock wa = 1000 \<and> up (redis wa)"
  using assms
  by (simp add: revokeToken_def await_run ttl_run redis_call_def Let_def mem_exec_def redis0_def tick_def
      ceil_div_def log_run mem_put_def)

lemma demo_revokes_refresh:
  assumes "refresh_tokens w = [demo_token]" and "pg_fate w = (\<lambda>_. Served)" and "lag w = (\<lambda>_. 0)" and "clock w = 1000"
    and "up (redis w)"
  shows "\<exists>wb. revokeRefreshTokenByHash demo (hashRefreshToken demo ''tok'') ''logout'' w = (Inr (), wb) \<and> lag wb = (\<lambda>_. 0) \<and> clock wb = 1000"
  using assms
  by (simp add: revokeRefreshTokenByHash_def find_by_hash_def select_rows_def await_run revoke_where_def
      pg_def Let_def now_run cacheRefreshTokenRevocation_def ttl_run redis_call_def mem_exec_def tick_def ceil_div_def)

lemma clock_writeAudit:
  "writeAuditEvent e w = (r, w') \<Longrightarrow> lag w = (\<lambda>_. 0) \<Longrightarrow> clock w' = clock w \<and> lag w' = (\<lambda>_. 0)"
proof -
  assume "writeAuditEvent e w = (r, w')" and "lag w = (\<lambda>_. 0)"
  moreover have "preserves (\<lambda>w1. clock w1 = clock w \<and> lag w1 = (\<lambda>_. 0)) (writeAuditEvent e)"
    by (intro io_rules) (simp_all add: tick_def)
  ultimately show ?thesis by (auto dest: preservesD)
qed

lemma demo_logs_out:
  assumes "rq_auth req = Some demo_bearer_claims" and "refresh_tokens w = [demo_token]"
    and "pg_fate w = (\<lambda>_. Served)" and "lag w = (\<lambda>_. 0)" and "clock w = 1000" and "redis w = redis0"
  shows "\<exists>r w1. logoutHandler demo \<lparr>ob_refresh_token = Some ''tok''\<rparr> req res w = (Inr (Respond r), w1) \<and>
    clock w1 = 1000 \<and> lag w1 = (\<lambda>_. 0)"
proof -
  obtain wa where wa: "revokeToken demo (cl_jti demo_bearer_claims) (901 * 1000) w = (Inr (), wa)"
    "refresh_tokens wa = [demo_token]" "pg_fate wa = (\<lambda>_. Served)" "lag wa = (\<lambda>_. 0)" "clock wa = 1000" "up (redis wa)"
    using demo_revokes_access [OF assms(2-6)] by blast
  obtain wb where wb: "revokeRefreshTokenByHash demo (hashRefreshToken demo ''tok'') ''logout'' wa = (Inr (), wb)"
    "lag wb = (\<lambda>_. 0)" "clock wb = 1000" using demo_revokes_refresh [OF wa(2-6)] by blast
  obtain w1 where w1: "writeAuditEvent ((audit_event ''auth.logout'' ''success'')
      \<lparr>user_id := Some (cl_sub demo_bearer_claims), resource := Some ''/v1/auth/logout''\<rparr>) wb = (Inr (), w1)"
    using writeAudit_Inr by blast
  have "logoutHandler demo \<lparr>ob_refresh_token = Some ''tok''\<rparr> req res w =
      (Inr (Respond (res\<lparr>rs_status := 204, rs_body := None\<rparr>)), w1)"
    using wa(1) wb(1) w1 by (simp add: logoutHandler_def assms(1) truthy_def demo_exp)
  then show ?thesis using clock_writeAudit [OF w1 wb(2)] wb(3) by auto
qed

lemma logout_ends_session_witness:
  "\<exists>r w1. logoutHandler demo \<lparr>ob_refresh_token = Some ''tok''\<rparr> demo_logged_in response0 world1 = (Inr (Respond r), w1) \<and>
    fst (verifyAccessToken demo demo_signed w1) \<noteq> Inr (Inr demo_bearer_claims) \<and>
    (\<forall>row \<in> set (refresh_tokens w1). rt_tokenHash row = hashRefreshToken demo ''tok'' \<longrightarrow> \<not> active row)"
proof -
  have auth: "rq_auth demo_logged_in = Some demo_bearer_claims" by (simp add: demo_logged_in_def)
  obtain r w1 where run: "logoutHandler demo \<lparr>ob_refresh_token = Some ''tok''\<rparr> demo_logged_in response0 world1 = (Inr (Respond r), w1)"
    and w1: "clock w1 = 1000" "lag w1 = (\<lambda>_. 0)"
    using demo_logs_out [OF auth, of world1 response0] by auto
  have "clock (tick w1) < cl_exp demo_bearer_claims * 1000" using w1 by (simp add: tick_def demo_exp)
  from logout_ends_session [OF mem_server auth run _ undisturbed_refl this, of demo_signed] run
  show ?thesis by (simp add: family_inv_demo)
qed

end
