(* ===== verification/Gateway.thy ===== *)
theory Gateway
  imports AppProofs SessionRoutes
begin

text \<open>
  Properties that span the application and several components: a throttled request to the auth
  endpoints, and what an upstream can reach.
\<close>

section \<open>The limiter in front of the auth endpoints\<close>

abbreviation auth_limits :: rate_options where
  "auth_limits \<equiv> \<lparr>ro_windowMs = None, ro_maxRequests = None, ro_keyPrefix = None\<rparr>"

lemma count_request_next:
  assumes "redis_server (redisExec P) view" and "view (redis w) (clock (tick w)) key = Some (show_nat k)" and "1 \<le> k"
    and "redisExec P (INCR key) (clock (tick w)) (redis w) = (Inr x, r)"
  shows "count_request P key m w = (Inr (int k + 1), (tick w)\<lparr>redis := r\<rparr>)"
proof -
  have x: "x = Num (int k + 1)" using redis_server.incr_next [OF assms(1,2,4)] by simp
  have c: "redis_call P (INCR key) w = (Inr x, (tick w)\<lparr>redis := r\<rparr>)" by (simp add: redis_Inr assms(4))
  from assms(3) show ?thesis by (simp add: count_request_def c x)
qed

lemma rateLimiter_refuses:
  assumes "count_request P (rate_key o1 req (clock w div window_ms P o1)) (window_ms P o1) w = (Inr c, w1)"
    and "max_requests P o1 < c"
  shows "\<exists>res2. rateLimiter P o1 req res w = (Inr (Fail too_many_requests_default req res2), w1) \<and>
    response_header ''Retry-After'' res2 \<noteq> None"
  using assms by (simp add: rateLimiter_def await_run now_run Let_def try_catch_def)

lemma rate_key_body [simp]: "rate_key o1 (req\<lparr>rq_requestId := i, rq_body := b\<rparr>) = rate_key o1 req"
  by (simp add: rate_key_def fun_eq_iff)

text \<open>
  C29. Once a client has used up its quota of the window, its requests to the auth and OAuth
  endpoints are answered with 429 and \<open>Retry-After\<close>, before any handler runs: no password is
  tried, no token is issued or revoked, nothing is audited, whatever the request asks for.
\<close>

theorem throttled_request_rejected:
  assumes "redis_server (redisExec P) view"
    and "cors X (cors_origins P) req (helmet X initial_response) = Continue req1 res1" and "auth_or_oauth req1"
    and "\<forall>i. \<exists>b. parseBody X (req1\<lparr>rq_requestId := i\<rparr>) = Inr b"
    and "key = rate_key auth_limits req1 (clock w div window_ms P auth_limits)"
    and "view (redis w) (clock (tick w)) key = Some (show_nat k)" and "1 \<le> k" and "max_requests P auth_limits \<le> int k"
    and "redisExec P (INCR key) (clock (tick w)) (redis w) = (Inr x, r)"
  shows "\<exists>res w'. createApp P X routes req w = (Inr (Some res), w') \<and> rs_status res = 429 \<and>
    response_header ''Retry-After'' res \<noteq> None \<and>
    users w' = users w \<and> refresh_tokens w' = refresh_tokens w \<and> audit_log w' = audit_log w \<and> redis w' = r"
proof -
  define i where "i = (case header ''x-request-id'' req1 of Some i \<Rightarrow> i | None \<Rightarrow> uuids w (draws w))"
  define n where "n = (if header ''x-request-id'' req1 = None then Suc (draws w) else draws w)"
  let ?req = "req1\<lparr>rq_requestId := i\<rparr>" and ?res = "setHeader ''X-Request-ID'' i res1" and ?w = "w\<lparr>draws := n\<rparr>"
  obtain b where b: "parseBody X ?req = Inr b" using assms(4) by blast
  let ?req2 = "?req\<lparr>rq_body := b\<rparr>"
  have v: "second ?req2 = CHR ''v''" using auth_second [OF assms(3)] by simp
  have bp: "app_use (bodyParsers X) (Continue ?req ?res) ?w = (Inr (Continue ?req2 ?res), ?w)"
    using assms(3) b by (simp add: app_use_def handle_errors_def bodyParsers_def await_run try_catch_def)
  have sys: "app_use (\<lambda>req. systemRouter P (uptime X) (resourcePath req) req) (Continue ?req2 ?res) = pure (Continue ?req2 ?res)"
    using v by (intro probe_stage.use_away) simp
  have tick: "clock (tick ?w) = clock (tick w)" by (simp add: tick_def)
  have cnt: "count_request P (rate_key auth_limits ?req2 (clock ?w div window_ms P auth_limits)) (window_ms P auth_limits) ?w =
      (Inr (int k + 1), (tick ?w)\<lparr>redis := r\<rparr>)"
    using assms(5,6,7,9) tick by (intro count_request_next [OF assms(1)]) simp_all
  have "max_requests P auth_limits < int k + 1" using assms(8) by simp
  from rateLimiter_refuses [OF cnt this, of ?res] obtain res2 where
    rl: "rateLimiter P auth_limits ?req2 ?res ?w = (Inr (Fail too_many_requests_default ?req2 res2), (tick ?w)\<lparr>redis := r\<rparr>)"
    and hd: "response_header ''Retry-After'' res2 \<noteq> None" by fastforce
  have lim: "limitRate P ?req2 ?res ?w = (Inr (Fail too_many_requests_default ?req2 res2), (tick ?w)\<lparr>redis := r\<rparr>)"
    using assms(3) rl by (simp add: limitRate_def)
  obtain res3 w3 where e: "errorHandler (AppExn too_many_requests_default) ?req2 res2 ((tick ?w)\<lparr>redis := r\<rparr>) = (Inr res3, w3)"
    and res3: "rs_status res3 = 429" "response_header ''Retry-After'' res3 \<noteq> None" "users w3 = users w"
      "refresh_tokens w3 = refresh_tokens w" "audit_log w3 = audit_log w" "redis w3 = r"
    using hd by (simp add: errorHandler_def await_run log_run too_many_requests_default_def)
      (simp add: send_json_def response_header_def)
  have "pipeline P X routes (Continue ?req ?res) ?w = (Inr (Some res3), w3)"
    using bp sys app_use_fail [of "limitRate P", OF lim e] by (simp add: pipeline_def app_use_answered proxy_or_404_def)
  moreover obtain w' where l: "httpLogger ?req res3 w3 = (Inr (), w')" and tb: "redis w' = redis w3" "users w' = users w3"
    "refresh_tokens w' = refresh_tokens w3" "audit_log w' = audit_log w3"
    by (cases "rq_path ?req \<in> set EXCLUDED_PATHS") (auto simp: httpLogger_def log_run)
  ultimately have "createApp P X routes req w = (Inr (Some res3), w')"
    by (intro createApp_run [OF assms(2) i_def n_def _ l])
  with res3 tb show ?thesis by auto
qed

section \<open>What an upstream can reach\<close>

lemma handler_by_upstream:
  assumes "proxyHandler P x1 routes req res w \<noteq> proxyHandler P x2 routes req res w"
  shows "\<exists>route fp out res' w'. admit P routes req res w = (Inr (Forward route fp out res'), w')"
proof (rule ccontr)
  assume no: "\<not> ?thesis"
  obtain r w1 where a: "admit P routes req res w = (r, w1)" by fastforce
  have "proxyHandler P x routes req res w = (case r of Inl e \<Rightarrow> (Inl e, w1) | Inr adm \<Rightarrow>
      (case adm of Refuse st \<Rightarrow> (Inr (Some (Ended st)), w1) | Forward _ _ _ _ \<Rightarrow> undefined))" for x
    using a no by (auto simp: proxyHandler_def await_run split: sum.split admission.split)
  with assms show False by simp
qed

lemma await_same: "yields R m \<Longrightarrow> (\<And>x. R x \<Longrightarrow> k x = k' x) \<Longrightarrow> await m k = await m k'"
proof (rule ext)
  fix w assume R: "yields R m" "\<And>x. R x \<Longrightarrow> k x = k' x"
  obtain r w1 where m: "m w = (r, w1)" by fastforce
  then show "await m k w = await m k' w" using R(2) yieldsD [OF R(1)] by (cases r) auto
qed

lemma pipeline_upstream:
  assumes "carries req0 st" and "mounted ''/api'' req0 = None"
  shows "pipeline P X routes st = pipeline P (X\<lparr>upstream := u\<rparr>) routes st"
proof -
  have last: "proxy_or_404 P X routes st1 = proxy_or_404 P (X\<lparr>upstream := u\<rparr>) routes st1" if "carries req0 st1" for st1
    using that assms(2) by (auto simp: proxy_or_404_def mounted_def resourcePath_def split: next_step.split)
  have X: "bodyParsers (X\<lparr>upstream := u\<rparr>) = bodyParsers X" by (simp add: bodyParsers_def fun_eq_iff)
  note same = await_same [where R = "carries req0"]
  show ?thesis unfolding pipeline_def X using assms(1)
    by simp (intro same [OF body_stage.use_traced] same [OF probe_stage.use_traced] same [OF limit_stage.use_traced]
        same [OF auth_stage.use_traced] same [OF oauth_stage.use_traced] last; assumption)
qed


section \<open>Witnesses\<close>

definition busy_world :: "mem_redis world" where
  "busy_world = world0\<lparr>redis := redis0\<lparr>kv := \<lambda>_. Some (show_nat 2, None)\<rparr>\<rparr>"

lemma busy_incr: "\<exists>x r. redisExec demo (INCR key) t (redis busy_world) = (Inr x, r)"
proof -
  have "show_nat 2 = ''2''" by code_simp
  then show ?thesis by (simp add: busy_world_def mem_exec_def redis0_def mem_view_def is_digit_def)
qed

lemma throttled_request_rejected_witness:
  "\<exists>res w'. createApp demo demo_outside [] demo_login_request busy_world = (Inr (Some res), w') \<and> rs_status res = 429"
proof -
  let ?key = "rate_key auth_limits demo_login_request (clock busy_world div window_ms demo auth_limits)"
  obtain x r where ex: "redisExec demo (INCR ?key) (clock (tick busy_world)) (redis busy_world) = (Inr x, r)"
    using busy_incr by blast
  have parse: "\<forall>i. \<exists>b. parseBody demo_outside (demo_login_request\<lparr>rq_requestId := i\<rparr>) = Inr b"
    by (simp add: demo_outside_def)
  have view: "mem_view (redis busy_world) (clock (tick busy_world)) ?key = Some (show_nat 2)"
    by (simp add: busy_world_def mem_view_def)
  have "max_requests demo auth_limits \<le> int 2" by (simp add: max_requests_def demo_env_def)
  from throttled_request_rejected [OF mem_server demo_cors demo_login_path parse refl view _ this ex, of "[]"]
  show ?thesis by auto
qed

text \<open>An upstream that answers at once, with the given status.\<close>

definition answering :: "nat \<Rightarrow> exchange" where
  "answering s route req res = ([Finish], res\<lparr>rs_status := s\<rparr>)"

lemma demo_proxied:
  "\<exists>res w'. createApp demo (demo_outside\<lparr>upstream := answering s\<rparr>) [demo_route] demo_auth_request world0 =
     (Inr (Some res), w') \<and> rs_status res = s"
proof -
  let ?X = "demo_outside\<lparr>upstream := answering s\<rparr> :: mem_redis outside"
  define i where "i = (case header ''x-request-id'' demo_auth_request of Some i \<Rightarrow> i | None \<Rightarrow> uuids world0 (draws world0))"
  define n where "n = (if header ''x-request-id'' demo_auth_request = None then Suc (draws world0) else draws world0)"
  let ?req = "demo_auth_request\<lparr>rq_requestId := i\<rparr>" and ?res = "setHeader ''X-Request-ID'' i initial_response"
  let ?w = "world0\<lparr>draws := n\<rparr>"
  have cors: "cors ?X (cors_origins demo) demo_auth_request (helmet ?X initial_response) = Continue demo_auth_request initial_response"
    by (simp add: demo_outside_def)
  have m: "mounted ''/api'' ?req \<noteq> None"
    by (simp add: mounted_def demo_resource Let_def toLowerCase_def lower_char_def)
  have "bearer ?req = Some demo_signed" by (simp add: demo_auth_request_def)
  moreover have "resourcePath ?req = ''/api/x''" by (simp add: demo_resource)
  moreover have "demo_fresh ?w" using demo_fresh0 by (simp add: demo_fresh_def)
  ultimately obtain out res1 w1 where ad: "admit demo [demo_route] ?req ?res ?w = (Inr (Forward demo_route ''/api/x'' out res1), w1)"
    using demo_admit_any by blast
  obtain w2 where au: "auditAllowedIfFlagged demo_route out (rq_auth out) (tick w1) = (Inr (), w2)"
    using writeAudit_Inr [of "requestAuditFields out (rq_auth out) (audit_event ''proxy.request_allowed'' ''success'')" "tick w1"]
    by (auto simp: auditAllowedIfFlagged_def demo_route_def)
  have "proxyHandler demo (answering s) [demo_route] ?req ?res ?w = (Inr (Some (Ended (Respond (res1\<lparr>rs_status := s\<rparr>)))), w2)"
    using ad au by (simp add: proxyHandler_def dispatchToUpstream_def answering_def Let_def settle_def dispatch0_def)
  then have p: "pipeline demo ?X [demo_route] (Continue ?req ?res) ?w = (Inr (Some (res1\<lparr>rs_status := s\<rparr>)), w2)"
    using m by (auto simp: pipeline_api proxy_or_404_def)
  obtain w3 where "httpLogger ?req (res1\<lparr>rs_status := s\<rparr>) w2 = (Inr (), w3)" using httpLogger_tables by blast
  from createApp_run [OF cors i_def n_def p this] show ?thesis by auto
qed


end
