(* ===== verification/AppInvariant.thy ===== *)
theory AppInvariant
  imports Gateway
begin

text \<open>
  Invariants of the whole application. What a property of the world has to survive to hold after every
  request is a contract (\<open>app_invariant\<close>): the internal updates, and the operations of the services
  that write the token table, the audit log or Redis. The application is shown once to stay
  within it; the audit log, the accounts, the session families and (in \<open>Served\<close>) the marks of
  revoked tokens are instances.
\<close>

lemma preserves_step [io_rules]:
  "(\<And>q r. st = Continue q r \<Longrightarrow> preserves I (a q r)) \<Longrightarrow> (\<And>e q r. st = Fail e q r \<Longrightarrow> preserves I (b e q r)) \<Longrightarrow>
   (\<And>r. st = Respond r \<Longrightarrow> preserves I (d r)) \<Longrightarrow>
     preserves I (case st of Continue q r \<Rightarrow> a q r | Fail e q r \<Rightarrow> b e q r | Respond r \<Rightarrow> d r)"
  by (cases st) simp_all

lemma preserves_entry [io_rules]:
  "preserves I a \<Longrightarrow> (\<And>r. preserves I (b r)) \<Longrightarrow>
     preserves I (case e of Pending \<Rightarrow> a | Done r \<Rightarrow> b r)"
  by (cases e) simp_all

lemma preserves_jose [io_rules]:
  "preserves I a \<Longrightarrow> (\<And>m. preserves I (b m)) \<Longrightarrow> preserves I (case e of JWTExpired \<Rightarrow> a | JoseError m \<Rightarrow> b m)"
  by (cases e) simp_all

lemma startsWith_more: "startsWith s p \<Longrightarrow> startsWith (s @ t) p"
  using startsWithD startsWith_append by (metis append_assoc)

text \<open>What follows a computation, knowing what it returned.\<close>

lemma preserves_via:
  assumes "preserves I m" and "yields Q m" and "\<And>x. Q x \<Longrightarrow> preserves I (k x)"
  shows "preserves I (await m k)"
  using assms unfolding preserves_def yields_def await_def by (fastforce split: prod.splits sum.splits)

section \<open>The contract\<close>

text \<open>Claims jose accepts of a token, at some time.\<close>

definition jose_accepts :: "'r platform \<Rightarrow> string \<Rightarrow> claims \<Rightarrow> bool" where
  "jose_accepts P token c \<longleftrightarrow> (\<exists>keys t. jwtVerify P token keys (verify_opts P) t = Inr c)"

text \<open>The bearer tokens requests present are among \<open>A\<close>.\<close>

definition presents :: "'r platform \<Rightarrow> 'r outside \<Rightarrow> string set \<Rightarrow> request \<Rightarrow> bool" where
  "presents P X A req \<longleftrightarrow> (\<forall>req1 res1 token. cors X (cors_origins P) req (helmet X initial_response) = Continue req1 res1 \<longrightarrow>
     bearer req1 = Some token \<longrightarrow> token \<in> A)"

locale app_invariant =
  fixes P :: "'r platform" and A :: "string set" and I :: "'r world \<Rightarrow> bool"
  assumes tick: "I w \<Longrightarrow> I (tick w)"
    and draws: "I w \<Longrightarrow> I (w\<lparr>draws := Suc (draws w)\<rparr>)"
    and time: "I w \<Longrightarrow> 0 \<le> ms \<Longrightarrow> I (w\<lparr>clock := clock w + ms\<rparr>)"
    and mark: "preserves I (markLastLogin u)"
    and log_lines: "I w \<Longrightarrow> I (w\<lparr>log_lines := ls\<rparr>)"
    and dekCache: "I w \<Longrightarrow> I (w\<lparr>dekCache := d\<rparr>)"
    and cachedKeys: "I w \<Longrightarrow> I (w\<lparr>cachedKeys := k\<rparr>)"
    and cachedJwksDocument: "I w \<Longrightarrow> I (w\<lparr>cachedJwksDocument := j\<rparr>)"
    and cachedVerifyKeySet: "I w \<Longrightarrow> I (w\<lparr>cachedVerifyKeySet := v\<rparr>)"
    and audit: "preserves I (writeAuditEvent e)"
    and ping: "preserves I (redis_call P PING)"
    and count: "startsWith key ''ratelimit'' \<Longrightarrow> preserves I (count_request P key m)"
    and isRevoked: "preserves I (isTokenRevoked P jti)"
    and revoke: "token \<in> A \<Longrightarrow> jose_accepts P token c \<Longrightarrow> preserves I (revokeToken P (cl_jti c) (cl_exp c * 1000))"
    and claim: "preserves I (claimIdempotencyKey P i)"
    and entry: "preserves I (getIdempotencyCacheEntry P i)"
    and complete: "preserves I (completeIdempotentRefresh P i res)"
    and release: "preserves I (releaseIdempotencyKey P i)"
    and issue: "preserves I (issueRefreshToken P u meta None)"
    and rotate: "preserves I (rotateRefreshToken P tok meta)"
    and close_token: "preserves I (revokeRefreshTokenByHash P h reason)"
    and close_recent: "preserves I (revokeMostRecentRefreshTokenForUser P u reason)"
begin

lemmas contract = tick draws mark log_lines dekCache cachedKeys audit ping isRevoked claim entry complete
  release issue rotate close_token close_recent

text \<open>The services that touch none of this.\<close>

lemma keys_kept: "preserves I (loadSigningKeys P)" "preserves I (getJwksDocument P)" "preserves I (getVerifyKeySet P)"
proof -
  show a: "preserves I (loadSigningKeys P)"
    unfolding loadSigningKeys_def Let_def by (assumption | rule contract io_rules)+
  show b: "preserves I (getJwksDocument P)"
  proof (rule preservesI)
    fix w assume w: "I w"
    have "preserves I (await (loadSigningKeys P) (\<lambda>keys. pure (buildJwksDocument P keys)))"
      by (assumption | rule a io_rules)+
    from preserves_snd [OF this w] w show "I (snd (getJwksDocument P w))"
      by (auto simp: getJwksDocument_def cachedJwksDocument split: option.split prod.split)
  qed
  show "preserves I (getVerifyKeySet P)"
  proof (rule preservesI)
    fix w assume w: "I w"
    from preserves_snd [OF b w] w show "I (snd (getVerifyKeySet P w))"
      by (auto simp: getVerifyKeySet_def cachedVerifyKeySet split: option.split prod.split)
  qed
qed

lemma bearer_kept: "preserves I (verifyAccessToken P token)" "preserves I (validateAccessToken P optional req res)"
proof -
  show a: "preserves I (verifyAccessToken P token)" for token
    unfolding verifyAccessToken_def by (assumption | rule keys_kept contract io_rules)+
  show "preserves I (validateAccessToken P optional req res)"
    unfolding validateAccessToken_def Let_def by (assumption | rule a contract io_rules)+
qed

lemma limiter_kept:
  assumes "startsWith (case ro_keyPrefix o1 of Some k \<Rightarrow> k | None \<Rightarrow> ''ratelimit'') ''ratelimit''"
  shows "preserves I (rateLimiter P o1 req res)"
proof -
  have "startsWith (rate_key o1 req s) ''ratelimit''" for s
    using assms unfolding rate_key_def by (rule startsWith_more)
  note cnt = count [OF this]
  show ?thesis unfolding rateLimiter_def Let_def by (assumption | rule cnt contract io_rules)+
qed

text \<open>The handlers.\<close>

lemma login_kept: "preserves I (loginHandler P body req res)"
  unfolding loginHandler_def signAccessToken_def Let_def
  by (assumption | rule keys_kept contract io_rules)+

lemma refresh_rotate_kept: "preserves I (refresh_rotate P token owned req res)"
  unfolding refresh_rotate_def refresh_failed_def refresh_rotated_def signAccessToken_def Let_def
  by (assumption | rule keys_kept contract io_rules)+

lemma wait_kept:
  assumes "\<And>w. I w \<Longrightarrow> I (others w)"
  shows "preserves I (wait_attempts P others k h n)"
proof (induction n)
  case (Suc n)
  have paused: "preserves I (delay others IDEMPOTENCY_CLAIM_WAIT_MS)"
    unfolding delay_def by (rule preserves_modify) (simp add: assms time IDEMPOTENCY_CLAIM_WAIT_MS_def)
  show ?case unfolding wait_attempts.simps by (assumption | rule paused Suc.IH contract io_rules)+
qed (simp add: preserves_def)

lemma refresh_kept:
  assumes "\<And>w. I w \<Longrightarrow> I (others w)"
  shows "preserves I (refreshHandler P others body req res)"
  unfolding refreshHandler_def waitForIdempotentResult_def Let_def
  by (assumption | rule refresh_rotate_kept wait_kept [OF assms] contract io_rules)+

lemma bearer_accepted:
  "yields (\<lambda>st. case st of Continue req1 res1 \<Rightarrow>
       \<exists>token c. bearer req = Some token \<and> rq_auth req1 = Some c \<and> jose_accepts P token c | _ \<Rightarrow> True)
     (validateAccessToken P False req res)"
proof (rule yieldsI)
  fix w st w' assume run: "validateAccessToken P False req res w = (Inr st, w')"
  show "case st of Continue req1 res1 \<Rightarrow>
       \<exists>token c. bearer req = Some token \<and> rq_auth req1 = Some c \<and> jose_accepts P token c | _ \<Rightarrow> True"
  proof (cases "bearer req")
    case None
    with run show ?thesis by (auto simp: validateAccessToken_run)
  next
    case (Some token)
    obtain r w1 where v: "verifyAccessToken P token w = (r, w1)" by fastforce
    show ?thesis
    proof (cases r)
      case (Inr x)
      show ?thesis
      proof (cases x)
        case (Inr c)
        with v \<open>r = Inr x\<close> have "verifyAccessToken P token w = (Inr (Inr c), w1)" by simp
        then have "jose_accepts P token c" by (rule verify_ok) (auto simp: jose_accepts_def)
        with run Some v Inr \<open>r = Inr x\<close> show ?thesis by (auto simp: validateAccessToken_run)
      qed (use run Some v Inr in \<open>auto simp: validateAccessToken_run\<close>)
    qed (use run Some v in \<open>simp add: validateAccessToken_run\<close>)
  qed
qed

lemma logout_kept:
  assumes "rq_auth req = Some c" and "token \<in> A" and "jose_accepts P token c"
  shows "preserves I (logoutHandler P body req res)"
  unfolding logoutHandler_def assms(1) option.case
  by (assumption | rule revoke [OF assms(2,3)] contract io_rules)+

lemma logout_route_kept:
  assumes "\<And>token. bearer req = Some token \<Longrightarrow> token \<in> A"
  shows "preserves I (logoutRoute P req res)"
  unfolding logoutRoute_def then_handler_def validate_def
proof (rule preserves_via [OF bearer_kept(2) bearer_accepted])
  fix st assume st: "case st of Continue req1 res1 \<Rightarrow>
       \<exists>token c. bearer req = Some token \<and> rq_auth req1 = Some c \<and> jose_accepts P token c | _ \<Rightarrow> True"
  show "preserves I (case st of Continue req res \<Rightarrow> (case logoutSchema (rq_body req) of
      Inl d \<Rightarrow> pure (Fail (ValidationError ''Request validation failed'' d) req res)
    | Inr body \<Rightarrow> logoutHandler P body req res) | _ \<Rightarrow> pure st)"
  proof (cases st)
    case (Continue req1 res1)
    with st assms obtain token c where "rq_auth req1 = Some c" "token \<in> A" "jose_accepts P token c" by auto
    note kept = logout_kept [OF this]
    show ?thesis unfolding Continue next_step.case by (assumption | rule kept io_rules)+
  qed (simp_all add: preserves_pure)
qed

lemma routes_kept:
  assumes "\<And>w. I w \<Longrightarrow> I (others w)"
  shows "(\<And>token. bearer req = Some token \<Longrightarrow> token \<in> A) \<Longrightarrow> preserves I (authRouter P others path req res)" and "preserves I (oauthRouter path req res)"
    and "preserves I (systemRouter P since path req res)"
proof -
  show "preserves I (authRouter P others path req res)" if "\<And>token. bearer req = Some token \<Longrightarrow> token \<in> A"
    unfolding authRouter_def validate_def meRoute_def then_handler_def meHandler_def jwksHandler_def getJwks_def not_implemented_def
    by (assumption | rule login_kept refresh_kept [OF assms] logout_route_kept [OF that] bearer_kept keys_kept contract io_rules)+
  show "preserves I (oauthRouter path req res)"
    unfolding oauthRouter_def not_implemented_def by (assumption | rule io_rules)+
  have "preserves I (settled_call m)" if "preserves I m" for m :: "('r, 'b) gw"
    using that by (auto simp: preserves_def settled_call_def split: prod.split sum.split)
  note settled = this
  have "preserves I (pg (pure ()))" by (assumption | rule contract io_rules)+
  note probes = settled [OF this] settled [OF ping]
  show "preserves I (systemRouter P since path req res)"
    unfolding systemRouter_def healthHandler_def readyHandler_def Let_def
    by (assumption | rule probes contract io_rules)+
qed

lemma authorize_kept: "preserves I (enforceAuthorization P route a req res)"
proof -
  have "startsWith (case ro_keyPrefix (route_limits route) of Some k \<Rightarrow> k | None \<Rightarrow> ''ratelimit'') ''ratelimit''"
    by (simp add: route_limits_def startsWith_def)
  note lim = limiter_kept [OF this]
  show ?thesis unfolding enforceAuthorization_def runRateLimiter_def auditDenial_def Let_def
    by (assumption | rule lim contract io_rules)+
qed

lemma proxy_kept: "preserves I (proxyHandler P exchange routes req res)"
proof -
  have admitted: "preserves I (admit P routes req res)"
  proof -
    have token: "preserves I (after_token P route fp st)" for route fp st
      unfolding after_token_def auditDenial_def by (assumption | rule authorize_kept contract io_rules)+
    show ?thesis unfolding admit_def Let_def by (assumption | rule token bearer_kept contract io_rules)+
  qed
  have forwarded: "preserves I (case adm of Refuse st \<Rightarrow> a st | Forward route fp req1 res1 \<Rightarrow> b route fp req1 res1)"
    if "\<And>st. preserves I (a st)" "\<And>route fp req1 res1. preserves I (b route fp req1 res1)" for adm :: admission
      and a :: "next_step \<Rightarrow> ('r, handled option) gw" and b
    using that by (cases adm) simp_all
  show ?thesis unfolding proxyHandler_def dispatchToUpstream_def auditAllowedIfFlagged_def Let_def
    by (assumption | rule admitted forwarded contract io_rules)+
qed

lemma errors_kept: "preserves I (errorHandler e req res)"
  unfolding errorHandler_def by (cases e; simp; (assumption | rule contract io_rules)+)

lemma use_kept:
  assumes "\<And>req res. st = Continue req res \<Longrightarrow> preserves I (m req res)"
  shows "preserves I (app_use m st)"
proof (cases st)
  case (Continue req res)
  note kept = assms [OF Continue]
  show ?thesis unfolding app_use_def handle_errors_def Continue next_step.case
    by (assumption | rule kept errors_kept contract io_rules)+
qed (simp_all add: app_use_def preserves_pure)

text \<open>The chain: the auth router sees the headers the request came with.\<close>

lemma pipeline_kept:
  assumes others: "\<And>w. I w \<Longrightarrow> I (meanwhile X w)" and "carries req0 st"
    and tokens: "\<And>token. bearer req0 = Some token \<Longrightarrow> token \<in> A"
  shows "preserves I (pipeline P X routes st)"
proof -
  have "startsWith (case ro_keyPrefix \<lparr>ro_windowMs = None, ro_maxRequests = None, ro_keyPrefix = None\<rparr> of
      Some k \<Rightarrow> k | None \<Rightarrow> ''ratelimit'') ''ratelimit''" by (simp add: startsWith_def)
  note lim = limiter_kept [OF this]
  have handled: "preserves I (case h of Ended st \<Rightarrow> a st | Passed e q r \<Rightarrow> b e q r)"
    if "\<And>st. preserves I (a st)" "\<And>e q r. preserves I (b e q r)" for h :: handled
      and a :: "next_step \<Rightarrow> ('r, response option) gw" and b
    using that by (cases h) simp_all
  have last_one: "preserves I (proxy_or_404 P X routes st)" for st
    unfolding proxy_or_404_def by (assumption | rule proxy_kept errors_kept handled contract io_rules)+
  have parsed: "preserves I (bodyParsers X q r)" for q r
    unfolding bodyParsers_def by (assumption | rule io_rules)+
  have limited: "preserves I (limitRate P q r)" for q r
    unfolding limitRate_def by (assumption | rule lim io_rules)+
  have probed: "preserves I (systemRouter P (uptime X) (resourcePath q) q r)" for q r
    by (rule routes_kept(3) [OF others])
  have authed: "preserves I (at_mount ''/v1/auth'' (authRouter P (meanwhile X)) q r)" if "carries req0 (Continue q r)" for q r
  proof -
    have b: "bearer q = bearer req0" using that by (simp add: bearer_def header_def)
    have "preserves I (authRouter P (meanwhile X) path q r)" for path
      by (rule routes_kept(1) [OF others]) (simp_all add: b tokens)
    then show ?thesis by (simp add: at_mount_def preserves_pure split: option.split)
  qed
  have oauthed: "preserves I (at_mount ''/v1/oauth'' oauthRouter q r)" for q r
    using routes_kept(2) [OF others] by (simp add: at_mount_def preserves_pure split: option.split)
  note via = preserves_via [where Q = "carries req0"]
  show ?thesis unfolding pipeline_def
    by (rule via [OF use_kept [OF parsed] body_stage.use_traced [OF assms(2)]],
        rule via [OF use_kept [OF probed] probe_stage.use_traced], assumption,
        rule via [OF use_kept [OF limited] limit_stage.use_traced], assumption,
        rule via [OF use_kept [OF authed] auth_stage.use_traced], simp, assumption,
        rule preserves_await [OF use_kept [OF oauthed] last_one])
qed

text \<open>Every request that presents one of the tokens, or none, whatever surrounds the application.\<close>

lemma app_kept:
  assumes others: "\<And>w. I w \<Longrightarrow> I (meanwhile X w)" and "presents P X A req"
  shows "preserves I (createApp P X routes req)"
proof (cases "cors X (cors_origins P) req (helmet X initial_response)")
  case (Continue req1 res1)
  have tokens: "token \<in> A" if "rq_headers req0 = rq_headers req1" "bearer req0 = Some token" for req0 token
    using assms(2) Continue that by (simp add: presents_def bearer_def header_def)
  have id: "preserves I (requestId req1 res1)"
    unfolding requestId_def by (assumption | rule contract io_rules)+
  have traced: "yields (\<lambda>st. \<exists>req0. carries req0 st \<and> rq_headers req0 = rq_headers req1) (requestId req1 res1)"
  proof (rule yieldsI)
    fix w st w' assume run: "requestId req1 res1 w = (Inr st, w')"
    define i where "i = (case header ''x-request-id'' req1 of Some i \<Rightarrow> i | None \<Rightarrow> uuids w (draws w))"
    have "st = Continue (req1\<lparr>rq_requestId := i\<rparr>) (setHeader ''X-Request-ID'' i res1)"
      using run by (auto simp: i_def requestId_def await_run randomUUID_run split: option.splits)
    then show "\<exists>req0. carries req0 st \<and> rq_headers req0 = rq_headers req1"
      by (intro exI [of _ "req1\<lparr>rq_requestId := i\<rparr>"]) simp
  qed
  have rest: "preserves I (await (pipeline P X routes st) (\<lambda>result.
      await (case (result, st) of (Some res, Continue req2 _) \<Rightarrow> httpLogger req2 res | _ \<Rightarrow> pure ()) (\<lambda>_. pure result)))"
    if ex: "\<exists>req0. carries req0 st \<and> rq_headers req0 = rq_headers req1" for st
  proof -
    obtain req0 where "carries req0 st" "rq_headers req0 = rq_headers req1" using ex by blast
    note piped = pipeline_kept [OF others this(1) tokens [OF this(2)]]
    show ?thesis unfolding httpLogger_def by (assumption | rule piped contract io_rules)+
  qed
  show ?thesis unfolding createApp_def Continue next_step.case by (rule preserves_via [OF id traced rest])
next
  case (Fail e req1 res1)
  show ?thesis unfolding createApp_def Fail next_step.case by (assumption | rule errors_kept io_rules)+
qed (simp add: createApp_def preserves_pure)

end

section \<open>Runs of the application\<close>

text \<open>
  Requests served one after the other, that present tokens of \<open>A\<close>, and time passing in between.
  Another request runs in the middle of one only while it waits (\<open>meanwhile\<close>).
\<close>

inductive app_run :: "'r platform \<Rightarrow> 'r outside \<Rightarrow> route_config list \<Rightarrow> string set \<Rightarrow> 'r world \<Rightarrow> 'r world \<Rightarrow> bool"
  for P X routes A w0 where
  boot: "app_run P X routes A w0 w0"
| request: "app_run P X routes A w0 w \<Longrightarrow> presents P X A req \<Longrightarrow> createApp P X routes req w = (r, w') \<Longrightarrow>
    app_run P X routes A w0 w'"
| pause: "app_run P X routes A w0 w \<Longrightarrow> 0 \<le> ms \<Longrightarrow> app_run P X routes A w0 (w\<lparr>clock := clock w + ms\<rparr>)"

context app_invariant begin

lemma run_kept:
  assumes "app_run P X routes A w0 w" and "\<And>w. I w \<Longrightarrow> I (meanwhile X w)" and "I w0"
  shows "I w"
  using assms(1)
proof (induction rule: app_run.induct)
  case (request w req r w')
  from preservesD [OF app_kept [OF assms(2) request.hyps(2)] request.hyps(3) request.IH] show ?case .
next
  case (pause w ms)
  from pause.IH pause.hyps(2) show ?case by (rule time)
qed (rule assms(3))

end

section \<open>Properties that do not look at Redis, or at the token table\<close>

lemma preserves_number:
  "(\<And>n. preserves I (a n)) \<Longrightarrow> preserves I b \<Longrightarrow> preserves I (case reply of Num n \<Rightarrow> a n | _ \<Rightarrow> b)"
  by (cases reply) simp_all

lemma preserves_bulk:
  "(\<And>s. preserves I (a s)) \<Longrightarrow> preserves I b \<Longrightarrow> preserves I (case reply of Bulk s \<Rightarrow> a s | _ \<Rightarrow> b)"
  by (cases reply) simp_all

lemma encrypt_kept:
  assumes "\<And>w. I w \<Longrightarrow> I (w\<lparr>draws := Suc (draws w)\<rparr>)"
  shows "preserves I (encryptIdempotencyCacheValue P s)"
  unfolding encryptIdempotencyCacheValue_def encryptWithKey_def by (assumption | rule assms io_rules)+

lemma redis_services_kept:
  assumes "\<And>w. I w \<Longrightarrow> I (tick w)" and "\<And>w r. I w \<Longrightarrow> I (w\<lparr>redis := r\<rparr>)"
    and "\<And>w. I w \<Longrightarrow> I (w\<lparr>draws := Suc (draws w)\<rparr>)" and "\<And>w l. I w \<Longrightarrow> I (w\<lparr>log_lines := l\<rparr>)"
  shows "preserves I (redis_call P PING)" "preserves I (count_request P key m)" "preserves I (isTokenRevoked P jti)"
    "preserves I (revokeToken P jti e)" "preserves I (claimIdempotencyKey P i)" "preserves I (getIdempotencyCacheEntry P i)"
    "preserves I (completeIdempotentRefresh P i res)" "preserves I (releaseIdempotencyKey P i)"
  unfolding count_request_def isTokenRevoked_def revokeToken_def claimIdempotencyKey_def getIdempotencyCacheEntry_def
    completeIdempotentRefresh_def releaseIdempotencyKey_def Let_def
  by (assumption | rule assms encrypt_kept preserves_number preserves_bulk io_rules)+

lemma token_services_kept:
  assumes "\<And>w. I w \<Longrightarrow> I (tick w)" and "\<And>w r. I w \<Longrightarrow> I (w\<lparr>redis := r\<rparr>)"
    and "\<And>w. I w \<Longrightarrow> I (w\<lparr>draws := Suc (draws w)\<rparr>)" and "\<And>w l. I w \<Longrightarrow> I (w\<lparr>refresh_tokens := l\<rparr>)"
    and "\<And>e. preserves I (writeAuditEvent e)"
  shows "preserves I (issueRefreshToken P u meta None)" "preserves I (rotateRefreshToken P tok meta)"
    "preserves I (revokeRefreshTokenByHash P h reason)" "preserves I (revokeMostRecentRefreshTokenForUser P u reason)"
  unfolding rotateRefreshToken_def rotate_row_def issueRefreshToken_def revokeSessionFamily_def revoke_where_def
    insert_refresh_token_def revokeRefreshTokenByHash_def revokeMostRecentRefreshTokenForUser_def Let_def
  by (assumption | rule assms io_rules)+

lemma preserves_markLastLogin:
  "(\<And>w. I w \<Longrightarrow> I (tick w)) \<Longrightarrow>
     (\<And>w t1 t2. I w \<Longrightarrow> I (w\<lparr>users := set_where (\<lambda>r. ur_id r = u) (\<lambda>r. r\<lparr>ur_lastLoginAt := Some t1, ur_updatedAt := t2\<rparr>) (users w)\<rparr>)) \<Longrightarrow>
     preserves I (markLastLogin u)"
  unfolding markLastLogin_def by (assumption | rule io_rules)+

section \<open>The audit log, the accounts, the session families\<close>

text \<open>The audit log grows and nothing else.\<close>

interpretation audit_trail: app_invariant P A "\<lambda>w. prefix l (audit_log w)"
  by unfold_locales
    (simp_all add: writeAudit_prefix redis_services_kept token_services_kept preserves_markLastLogin)

text \<open>Of an account nothing changes but the time of its last login, and the tenants' keys stay as they are.\<close>

definition account :: "user_row \<Rightarrow> user_row" where
  "account r = r\<lparr>ur_lastLoginAt := None, ur_updatedAt := 0\<rparr>"

lemma account_marked [simp]:
  "map account (set_where c (\<lambda>r. r\<lparr>ur_lastLoginAt := t1, ur_updatedAt := t2\<rparr>) us) = map account us"
  by (rule map_set_where) (simp add: account_def)

lemma accounts_audit: "preserves (\<lambda>w. map account (users w) = us \<and> tenant_encryption_keys w = ks) (writeAuditEvent e)"
  by (rule io_rules | simp)+

interpretation accounts: app_invariant P A "\<lambda>w. map account (users w) = us \<and> tenant_encryption_keys w = ks"
  by unfold_locales
    (simp_all add: accounts_audit redis_services_kept token_services_kept preserves_markLastLogin)

text \<open>
  The token table moves as the session-family machine does; the random identifiers are pairwise
  different, and those still to come are not in use as session families.
\<close>

definition families_from :: "refresh_row list \<Rightarrow> (nat \<Rightarrow> string) \<Rightarrow> 'r world \<Rightarrow> bool" where
  "families_from rows ids w \<longleftrightarrow> row_step\<^sup>*\<^sup>* rows (refresh_tokens w) \<and> uuids w = ids \<and> inj ids \<and>
     (\<forall>n \<ge> draws w. ids n \<notin> rt_sessionFamily ` set (refresh_tokens w))"

lemma families_same:
  "families_from rows ids w \<Longrightarrow> refresh_tokens w' = refresh_tokens w \<Longrightarrow> uuids w' = uuids w \<Longrightarrow> draws w \<le> draws w' \<Longrightarrow>
     families_from rows ids w'"
  by (simp add: families_from_def)

lemma families_step:
  assumes "families_from rows ids w" and "row_step (refresh_tokens w) (refresh_tokens w')"
    and "uuids w' = uuids w" and "draws w \<le> draws w'"
    and "rt_sessionFamily ` set (refresh_tokens w') \<subseteq> rt_sessionFamily ` set (refresh_tokens w)"
  shows "families_from rows ids w'"
proof -
  have "ids n \<notin> rt_sessionFamily ` set (refresh_tokens w')" if "draws w' \<le> n" for n
  proof -
    have "draws w \<le> n" using that assms(4) by linarith
    then show ?thesis using assms(1,5) by (auto simp: families_from_def)
  qed
  then show ?thesis using assms(1-3) by (auto simp: families_from_def intro: rtranclp.rtrancl_into_rtrancl)
qed

text \<open>Random draws only advance, and the supply of identifiers is fixed.\<close>

lemma draws_audit: "preserves (\<lambda>w. d \<le> draws w) (writeAuditEvent e)"
  unfolding writeAuditEvent_def insert_audit_def Let_def by (rule io_rules | simp)+

lemma draws_advance:
  "preserves (\<lambda>w. d \<le> draws w) (issueRefreshToken P u meta fam)" "preserves (\<lambda>w. d \<le> draws w) (rotateRefreshToken P tok meta)"
  "preserves (\<lambda>w. d \<le> draws w) (revokeRefreshTokenByHash P h reason)"
  "preserves (\<lambda>w. d \<le> draws w) (revokeMostRecentRefreshTokenForUser P u reason)"
  unfolding rotateRefreshToken_def rotate_row_def issueRefreshToken_def revokeSessionFamily_def revoke_where_def
    insert_refresh_token_def revokeRefreshTokenByHash_def revokeMostRecentRefreshTokenForUser_def Let_def
  by (rule draws_audit io_rules | simp)+

lemma uuids_kept:
  "keeps uuids (issueRefreshToken P u meta fam)" "keeps uuids (rotateRefreshToken P tok meta)"
  "keeps uuids (revokeRefreshTokenByHash P h reason)" "keeps uuids (revokeMostRecentRefreshTokenForUser P u reason)"
  unfolding rotateRefreshToken_def rotate_row_def revokeRefreshTokenByHash_def revokeMostRecentRefreshTokenForUser_def Let_def
  by (rule io_rules | simp)+

text \<open>Only the start of a session names a new family.\<close>

lemma families_closed:
  "keeps (\<lambda>w. map rt_sessionFamily (refresh_tokens w)) (revokeRefreshTokenByHash P h reason)"
  "keeps (\<lambda>w. map rt_sessionFamily (refresh_tokens w)) (revokeMostRecentRefreshTokenForUser P u reason)"
  "keeps (\<lambda>w. map rt_sessionFamily (refresh_tokens w)) (revokeSessionFamily P f reason)"
  unfolding revokeRefreshTokenByHash_def revokeMostRecentRefreshTokenForUser_def revokeSessionFamily_def revoke_where_def
  by (rule io_rules | simp)+

lemma families_rotated:
  assumes "rotateRefreshToken P tok meta w = (r, w')"
  shows "rt_sessionFamily ` set (refresh_tokens w') \<subseteq> rt_sessionFamily ` set (refresh_tokens w)"
proof (cases "pg_fate w (ext_n w)")
  case Served
  show ?thesis
  proof (cases "row0 (filter (\<lambda>r. rt_tokenHash r = hashRefreshToken P tok) (refresh_tokens w))")
    case None
    with Served assms show ?thesis by (auto simp: rotateRefreshToken_run)
  next
    case (Some row)
    have row: "row \<in> set (refresh_tokens w)" using row0_filterD [OF Some] by simp
    have run: "rotate_row P (hashRefreshToken P tok) meta row (tick w) = (r, w')"
      using assms Served Some by (simp add: rotateRefreshToken_run)
    show ?thesis
    proof (cases "rt_revokedAt row = None")
      case True
      from rotate_row_active [OF True run] show ?thesis
      proof (elim conjE disjE exE, goal_cases)
        case (3 h)
        then show ?case using row families_revoke by (fastforce simp: rotated_rows_def adds_def)
      qed (simp_all add: families_revoke)
    next
      case False
      from rotate_row_revoked [OF False run] show ?thesis by simp
    qed
  qed
qed (use assms in \<open>auto simp: rotateRefreshToken_run\<close>)

lemma families_issued:
  assumes I: "families_from rows ids w" and run: "issueRefreshToken P u meta None w = (r, w')"
  shows "families_from rows ids w'"
proof -
  have ids: "uuids w = ids" "inj ids" and free: "\<And>n. draws w \<le> n \<Longrightarrow> ids n \<notin> rt_sessionFamily ` set (refresh_tokens w)"
    using I by (simp_all add: families_from_def)
  have more: "Suc (draws w) \<le> draws w'"
  proof -
    have "issueRefreshToken P u meta None w = issueRefreshToken P u meta (Some (uuids w (draws w))) (w\<lparr>draws := Suc (draws w)\<rparr>)"
      by (simp add: issueRefreshToken_def await_run randomUUID_run)
    then show ?thesis using preservesD [OF draws_advance(1), of P u meta "Some (uuids w (draws w))" "w\<lparr>draws := Suc (draws w)\<rparr>" r w' "Suc (draws w)"] run
      by simp
  qed
  have same: "uuids w' = ids" using keepsD [OF uuids_kept(1) run] ids by simp
  have "row_step (refresh_tokens w) (refresh_tokens w')"
    using issueRefreshToken_step [of w P u meta] free [of "draws w"] run ids by simp
  then have steps: "row_step\<^sup>*\<^sup>* rows (refresh_tokens w')"
    using I by (auto simp: families_from_def intro: rtranclp.rtrancl_into_rtrancl)
  have "rt_sessionFamily ` set (refresh_tokens w') \<subseteq> insert (ids (draws w)) (rt_sessionFamily ` set (refresh_tokens w))"
    using issueRefreshToken_cases [OF run] by (auto simp: ids(1) adds_def)
  moreover have "ids n \<noteq> ids (draws w)" "ids n \<notin> rt_sessionFamily ` set (refresh_tokens w)" if "draws w' \<le> n" for n
    using more that ids(2) free by (auto dest: injD)
  ultimately show ?thesis using steps same ids(2) unfolding families_from_def by blast
qed

lemma families_moved:
  assumes "families_from rows ids w" and "row_step (refresh_tokens w) (refresh_tokens (snd (m w)))"
    and "keeps uuids m" and "preserves (\<lambda>w1. draws w \<le> draws w1) m"
    and "rt_sessionFamily ` set (refresh_tokens (snd (m w))) \<subseteq> rt_sessionFamily ` set (refresh_tokens w)"
  shows "families_from rows ids (snd (m w))"
  by (rule families_step [OF assms(1,2) _ _ assms(5)])
    (use assms(3,4) in \<open>simp_all add: keeps_def preserves_def\<close>)

lemma closed_image: "keeps (\<lambda>w. map rt_sessionFamily (refresh_tokens w)) m \<Longrightarrow>
    rt_sessionFamily ` set (refresh_tokens (snd (m w))) \<subseteq> rt_sessionFamily ` set (refresh_tokens w)"
  by (metis (no_types, lifting) keeps_snd order_refl set_map)

lemma families_audit: "preserves (families_from rows ids) (writeAuditEvent e)"
proof (rule preservesI)
  fix w assume I: "families_from rows ids w"
  have k: "keeps refresh_tokens (writeAuditEvent e)" "keeps uuids (writeAuditEvent e)" by (rule io_rules | simp)+
  have "draws w \<le> draws (snd (writeAuditEvent e w))" by (rule preserves_snd [OF draws_audit]) simp
  with I show "families_from rows ids (snd (writeAuditEvent e w))"
    by (rule families_same [OF _ keeps_snd [OF k(1)] keeps_snd [OF k(2)]])
qed

lemma families_services:
  "preserves (families_from rows ids) (issueRefreshToken P u meta None)"
  "preserves (families_from rows ids) (rotateRefreshToken P tok meta)"
  "preserves (families_from rows ids) (revokeRefreshTokenByHash P h reason)"
  "preserves (families_from rows ids) (revokeMostRecentRefreshTokenForUser P u reason)"
proof -
  show "preserves (families_from rows ids) (issueRefreshToken P u meta None)"
    by (rule preservesI) (erule families_issued, rule prod.collapse [symmetric])
  show "preserves (families_from rows ids) (rotateRefreshToken P tok meta)"
    by (rule preservesI, erule families_moved) (rule rotateRefreshToken_step uuids_kept draws_advance
        families_rotated [OF prod.collapse [symmetric]])+
  show "preserves (families_from rows ids) (revokeRefreshTokenByHash P h reason)"
    by (rule preservesI, erule families_moved) (rule revoke_one_step uuids_kept draws_advance closed_image families_closed)+
  show "preserves (families_from rows ids) (revokeMostRecentRefreshTokenForUser P u reason)"
    by (rule preservesI, erule families_moved) (rule revoke_one_step uuids_kept draws_advance closed_image families_closed)+
qed

interpretation families: app_invariant P A "families_from rows ids"
  by unfold_locales
    (auto intro!: redis_services_kept families_services families_audit preserves_markLastLogin elim: families_same)

end
