(* ===== verification/Served.thy ===== *)
theory Served
  imports AppInvariant
begin

text \<open>
  What holds of the gateway whatever requests it serves: the properties of runs of \<open>createApp\<close>, as
  instances of \<open>app_invariant\<close>. While a retried refresh waits, the gateway serves other
  requests; everything that moves its tables, its audit log and its keys in Redis is a request of its own.
\<close>

section \<open>Requests served while another one waits\<close>

text \<open>
  The requests that run while one waits are served by the same application, and may wait in turn
  while others run, to any depth.
\<close>

inductive serves_alone :: "'r platform \<Rightarrow> route_config list \<Rightarrow> string set \<Rightarrow> 'r outside \<Rightarrow> bool" for P routes A where
  quiet: "(\<And>w. meanwhile X w = w) \<Longrightarrow> serves_alone P routes A X"
| busy: "serves_alone P routes A Y \<Longrightarrow> (\<And>w. app_run P Y routes A w (meanwhile X w)) \<Longrightarrow> serves_alone P routes A X"

lemma serves_demo: "serves_alone demo routes A demo_outside"
  by (rule quiet) (simp add: demo_outside_def)

context app_invariant begin

lemma others_kept:
  assumes "serves_alone P routes A X" and "I w"
  shows "I (meanwhile X w)"
  using assms
proof (induction arbitrary: w)
  case (busy Y X)
  show ?case by (rule run_kept [OF busy.hyps(2) busy.IH busy.prems])
qed simp

lemma served_kept: "serves_alone P routes A X \<Longrightarrow> app_run P X routes A w0 w \<Longrightarrow> I w0 \<Longrightarrow> I w"
  by (rule run_kept [OF _ others_kept])

end

section \<open>Marks of revoked tokens\<close>

text \<open>
  No other key of the gateway is the mark of a token. The mark is written again only for as long, as
  no two of the tokens presented have the same \<open>jti\<close> and different expiries (it is a random UUID).
\<close>

definition never_sooner :: "'r platform \<Rightarrow> string set \<Rightarrow> string \<Rightarrow> int \<Rightarrow> bool" where
  "never_sooner P A j e \<longleftrightarrow> (\<forall>token \<in> A. \<forall>c. jose_accepts P token c \<longrightarrow> cl_jti c = j \<longrightarrow> e \<le> cl_exp c * 1000)"

definition marked ::
    "'r platform \<Rightarrow> string set \<Rightarrow> ('r \<Rightarrow> int \<Rightarrow> string \<Rightarrow> string option) \<Rightarrow> string \<Rightarrow> int \<Rightarrow> 'r world \<Rightarrow> bool" where
  "marked P A view j e w \<longleftrightarrow> (redis_server (redisExec P) view \<longrightarrow> never_sooner P A j e \<longrightarrow>
     live view (REVOKED_JTI_PREFIX @ j) ''1'' e w)"

lemma markedI:
  "(redis_server (redisExec P) view \<Longrightarrow> never_sooner P A j e \<Longrightarrow>
     preserves (live view (REVOKED_JTI_PREFIX @ j) ''1'' e) m) \<Longrightarrow> preserves (marked P A view j e) m"
  unfolding preserves_def marked_def by blast

lemma marked_same: "marked P A view j e w \<Longrightarrow> redis w' = redis w \<Longrightarrow> clock w \<le> clock w' \<Longrightarrow> marked P A view j e w'"
  unfolding marked_def using live_same by blast

lemma other_keys:
  "startsWith key ''ratelimit'' \<Longrightarrow> key \<noteq> REVOKED_JTI_PREFIX @ j" "idempotencyRedisKey i \<noteq> REVOKED_JTI_PREFIX @ j"
  "REVOKED_REFRESH_PREFIX @ h \<noteq> REVOKED_JTI_PREFIX @ j"
  by (auto simp: startsWith_def REVOKED_JTI_PREFIX_def REVOKED_REFRESH_PREFIX_def idempotencyRedisKey_def
      IDEMPOTENCY_REFRESH_PREFIX_def)

lemma live_draws: "live view k v e w \<Longrightarrow> live view k v e (w\<lparr>draws := n\<rparr>)" "live view k v e w \<Longrightarrow> live view k v e (w\<lparr>refresh_tokens := l\<rparr>)"
  "live view k v e w \<Longrightarrow> live view k v e (w\<lparr>users := us\<rparr>)"
  by (simp_all add: live_def)

lemma live_services:
  assumes srv: "redis_server (redisExec P) view" and k: "k = REVOKED_JTI_PREFIX @ j"
  shows "startsWith key ''ratelimit'' \<Longrightarrow> preserves (live view k v e) (count_request P key m)"
    and "preserves (live view k v e) (isTokenRevoked P jti)" and "preserves (live view k v e) (redis_call P PING)"
    and "preserves (live view k v e) (claimIdempotencyKey P i)" and "preserves (live view k v e) (getIdempotencyCacheEntry P i)"
    and "preserves (live view k v e) (completeIdempotentRefresh P i res)" and "preserves (live view k v e) (releaseIdempotencyKey P i)"
    and "preserves (live view k v e) (issueRefreshToken P u meta fam)" and "preserves (live view k v e) (rotateRefreshToken P tok meta)"
proof -
  note call = live_redis [OF srv]
  note enc = encrypt_kept [where I = "live view k v e", OF live_draws(1)]
  show "startsWith key ''ratelimit'' \<Longrightarrow> preserves (live view k v e) (count_request P key m)"
    unfolding count_request_def k Let_def
    by (assumption | rule call preserves_number io_rules | simp add: other_keys)+
  show "preserves (live view k v e) (isTokenRevoked P jti)" "preserves (live view k v e) (redis_call P PING)"
    "preserves (live view k v e) (getIdempotencyCacheEntry P i)"
    unfolding isTokenRevoked_def getIdempotencyCacheEntry_def Let_def
    by (assumption | rule call preserves_bulk io_rules | simp add: live_tick)+
  show "preserves (live view k v e) (claimIdempotencyKey P i)" "preserves (live view k v e) (completeIdempotentRefresh P i res)"
    "preserves (live view k v e) (releaseIdempotencyKey P i)"
    unfolding claimIdempotencyKey_def completeIdempotentRefresh_def releaseIdempotencyKey_def
    by (assumption | rule enc call io_rules | simp add: other_keys k)+
  show issue: "preserves (live view k v e) (issueRefreshToken P u meta fam)" for u meta fam
    unfolding issueRefreshToken_def insert_refresh_token_def Let_def
    by (assumption | rule live_tick live_draws io_rules)+
  have cache: "preserves (live view k v e) (cacheRefreshTokenRevocation P h d)" for h d
    by (rule live_cacheRevocation [OF srv]) (simp add: k other_keys [symmetric])
  show "preserves (live view k v e) (rotateRefreshToken P tok meta)"
    unfolding rotateRefreshToken_def rotate_row_def revokeSessionFamily_def Let_def
    by (assumption | rule issue cache live_by_tick io_rules)+
qed

interpretation marks: app_invariant P A "marked P A view j e"
proof unfold_locales
  fix token c assume "token \<in> A" "jose_accepts P token c"
  then show "preserves (marked P A view j e) (revokeToken P (cl_jti c) (cl_exp c * 1000))"
    by (intro markedI revokeToken_keeps_live) (auto simp: never_sooner_def)
qed (auto intro!: markedI live_services preserves_markLastLogin live_by_tick live_revocations intro: live_tick live_draws elim!: marked_same
    simp: clock_tick)

section \<open>Session families\<close>

lemma served_families:
  assumes "serves_alone P routes A X" and "app_run P X routes A w w'"
    and "inj (uuids w)" and "\<forall>n \<ge> draws w. uuids w n \<notin> rt_sessionFamily ` set (refresh_tokens w)"
  shows "row_step\<^sup>*\<^sup>* (refresh_tokens w) (refresh_tokens w')"
proof -
  have "families_from (refresh_tokens w) (uuids w) w" using assms(3,4) by (simp add: families_from_def)
  from families.served_kept [OF assms(1,2) this] show ?thesis by (simp add: families_from_def)
qed


lemma world0_ids: "inj (uuids world0)"
  by (auto simp: inj_def world0_def)


section \<open>The audit log\<close>

text \<open>
  C23. The audit log is append-only: no request changes, removes or reorders an event that has
  been recorded.
\<close>

theorem audit_append_only:
  assumes "serves_alone P routes A X" and "app_run P X routes A w w'"
  shows "prefix (audit_log w) (audit_log w')"
  by (rule audit_trail.served_kept [OF assms]) simp

lemma audit_append_only_witness:
  "\<exists>res w'. createApp demo demo_outside [demo_route] demo_auth_request world0 = (Inr (Some res), w') \<and>
    prefix (audit_log world0) (audit_log w')"
proof -
  obtain res w' where run: "createApp demo demo_outside [demo_route] demo_auth_request world0 = (Inr (Some res), w')"
    using createApp_runs [OF demo_ends] by blast
  have "presents demo demo_outside UNIV demo_auth_request" by (simp add: presents_def)
  from audit_append_only [OF serves_demo request [OF boot this run]] run show ?thesis by blast
qed

section \<open>Accounts and keys\<close>



section \<open>Logout\<close>

text \<open>A row that has been revoked stays.\<close>

definition burnt :: "string \<Rightarrow> refresh_row list \<Rightarrow> bool" where
  "burnt h rows \<longleftrightarrow> (\<exists>r \<in> set rows. rt_tokenHash r = h \<and> \<not> active r)"

lemma burnt_revoke:
  assumes "burnt h rows"
  shows "burnt h (set_where c (revoke_row t s) rows)"
proof -
  obtain r where r: "r \<in> set rows" "rt_tokenHash r = h" "\<not> active r" using assms by (auto simp: burnt_def)
  let ?r = "if c r then revoke_row t s r else r"
  have "?r \<in> set (set_where c (revoke_row t s) rows)" using r(1) unfolding in_set_where by blast
  moreover have "rt_tokenHash ?r = h" "\<not> active ?r" using r(2,3) by (simp_all add: active_def revoke_row_def)
  ultimately show ?thesis unfolding burnt_def by blast
qed

lemma row_steps_burnt: "row_step\<^sup>*\<^sup>* rows rows' \<Longrightarrow> burnt h rows \<Longrightarrow> burnt h rows'"
proof (induction rule: rtranclp_induct)
  case (step y z)
  from step.hyps(2) step.IH [OF step.prems] show ?case
  proof cases
    case (rotate row h' t s)
    from burnt_revoke [OF step.IH [OF step.prems]] rotate(3) show ?thesis by (auto simp: burnt_def adds_def)
  qed (auto simp: burnt_revoke, auto simp: burnt_def adds_def)
qed

lemma row_steps_hashes: "row_step\<^sup>*\<^sup>* rows rows' \<Longrightarrow> h \<in> rt_tokenHash ` set rows \<Longrightarrow> h \<in> rt_tokenHash ` set rows'"
proof (induction rule: rtranclp_induct)
  case (step y z)
  have kept: "rt_tokenHash ` set (set_where c (revoke_row t s) y) = rt_tokenHash ` set y" for c t s
    by (metis map_revoke(2) set_map)
  from step.hyps(2) step.IH [OF step.prems] show ?case by cases (auto simp: kept adds_def)
qed

lemma logout_route_answered:
  assumes "bearer req = Some token" and "verifyAccessToken P token w = (Inr (Inr c), w0)"
    and "logoutRoute P req res w = (Inr (Respond r), w1)"
  obtains body where "logoutSchema (rq_body req) = Inr body"
    and "logoutHandler P body (req\<lparr>rq_auth := Some c\<rparr>) res w0 = (Inr (Respond r), w1)"
proof -
  have "validate logoutSchema (logoutHandler P) (req\<lparr>rq_auth := Some c\<rparr>) res w0 = (Inr (Respond r), w1)"
    using assms by (simp add: logoutRoute_def then_handler_def validateAccessToken_run)
  then show thesis using that by (auto simp: validate_def split: sum.splits)
qed


text \<open>A request of the demo platform that logs out, and what it is authenticated with.\<close>

definition demo_logout :: request where
  "demo_logout = demo_auth_request\<lparr>rq_body := JObj [(''refresh_token'', JStr ''tok'')]\<rparr>"

lemma demo_logout_body: "logoutSchema (rq_body demo_logout) = Inr \<lparr>ob_refresh_token = Some ''tok''\<rparr>"
  unfolding demo_logout_def by code_simp

lemma demo_verify_only:
  assumes "demo_verify (demo_sign k h c) keys opts s = Inr c'"
  shows "c' = c"
proof -
  have "wire_json (JArr [JStr (hd_kid h), claims_json c])"
    by (simp add: claims_json_def opt_json_def JInt_def list_all_iff split: option.split)
  from parse_stringify [OF this] assms show ?thesis
    by (auto simp: demo_verify_def demo_sign_def json_claims_json demo_check_def split: if_splits simp del: stringify.simps)
qed

lemma demo_never_sooner: "never_sooner demo {demo_signed} (cl_jti demo_bearer_claims) (cl_exp demo_bearer_claims * 1000)"
proof -
  have "c = demo_bearer_claims" if "jose_accepts demo demo_signed c" for c
    using that demo_verify_only unfolding jose_accepts_def demo_signed_def demo_bearer_claims_def
    by (auto simp: demo_def)
  then show ?thesis by (auto simp: never_sooner_def)
qed


end
