(* ===== verification/Schema.thy ===== *)
theory Schema
  imports Served
begin

text \<open>
  \<open>src/db/schema.ts\<close>: the constraints of the tables (primary keys, unique columns, foreign keys, the
  partial unique index on active keys), and the rows of the two tables that no code reads or writes
  yet. Serving requests keeps every constraint, by the checks of the inserts and because the updates
  touch no column a constraint is on: another instance of \<open>app_invariant\<close>.
\<close>

section \<open>The tables of the later phases\<close>

record oauth_client_row =
  oc_id :: string
  oc_clientId :: string
  oc_clientSecretHash :: "string option"
  oc_name :: string
  oc_redirectUris :: "string list"
  oc_allowedScopes :: "string list"
  oc_isPublic :: bool
  oc_createdAt :: int

record auth_code_row =
  ac_code :: string
  ac_clientId :: string
  ac_userId :: string
  ac_redirectUri :: string
  ac_scopes :: "string list"
  ac_codeChallenge :: string
  ac_expiresAt :: int
  ac_usedAt :: "int option"
  ac_createdAt :: int

section \<open>The constraints\<close>

definition users_ok :: "user_row list \<Rightarrow> bool" where
  "users_ok us \<longleftrightarrow> distinct (map ur_id us) \<and> distinct (map ur_email us) \<and> distinct (map ur_emailHash us) \<and>
     distinct (concat (map (\<lambda>u. case ur_samlNameId u of None \<Rightarrow> [] | Some n \<Rightarrow> [n]) us))"

definition refresh_tokens_ok :: "string set \<Rightarrow> refresh_row list \<Rightarrow> bool" where
  "refresh_tokens_ok ids rows \<longleftrightarrow> distinct (map rt_id rows) \<and> distinct (map rt_tokenHash rows) \<and>
     (\<forall>r \<in> set rows. rt_userId r \<in> ids)"

definition tenant_keys_ok :: "key_row list \<Rightarrow> bool" where
  "tenant_keys_ok ks \<longleftrightarrow> distinct (map (\<lambda>k. (tk_tenantId k, tk_keyVersion k)) ks) \<and>
     distinct (map tk_tenantId (filter (\<lambda>k. tk_status k = ''active'') ks))"

definition audit_log_ok :: "string set \<Rightarrow> audit_row list \<Rightarrow> bool" where
  "audit_log_ok ids rows \<longleftrightarrow> distinct (map al_id rows) \<and> (\<forall>r \<in> set rows. \<forall>u. al_userId r = Some u \<longrightarrow> u \<in> ids)"

definition schema_ok :: "'r world \<Rightarrow> bool" where
  "schema_ok w \<longleftrightarrow> users_ok (users w) \<and> refresh_tokens_ok (ur_id ` set (users w)) (refresh_tokens w) \<and>
     tenant_keys_ok (tenant_encryption_keys w) \<and> audit_log_ok (ur_id ` set (users w)) (audit_log w)"

text \<open>The tenant-key service keeps its constraints by its own invariant.\<close>

lemma keys_ok_schema:
  assumes "keys_ok P ks"
  shows "tenant_keys_ok ks"
  unfolding tenant_keys_ok_def
proof
  show d: "distinct (map (\<lambda>k. (tk_tenantId k, tk_keyVersion k)) ks)" by (rule keys_ok_distinct [OF assms])
  have "inj_on tk_tenantId (set (filter (\<lambda>k. tk_status k = ''active'') ks))"
    by (rule inj_onI) (auto simp: is_active_def intro: keys_ok_one_active [OF assms])
  moreover have "distinct ks" using d by (simp add: distinct_map)
  ultimately show "distinct (map tk_tenantId (filter (\<lambda>k. tk_status k = ''active'') ks))" by (simp add: distinct_map)
qed

section \<open>The writes\<close>

lemma schema_audit: "preserves schema_ok (writeAuditEvent e)"
proof -
  have "preserves schema_ok (insert_audit e)"
  proof (rule preservesI)
    fix w assume "schema_ok w"
    then show "schema_ok (snd (insert_audit e w))"
      by (cases "user_id e")
        (auto simp: insert_audit_def pg_def Let_def io_run schema_ok_def audit_log_ok_def audit_row_of_def user_fk_def
          split: fate.split)
  qed
  then show ?thesis unfolding writeAuditEvent_def
    by (rule preserves_try_catch) (rule io_rules | simp add: schema_ok_def)+
qed

lemma schema_insert: "preserves schema_ok (insert_refresh_token u m h f e)"
proof (rule preservesI)
  fix w assume "schema_ok w"
  then show "schema_ok (snd (insert_refresh_token u m h f e w))"
    by (auto simp: insert_refresh_token_def pg_def Let_def io_run schema_ok_def refresh_tokens_ok_def new_refresh_row_def
        split: fate.split)
qed

lemma refresh_tokens_revoked: "refresh_tokens_ok ids rows \<Longrightarrow> refresh_tokens_ok ids (set_where c (revoke_row t s) rows)"
  using in_revoked_origin by (fastforce simp: refresh_tokens_ok_def)

lemma schema_revoke: "preserves schema_ok (revoke_where c s)"
  unfolding revoke_where_def
  by (rule io_rules | simp add: schema_ok_def refresh_tokens_revoked)+

lemma schema_mark: "preserves schema_ok (markLastLogin u)"
proof (rule preserves_markLastLogin)
  fix w :: "'a world" and t1 t2 assume ok: "schema_ok w"
  let ?us = "set_where (\<lambda>r. ur_id r = u) (\<lambda>r. r\<lparr>ur_lastLoginAt := Some t1, ur_updatedAt := t2\<rparr>) (users w)"
  have same: "map g ?us = map g (users w)" if "\<And>r. g (r\<lparr>ur_lastLoginAt := Some t1, ur_updatedAt := t2\<rparr>) = g r" for g :: "user_row \<Rightarrow> 'b"
    by (rule map_set_where) (rule that)
  have "map ur_id ?us = map ur_id (users w)" by (rule same) simp
  from arg_cong [OF this, of set] have "ur_id ` set ?us = ur_id ` set (users w)" by simp
  then show "schema_ok (w\<lparr>users := ?us\<rparr>)" using ok by (simp add: schema_ok_def users_ok_def same)
qed (simp add: schema_ok_def)

lemma schema_services:
  "preserves schema_ok (issueRefreshToken P u meta None)" "preserves schema_ok (rotateRefreshToken P tok meta)"
  "preserves schema_ok (revokeRefreshTokenByHash P h reason)" "preserves schema_ok (revokeMostRecentRefreshTokenForUser P u reason)"
proof -
  have issue: "preserves schema_ok (issueRefreshToken P u meta fam)" for u meta fam
    unfolding issueRefreshToken_def Let_def by (rule schema_insert io_rules | simp add: schema_ok_def)+
  then show "preserves schema_ok (issueRefreshToken P u meta None)" .
  show "preserves schema_ok (rotateRefreshToken P tok meta)" "preserves schema_ok (revokeRefreshTokenByHash P h reason)"
    "preserves schema_ok (revokeMostRecentRefreshTokenForUser P u reason)"
    unfolding rotateRefreshToken_def rotate_row_def revokeSessionFamily_def revokeRefreshTokenByHash_def
      revokeMostRecentRefreshTokenForUser_def Let_def
    by (rule issue schema_revoke schema_audit io_rules | simp add: schema_ok_def)+
qed

interpretation constraints: app_invariant P A schema_ok
  by unfold_locales
    (auto intro!: redis_services_kept schema_services schema_audit schema_mark simp: schema_ok_def)



end
