(* ===== verification/EndToEnd.thy ===== *)
theory EndToEnd
  imports Schema
begin

text \<open>
  From the handlers to the application: a request to an auth endpoint that is under its quota is
  answered with what the auth router makes of it. What is proved of the handlers holds of the answers
  the client gets.
\<close>

lemma limited_request:
  assumes "rateLimiter P o1 req res w = (Inr (Continue req2 res2), w2)"
  shows "req2 = req"
proof -
  have "yields (\<lambda>st. \<forall>q r. st = Continue q r \<longrightarrow> q = req) (rateLimiter P o1 req res)"
    unfolding rateLimiter_def Let_def by (intro yields_rules) simp_all
  from yieldsD [OF this assms] show ?thesis by simp
qed

text \<open>
  C34. A request to an auth endpoint whose body parses and which the limiter lets pass is answered
  with exactly what the auth router answers, its errors turned into their responses; the rest of
  the chain adds nothing to the answer and nothing to the tables, the audit log or Redis.
\<close>

theorem auth_request_answered:
  assumes "cors X (cors_origins P) req (helmet X initial_response) = Continue req1 res1"
    and "mounted ''/v1/auth'' req1 = Some path"
    and "i = (case header ''x-request-id'' req1 of Some i \<Rightarrow> i | None \<Rightarrow> uuids w (draws w))"
    and "n = (if header ''x-request-id'' req1 = None then Suc (draws w) else draws w)"
    and "parseBody X (req1\<lparr>rq_requestId := i\<rparr>) = Inr b"
    and "rateLimiter P auth_limits (req1\<lparr>rq_requestId := i, rq_body := b\<rparr>) (setHeader ''X-Request-ID'' i res1) (w\<lparr>draws := n\<rparr>)
      = (Inr (Continue req2 res2), w2)"
    and "handle_errors (authRouter P (meanwhile X) path req2 res2) req2 res2 w2 = (Inr (Respond res), w3)"
  shows "\<exists>w'. createApp P X routes req w = (Inr (Some res), w') \<and> users w' = users w3 \<and>
    refresh_tokens w' = refresh_tokens w3 \<and> tenant_encryption_keys w' = tenant_encryption_keys w3 \<and>
    audit_log w' = audit_log w3 \<and> redis w' = redis w3"
proof -
  let ?req = "req1\<lparr>rq_requestId := i\<rparr>" and ?res = "setHeader ''X-Request-ID'' i res1" and ?w = "w\<lparr>draws := n\<rparr>"
  let ?req2 = "?req\<lparr>rq_body := b\<rparr>"
  have auth: "auth_or_oauth req1" using assms(2) by (simp add: auth_or_oauth_def)
  have v: "second ?req2 = CHR ''v''" using auth_second [OF auth] by simp
  have bp: "app_use (bodyParsers X) (Continue ?req ?res) ?w = (Inr (Continue ?req2 ?res), ?w)"
    using auth assms(5) by (simp add: app_use_def handle_errors_def bodyParsers_def await_run try_catch_def)
  have sys: "app_use (\<lambda>req. systemRouter P (uptime X) (resourcePath req) req) (Continue ?req2 ?res) = pure (Continue ?req2 ?res)"
    using v by (intro probe_stage.use_away) simp
  have lim: "app_use (limitRate P) (Continue ?req2 ?res) ?w = (Inr (Continue req2 res2), w2)"
    using auth assms(6) by (simp add: app_use_def handle_errors_def limitRate_def)
  have req2: "req2 = ?req2" by (rule limited_request [OF assms(6)])
  have m: "mounted ''/v1/auth'' req2 = Some path" using assms(2) by (simp add: req2 mounted_def resourcePath_def)
  have au: "app_use (at_mount ''/v1/auth'' (authRouter P (meanwhile X))) (Continue req2 res2) w2 = (Inr (Respond res), w3)"
    using m assms(7) by (simp add: app_use_def at_mount_def)
  have "pipeline P X routes (Continue ?req ?res) ?w = (Inr (Some res), w3)"
    using bp sys lim au by (simp add: pipeline_def app_use_answered proxy_or_404_def)
  moreover obtain w' where l: "httpLogger ?req res w3 = (Inr (), w')" and tb: "redis w' = redis w3" "users w' = users w3"
    "refresh_tokens w' = refresh_tokens w3" "tenant_encryption_keys w' = tenant_encryption_keys w3" "audit_log w' = audit_log w3"
    by (cases "rq_path ?req \<in> set EXCLUDED_PATHS") (auto simp: httpLogger_def log_run)
  ultimately have "createApp P X routes req w = (Inr (Some res), w')"
    by (intro createApp_run [OF assms(1,3,4) _ l])
  with tb show ?thesis by blast
qed

section \<open>Witness\<close>

text \<open>The profile of nobody: without a token, \<open>/v1/auth/me\<close> is answered with 401.\<close>

definition demo_me :: request where
  "demo_me = demo_request\<lparr>rq_originalUrl := ''/v1/auth/me''\<rparr>"

lemma demo_me_simps: "mounted ''/v1/auth'' demo_me = Some ''/me''" "header ''x-request-id'' demo_me = None"
  "rq_method demo_me = ''GET''" "rq_headers demo_me = []"
  by code_simp+

lemma demo_limiter_passes:
  "\<exists>res2 w2. rateLimiter demo auth_limits req res (world0\<lparr>draws := n\<rparr>) = (Inr (Continue req res2), w2)"
  by (simp add: rateLimiter_def now_run await_run Let_def count_request_def redis_call_def
      mem_exec_def redis0_def mem_view_def mem_put_def tick_def max_requests_def demo_env_def)

lemma demo_me_answer:
  assumes "rq_headers req = []" and "rq_method req = ''GET''"
  shows "\<exists>res3 w3. handle_errors (authRouter demo others ''/me'' req res) req res w = (Inr (Respond res3), w3) \<and> rs_status res3 = 401"
proof -
  have paths: "norm_path ''/me'' = ''/me''" "norm_path ''/login'' = ''/login''" "norm_path ''/refresh'' = ''/refresh''"
    "norm_path ''/logout'' = ''/logout''" by code_simp+
  have "authRouter demo others ''/me'' req res = meRoute demo req res"
    using assms(2) by (simp add: authRouter_def is_route_def paths)
  moreover have "meRoute demo req res w = (Inr (Fail (UnauthorizedError ''Missing or malformed Authorization header'') req res), w)"
    using assms(1) by (simp add: meRoute_def then_handler_def validateAccessToken_def header_def)
  ultimately show ?thesis
    by (simp add: handle_errors_def errorHandler_def await_run log_run try_catch_def send_json_def)
qed

lemma auth_request_answered_witness:
  "\<exists>res w'. createApp demo demo_outside [] demo_me world0 = (Inr (Some res), w') \<and> rs_status res = 401"
proof -
  let ?i = "uuids world0 0" and ?w = "world0\<lparr>draws := Suc 0\<rparr>"
  let ?req = "demo_me\<lparr>rq_requestId := ?i, rq_body := rq_body demo_me\<rparr>"
  obtain res2 w2 where lim: "rateLimiter demo auth_limits ?req (setHeader ''X-Request-ID'' ?i initial_response) ?w = (Inr (Continue ?req res2), w2)"
    using demo_limiter_passes by blast
  have "rq_headers ?req = []" "rq_method ?req = ''GET''" by (simp_all add: demo_me_simps)
  from demo_me_answer [OF this] obtain res3 w3 where
    ans: "handle_errors (authRouter demo (meanwhile demo_outside) ''/me'' ?req res2) ?req res2 w2 = (Inr (Respond res3), w3)"
    and st: "rs_status res3 = 401" by blast
  have parse: "parseBody demo_outside (demo_me\<lparr>rq_requestId := ?i\<rparr>) = Inr (rq_body demo_me)" by (simp add: demo_outside_def)
  show ?thesis
    using auth_request_answered [OF demo_cors demo_me_simps(1) _ _ parse lim ans, of "[]"] st
    by (auto simp: demo_me_simps)
qed

end
