(* ===== verification/RouteCaches.thy ===== *)
theory RouteCaches
  imports Dispatch
begin

text \<open>
  The three per-route caches of \<open>src/services/proxy.service.ts\<close> (\<open>routeMatcherCache\<close>,
  \<open>rateLimiterCache\<close>, \<open>proxyMiddlewareCache\<close>): weak maps from the route object to what was
  built for it. A route object is its position in the loaded configuration. \<open>Proxy\<close> models the
  handler as if everything were built anew for every request; here the handler runs over the caches,
  and is shown to answer the same.
\<close>

section \<open>A cache in front of a constructor\<close>

text \<open>
  What the three caches promise: a hit is returned and changes nothing, a miss builds the value
  and stores it, a constructor that throws stores nothing.
\<close>

definition memo_ok :: "(nat \<Rightarrow> 'e + 'v) \<Rightarrow> (nat \<Rightarrow> 'v option) \<Rightarrow> bool" where
  "memo_ok build stored \<longleftrightarrow> (\<forall>i v. stored i = Some v \<longrightarrow> build i = Inr v)"

lemma memo_ok_empty [simp]: "memo_ok build (\<lambda>_. None)"
  by (simp add: memo_ok_def)

lemma memo_ok_store: "memo_ok build stored \<Longrightarrow> build i = Inr v \<Longrightarrow> memo_ok build (stored(i \<mapsto> v))"
  by (simp add: memo_ok_def)

locale memo =
  fixes fetch :: "nat \<Rightarrow> 'c \<Rightarrow> ('e + 'v) \<times> 'c" and stored :: "'c \<Rightarrow> nat \<Rightarrow> 'v option"
    and build :: "nat \<Rightarrow> 'e + 'v"
  assumes hit: "stored c i = Some v \<Longrightarrow> fetch i c = (Inr v, c)"
    and fails: "stored c i = None \<Longrightarrow> build i = Inl e \<Longrightarrow> fetch i c = (Inl e, c)"
    and stores: "stored c i = None \<Longrightarrow> build i = Inr v \<Longrightarrow>
       fst (fetch i c) = Inr v \<and> stored (snd (fetch i c)) = (stored c)(i \<mapsto> v)"
begin

lemma fetch_value: "memo_ok build (stored c) \<Longrightarrow> fst (fetch i c) = build i"
  by (cases "stored c i"; cases "build i") (auto simp: memo_ok_def hit fails stores)

lemma fetch_ok: "memo_ok build (stored c) \<Longrightarrow> memo_ok build (stored (snd (fetch i c)))"
  by (cases "stored c i"; cases "build i") (auto simp: hit fails stores intro: memo_ok_store)

lemma fetch_twice:
  assumes "memo_ok build (stored c)" and "build i = Inr v"
  shows "fetch i (snd (fetch i c)) = (Inr v, snd (fetch i c))"
proof -
  have "stored (snd (fetch i c)) i = Some v"
    using assms by (cases "stored c i") (auto simp: memo_ok_def hit stores)
  then show ?thesis by (rule hit)
qed

end

section \<open>The caches\<close>

text \<open>
  \<open>createProxyMiddleware\<close> is a third-party constructor: what the gateway gives it is the record
  of options, and that record is what the cache holds. The \<open>on.error\<close> callback of the options is
  the same for all routes; it is modelled with the promises it reaches in \<open>Inflight\<close>.
\<close>

record proxy_options =
  po_target :: string
  po_changeOrigin :: bool
  po_xfwd :: bool
  po_proxyTimeout :: int

type_synonym matcher = "string \<Rightarrow> string + bool"
type_synonym 'r limiter = "request \<Rightarrow> response \<Rightarrow> ('r, next_step) gw"

record 'r route_caches =
  routeMatcherCache :: "nat \<Rightarrow> matcher option"
  rateLimiterCache :: "nat \<Rightarrow> 'r limiter option"
  proxyMiddlewareCache :: "nat \<Rightarrow> proxy_options option"

definition no_caches :: "'r route_caches" where
  "no_caches = \<lparr>routeMatcherCache = (\<lambda>_. None), rateLimiterCache = (\<lambda>_. None), proxyMiddlewareCache = (\<lambda>_. None)\<rparr>"

text \<open>
  \<open>match\<close> of path-to-regexp is an argument \<open>matching\<close>: it throws at a pattern it cannot parse, and
  gives otherwise a matcher, which may throw at a path it cannot decode.
\<close>

definition compile :: "(string \<Rightarrow> string + matcher) \<Rightarrow> route_config \<Rightarrow> exn + matcher" where
  "compile matching route = (case matching (rc_path route) of Inl m \<Rightarrow> Inl (JsError m) | Inr f \<Rightarrow> Inr f)"

definition getMatcher ::
    "(string \<Rightarrow> string + matcher) \<Rightarrow> nat \<Rightarrow> route_config \<Rightarrow> ('r route_caches, exn, matcher) io" where
  "getMatcher matching i route = (\<lambda>c. case routeMatcherCache c i of
       Some matcher \<Rightarrow> (Inr matcher, c)
     | None \<Rightarrow> (case compile matching route of
         Inl e \<Rightarrow> (Inl e, c)
       | Inr matcher \<Rightarrow> (Inr matcher, c\<lparr>routeMatcherCache := (routeMatcherCache c)(i \<mapsto> matcher)\<rparr>)))"

definition getRateLimiter ::
    "'r platform \<Rightarrow> nat \<Rightarrow> route_config \<Rightarrow> ('r route_caches, exn, 'r limiter) io" where
  "getRateLimiter P i route = (\<lambda>c. case rateLimiterCache c i of
       Some middleware \<Rightarrow> (Inr middleware, c)
     | None \<Rightarrow> (let middleware = rateLimiter P (route_limits route)
         in (Inr middleware, c\<lparr>rateLimiterCache := (rateLimiterCache c)(i \<mapsto> middleware)\<rparr>)))"

definition proxyOptions :: "route_config \<Rightarrow> proxy_options" where
  "proxyOptions route = \<lparr>po_target = rc_upstream route, po_changeOrigin = True, po_xfwd = True,
     po_proxyTimeout = rc_timeout_ms route\<rparr>"

definition getProxyMiddleware :: "nat \<Rightarrow> route_config \<Rightarrow> ('r route_caches, exn, proxy_options) io" where
  "getProxyMiddleware i route = (\<lambda>c. case proxyMiddlewareCache c i of
       Some middleware \<Rightarrow> (Inr middleware, c)
     | None \<Rightarrow> (let middleware = proxyOptions route
         in (Inr middleware, c\<lparr>proxyMiddlewareCache := (proxyMiddlewareCache c)(i \<mapsto> middleware)\<rparr>)))"

interpretation matchers: memo "\<lambda>i. getMatcher matching i (routes ! i)" routeMatcherCache
    "\<lambda>i. compile matching (routes ! i)"
  by unfold_locales (simp_all add: getMatcher_def)

interpretation limiters: memo "\<lambda>i. getRateLimiter P i (routes ! i)" rateLimiterCache
    "\<lambda>i. Inr (rateLimiter P (route_limits (routes ! i)))"
  by unfold_locales (simp_all add: getRateLimiter_def Let_def)

interpretation middlewares: memo "\<lambda>i. getProxyMiddleware i (routes ! i)" proxyMiddlewareCache
    "\<lambda>i. Inr (proxyOptions (routes ! i))"
  by unfold_locales (simp_all add: getProxyMiddleware_def Let_def)

text \<open>The caches hold what would be built now, each for its own route.\<close>

definition route_caches_ok ::
    "'r platform \<Rightarrow> (string \<Rightarrow> string + matcher) \<Rightarrow> route_config list \<Rightarrow> 'r route_caches \<Rightarrow> bool" where
  "route_caches_ok P matching routes c \<longleftrightarrow>
     memo_ok (\<lambda>i. compile matching (routes ! i)) (routeMatcherCache c) \<and>
     memo_ok (\<lambda>i. Inr (rateLimiter P (route_limits (routes ! i))) :: exn + 'r limiter) (rateLimiterCache c) \<and>
     memo_ok (\<lambda>i. Inr (proxyOptions (routes ! i)) :: exn + proxy_options) (proxyMiddlewareCache c)"

lemma no_caches_ok [simp]: "route_caches_ok P matching routes no_caches"
  by (simp add: route_caches_ok_def no_caches_def)

lemma matcher_others:
  "rateLimiterCache (snd (getMatcher matching i route c)) = rateLimiterCache c"
  "proxyMiddlewareCache (snd (getMatcher matching i route c)) = proxyMiddlewareCache c"
  by (auto simp: getMatcher_def split: option.split sum.split)

lemma limiter_others:
  "routeMatcherCache (snd (getRateLimiter P i route c)) = routeMatcherCache c"
  "proxyMiddlewareCache (snd (getRateLimiter P i route c)) = proxyMiddlewareCache c"
  by (auto simp: getRateLimiter_def Let_def split: option.split)

lemma middleware_others:
  "routeMatcherCache (snd (getProxyMiddleware i route c)) = routeMatcherCache c"
  "rateLimiterCache (snd (getProxyMiddleware i route c)) = rateLimiterCache c"
  by (auto simp: getProxyMiddleware_def Let_def split: option.split)

lemma matcher_fetched:
  assumes "route_caches_ok P matching routes c"
  shows "\<exists>c'. route_caches_ok P matching routes c' \<and> getMatcher matching i (routes ! i) c = (compile matching (routes ! i), c')"
  using assms matchers.fetch_value [of matching routes c i] matchers.fetch_ok [of matching routes c i]
  by (intro exI [of _ "snd (getMatcher matching i (routes ! i) c)"])
    (auto simp: route_caches_ok_def matcher_others prod_eq_iff)

lemma limiter_fetched:
  assumes "route_caches_ok P matching routes c"
  shows "\<exists>c'. route_caches_ok P matching routes c' \<and>
    getRateLimiter P i (routes ! i) c = (Inr (rateLimiter P (route_limits (routes ! i))), c')"
  using assms limiters.fetch_value [of P routes c i] limiters.fetch_ok [of P routes c i]
  by (intro exI [of _ "snd (getRateLimiter P i (routes ! i) c)"])
    (auto simp: route_caches_ok_def limiter_others prod_eq_iff)

lemma middleware_fetched:
  assumes "route_caches_ok P matching routes c"
  shows "\<exists>c'. route_caches_ok P matching routes c' \<and>
    getProxyMiddleware i (routes ! i) c = (Inr (proxyOptions (routes ! i)), c')"
  using assms middlewares.fetch_value [of routes c i] middlewares.fetch_ok [of routes c i]
  by (intro exI [of _ "snd (getProxyMiddleware i (routes ! i) c)"])
    (auto simp: route_caches_ok_def middleware_others prod_eq_iff)

section \<open>The handler over the caches\<close>

text \<open>
  The state of the proxy router: the world and the caches. What does not touch a cache runs on the
  world alone.
\<close>

type_synonym ('r, 'a) cached = "('r world \<times> 'r route_caches, exn, 'a) io"

definition on_world :: "('r, 'a) gw \<Rightarrow> ('r, 'a) cached" where
  "on_world m = (\<lambda>(w, c). case m w of (r, w') \<Rightarrow> (r, (w', c)))"

definition on_caches :: "('r route_caches, exn, 'a) io \<Rightarrow> ('r, 'a) cached" where
  "on_caches m = (\<lambda>(w, c). case m c of (r, c') \<Rightarrow> (r, (w, c')))"

text \<open>The loop of \<open>resolveRoute\<close>, from position \<open>i\<close>; the result names the route object.\<close>

fun resolveRoute_from ::
    "(string \<Rightarrow> string + matcher) \<Rightarrow> string \<Rightarrow> nat \<Rightarrow> route_config list \<Rightarrow>
     ('r route_caches, exn, (nat \<times> resolved_route) option) io" where
  "resolveRoute_from matching path i [] = pure None"
| "resolveRoute_from matching path i (route # rest) =
     await (getMatcher matching i route) (\<lambda>matcher. case matcher path of
       Inl m \<Rightarrow> throw (JsError m)
     | Inr True \<Rightarrow> pure (Some (i, \<lparr>rv_route = route, rv_forwardPath = forward_path route path\<rparr>))
     | Inr False \<Rightarrow> resolveRoute_from matching path (Suc i) rest)"

definition runRateLimiter_cached ::
    "'r platform \<Rightarrow> nat \<Rightarrow> route_config \<Rightarrow> request \<Rightarrow> response \<Rightarrow> ('r, app_error option \<times> response) cached" where
  "runRateLimiter_cached P i route req res = await (on_caches (getRateLimiter P i route)) (\<lambda>middleware.
     await (on_world (middleware req res)) (\<lambda>st. case st of
       Continue _ res1 \<Rightarrow> pure (None, res1)
     | Fail e _ res1 \<Rightarrow> pure (Some e, res1)
     | Respond res1 \<Rightarrow> pure (None, res1)))"

definition enforceAuthorization_cached ::
    "'r platform \<Rightarrow> nat \<Rightarrow> route_config \<Rightarrow> claims option \<Rightarrow> request \<Rightarrow> response \<Rightarrow>
     ('r, app_error option \<times> response) cached" where
  "enforceAuthorization_cached P i route c req res =
     (if \<not> has_allowed_role route c then
        let e = ForbiddenError ''Insufficient role'' in
        await (on_world (auditDenial req c e)) (\<lambda>_. pure (Some e, res))
      else if \<not> has_scope route c then
        let e = InsufficientScopeError (the (rc_required_scope route)) in
        await (on_world (auditDenial req c e)) (\<lambda>_. pure (Some e, res))
      else await (runRateLimiter_cached P i route req res) (\<lambda>(rateLimitError, res1). case rateLimitError of
          Some e \<Rightarrow> await (on_world (auditDenial req c e)) (\<lambda>_. pure (Some e, res1))
        | None \<Rightarrow> pure (None, res1)))"

text \<open>
  \<open>upstream\<close> is the middleware that \<open>createProxyMiddleware\<close> makes of its options: from the request
  handed to it, the events of the dispatch in their order and the response as written.
\<close>

type_synonym upstream = "proxy_options \<Rightarrow> request \<Rightarrow> response \<Rightarrow> upstream_event list \<times> response"

definition dispatchToUpstream_cached ::
    "upstream \<Rightarrow> nat \<Rightarrow> route_config \<Rightarrow> string \<Rightarrow> request \<Rightarrow> response \<Rightarrow>
     ('r, (exn + unit) option \<times> request \<times> response) cached" where
  "dispatchToUpstream_cached upstream i route forwardPath req res =
     (let originalUrl = rq_url req; req1 = req\<lparr>rq_url := forwardPath\<rparr> in
      await (on_caches (getProxyMiddleware i route)) (\<lambda>proxy.
      await (on_world (modify tick)) (\<lambda>_.
      case upstream proxy req1 res of (events, res1) \<Rightarrow>
        pure (promise (fold (on_event route) events dispatch0), req1\<lparr>rq_url := originalUrl\<rparr>, res1))))"

definition proxyHandler_cached ::
    "'r platform \<Rightarrow> (string \<Rightarrow> string + matcher) \<Rightarrow> upstream \<Rightarrow> route_config list \<Rightarrow> request \<Rightarrow> response \<Rightarrow>
     ('r, handled option) cached" where
  "proxyHandler_cached P matching upstream routes req res =
     (let path = resourcePath req in
      await (on_caches (resolveRoute_from matching path 0 routes)) (\<lambda>resolved. case resolved of
        None \<Rightarrow> pure (Some (Ended (Fail (RouteNotFoundError path) req res)))
      | Some (i, rv) \<Rightarrow>
          await (on_world (validateAccessToken P (\<not> rc_auth_required (rv_route rv))
              (req\<lparr>rq_headers := stripSpoofedHeaders (rq_headers req)\<rparr>) res)) (\<lambda>st. case st of
            Fail e req1 res1 \<Rightarrow> await (on_world (auditDenial req1 (rq_auth req1) e)) (\<lambda>_. pure (Some (Ended (Fail e req1 res1))))
          | Respond res1 \<Rightarrow> pure (Some (Ended (Respond res1)))
          | Continue req1 res1 \<Rightarrow>
              await (enforceAuthorization_cached P i (rv_route rv) (rq_auth req1) req1 res1) (\<lambda>(denial, res2). case denial of
                Some e \<Rightarrow> pure (Some (Ended (Fail e req1 res2)))
              | None \<Rightarrow>
                  await (dispatchToUpstream_cached upstream i (rv_route rv) (rv_forwardPath rv) (attach_identity req1) res2)
                    (\<lambda>(result, req3, res3). case result of
                      None \<Rightarrow> pure None
                    | Some (Inl e) \<Rightarrow> pure (Some (Passed e req3 res3))
                    | Some (Inr _) \<Rightarrow> await (on_world (auditAllowedIfFlagged (rv_route rv) req3 (rq_auth req3))) (\<lambda>_.
                        pure (Some (Ended (Respond res3)))))))))"

section \<open>The caches change nothing\<close>

text \<open>A computation over the caches does what one without them does, and keeps the caches right.\<close>

definition simulates ::
    "('r route_caches \<Rightarrow> bool) \<Rightarrow> ('r, 'a) cached \<Rightarrow> ('r, 'a) gw \<Rightarrow> bool" where
  "simulates good m' m \<longleftrightarrow> (\<forall>w c. good c \<longrightarrow> (\<exists>c'. good c' \<and> m' (w, c) = (fst (m w), (snd (m w), c'))))"

named_theorems sim_rules \<open>introduction rules for simulates\<close>

lemma sim_pure [sim_rules]: "simulates good (pure x) (pure x)"
  by (simp add: simulates_def)

lemma sim_world [sim_rules]: "simulates good (on_world m) m"
  by (simp add: simulates_def on_world_def split_beta)

lemma sim_await [sim_rules]:
  assumes "simulates good m' m" and "\<And>x. simulates good (k' x) (k x)"
  shows "simulates good (await m' k') (await m k)"
  unfolding simulates_def
proof (intro allI impI)
  fix w c assume "good c"
  then obtain c1 where c1: "good c1" "m' (w, c) = (fst (m w), (snd (m w), c1))"
    using assms(1) unfolding simulates_def by blast
  obtain r w1 where m: "m w = (r, w1)" by fastforce
  show "\<exists>c'. good c' \<and> await m' k' (w, c) = (fst (await m k w), (snd (await m k w), c'))"
  proof (cases r)
    case (Inr x)
    then show ?thesis using c1 m assms(2) unfolding simulates_def by (auto simp: await_def)
  qed (use c1 m in \<open>auto simp: await_def\<close>)
qed

lemma sim_fetch [sim_rules]:
  assumes "\<And>c. good c \<Longrightarrow> \<exists>c'. good c' \<and> m' c = (Inr v, c')" and "simulates good (k' v) k"
  shows "simulates good (await (on_caches m') k') k"
  unfolding simulates_def
proof (intro allI impI)
  fix w c assume "good c"
  then obtain c1 where "good c1" "m' c = (Inr v, c1)" using assms(1) by blast
  then show "\<exists>c'. good c' \<and> await (on_caches m') k' (w, c) = (fst (k w), (snd (k w), c'))"
    using assms(2) unfolding simulates_def by (simp add: await_def on_caches_def)
qed

lemma sim_if [sim_rules]:
  "simulates good m' m \<Longrightarrow> simulates good n' n \<Longrightarrow> simulates good (if b then m' else n') (if b then m else n)"
  by simp

lemma sim_option [sim_rules]:
  "simulates good m' m \<Longrightarrow> (\<And>x. simulates good (n' x) (n x)) \<Longrightarrow>
     simulates good (case o1 of None \<Rightarrow> m' | Some x \<Rightarrow> n' x) (case o1 of None \<Rightarrow> m | Some x \<Rightarrow> n x)"
  by (cases o1) simp_all

lemma sim_sum [sim_rules]:
  "(\<And>x. simulates good (m' x) (m x)) \<Longrightarrow> (\<And>x. simulates good (n' x) (n x)) \<Longrightarrow>
     simulates good (case s of Inl x \<Rightarrow> m' x | Inr x \<Rightarrow> n' x) (case s of Inl x \<Rightarrow> m x | Inr x \<Rightarrow> n x)"
  by (cases s) simp_all

lemma sim_prod [sim_rules]:
  "(\<And>x y. simulates good (m' x y) (m x y)) \<Longrightarrow>
     simulates good (case p of (x, y) \<Rightarrow> m' x y) (case p of (x, y) \<Rightarrow> m x y)"
  by (cases p) simp

lemma sim_step [sim_rules]:
  "(\<And>q r. simulates good (a' q r) (a q r)) \<Longrightarrow> (\<And>e q r. simulates good (b' e q r) (b e q r)) \<Longrightarrow>
   (\<And>r. simulates good (d' r) (d r)) \<Longrightarrow>
     simulates good (case st of Continue q r \<Rightarrow> a' q r | Fail e q r \<Rightarrow> b' e q r | Respond r \<Rightarrow> d' r)
       (case st of Continue q r \<Rightarrow> a q r | Fail e q r \<Rightarrow> b e q r | Respond r \<Rightarrow> d r)"
  by (cases st) simp_all

text \<open>\<open>pathMatch\<close> of the platform is \<open>match(pattern)(path)\<close>.\<close>

definition matches_by :: "'r platform \<Rightarrow> (string \<Rightarrow> string + matcher) \<Rightarrow> bool" where
  "matches_by P matching \<longleftrightarrow> (\<forall>pattern path. pathMatch P pattern path =
     (case matching pattern of Inl m \<Rightarrow> Inl m | Inr f \<Rightarrow> f path))"

lemma resolve_over_caches:
  assumes m: "matches_by P matching"
  shows "route_caches_ok P matching (before @ rest) c \<Longrightarrow>
    \<exists>c'. route_caches_ok P matching (before @ rest) c' \<and>
      (case resolveRoute P path rest of
         Inl e \<Rightarrow> resolveRoute_from matching path (length before) rest c = (Inl e, c')
       | Inr None \<Rightarrow> resolveRoute_from matching path (length before) rest c = (Inr None, c')
       | Inr (Some rv) \<Rightarrow> \<exists>i. (before @ rest) ! i = rv_route rv \<and>
           resolveRoute_from matching path (length before) rest c = (Inr (Some (i, rv)), c'))"
proof (induction rest arbitrary: before c)
  case (Cons route rest)
  have at: "(before @ route # rest) ! length before = route" by simp
  from matcher_fetched [OF Cons.prems, of "length before"] obtain c1 where
    c1: "route_caches_ok P matching (before @ route # rest) c1"
    and get: "getMatcher matching (length before) route c = (compile matching route, c1)" unfolding at by blast
  have pm: "pathMatch P (rc_path route) path = (case matching (rc_path route) of Inl m \<Rightarrow> Inl m | Inr f \<Rightarrow> f path)"
    using m by (simp add: matches_by_def)
  show ?case
  proof (cases "matching (rc_path route)")
    case (Inl e)
    with c1 get pm show ?thesis by (intro exI [of _ c1]) (simp add: await_def compile_def)
  next
    case (Inr f)
    with get have got: "getMatcher matching (length before) route c = (Inr f, c1)" by (simp add: compile_def)
    consider e where "f path = Inl e" | "f path = Inr True" | "f path = Inr False"
      by (cases "f path") auto
    then show ?thesis
    proof cases
      case 3
      have "route_caches_ok P matching ((before @ [route]) @ rest) c1" using c1 by simp
      from Cons.IH [OF this] got pm Inr 3 show ?thesis by (auto simp: await_def split: sum.splits option.splits)
    qed (use c1 got pm Inr at in \<open>auto simp: await_def intro!: exI [of _ c1]\<close>)
  qed
qed (auto intro: exI [of _ c])

lemma sim_limiter:
  assumes "routes ! i = route"
  shows "simulates (route_caches_ok P matching routes) (runRateLimiter_cached P i route req res)
    (runRateLimiter P route req res)"
  unfolding runRateLimiter_cached_def runRateLimiter_def
  by (rule sim_fetch [where v = "rateLimiter P (route_limits route)"])
    (use limiter_fetched [of P matching routes _ i] assms in blast, intro sim_rules)

lemma sim_enforce:
  "routes ! i = route \<Longrightarrow> simulates (route_caches_ok P matching routes) (enforceAuthorization_cached P i route a req res)
    (enforceAuthorization P route a req res)"
  unfolding enforceAuthorization_cached_def enforceAuthorization_def Let_def
  by (intro sim_rules sim_limiter)

lemma sim_dispatch:
  assumes "routes ! i = route"
  shows "simulates (route_caches_ok P matching routes) (dispatchToUpstream_cached upstream i route fp req res)
    (dispatchToUpstream (\<lambda>r. upstream (proxyOptions r)) route fp req res)"
  unfolding dispatchToUpstream_cached_def dispatchToUpstream_def Let_def
  by (rule sim_fetch [where v = "proxyOptions route"])
    (use middleware_fetched [of P matching routes _ i] assms in blast, intro sim_rules)

lemma after_token_alt:
  "await (after_token P route fp st) (\<lambda>adm. case adm of
       Refuse st \<Rightarrow> pure (Some (Ended st)) | Forward route fp req1 res1 \<Rightarrow> k route fp req1 res1) =
   (case st of
      Fail e req1 res1 \<Rightarrow> await (auditDenial req1 (rq_auth req1) e) (\<lambda>_. pure (Some (Ended (Fail e req1 res1))))
    | Respond res1 \<Rightarrow> pure (Some (Ended (Respond res1)))
    | Continue req1 res1 \<Rightarrow>
        await (enforceAuthorization P route (rq_auth req1) req1 res1) (\<lambda>(denial, res2). case denial of
          Some e \<Rightarrow> pure (Some (Ended (Fail e req1 res2)))
        | None \<Rightarrow> k route fp (attach_identity req1) res2))"
proof (cases st)
  case (Continue req1 res1)
  have "await (case x of (denial, res2) \<Rightarrow> (case denial of
        Some e \<Rightarrow> pure (Refuse (Fail e req1 res2)) | None \<Rightarrow> pure (Forward route fp (attach_identity req1) res2)))
      (\<lambda>adm. case adm of Refuse st \<Rightarrow> pure (Some (Ended st)) | Forward route fp req1 res1 \<Rightarrow> k route fp req1 res1) =
    (case x of (denial, res2) \<Rightarrow> (case denial of
        Some e \<Rightarrow> pure (Some (Ended (Fail e req1 res2))) | None \<Rightarrow> k route fp (attach_identity req1) res2))" for x
    by (auto split: prod.split option.split)
  then show ?thesis by (simp add: Continue after_token_def await_assoc)
next
  case Fail
  show ?thesis unfolding Fail after_token_def by (simp only: next_step.case await_assoc await_pure admission.case)
next
  case Respond
  show ?thesis unfolding Respond after_token_def by (simp only: next_step.case await_pure admission.case)
qed

lemma handler_alt:
  "proxyHandler P exchange routes req res =
     (let path = resourcePath req in
      await (lift (resolveRoute P path routes)) (\<lambda>resolved. case resolved of
        None \<Rightarrow> pure (Some (Ended (Fail (RouteNotFoundError path) req res)))
      | Some rv \<Rightarrow>
          await (validateAccessToken P (\<not> rc_auth_required (rv_route rv))
              (req\<lparr>rq_headers := stripSpoofedHeaders (rq_headers req)\<rparr>) res) (\<lambda>st. case st of
            Fail e req1 res1 \<Rightarrow> await (auditDenial req1 (rq_auth req1) e) (\<lambda>_. pure (Some (Ended (Fail e req1 res1))))
          | Respond res1 \<Rightarrow> pure (Some (Ended (Respond res1)))
          | Continue req1 res1 \<Rightarrow>
              await (enforceAuthorization P (rv_route rv) (rq_auth req1) req1 res1) (\<lambda>(denial, res2). case denial of
                Some e \<Rightarrow> pure (Some (Ended (Fail e req1 res2)))
              | None \<Rightarrow>
                  await (dispatchToUpstream exchange (rv_route rv) (rv_forwardPath rv) (attach_identity req1) res2)
                    (\<lambda>(result, req3, res3). case result of
                      None \<Rightarrow> pure None
                    | Some (Inl e) \<Rightarrow> pure (Some (Passed e req3 res3))
                    | Some (Inr _) \<Rightarrow> await (auditAllowedIfFlagged (rv_route rv) req3 (rq_auth req3)) (\<lambda>_.
                        pure (Some (Ended (Respond res3)))))))))"
  unfolding proxyHandler_def admit_def Let_def await_assoc
  by (intro arg_cong2 [where f = await] refl ext)
    (simp split: option.split add: await_assoc after_token_alt)

lemma sim_found:
  assumes "m' c = (Inr x', c1)" and "good c1" and "simulates good (k' x') (k x)"
  shows "\<exists>c'. good c' \<and> await (on_caches m') k' (w, c) =
    (fst (await (lift (Inr x)) k w), (snd (await (lift (Inr x)) k w), c'))"
  using assms by (simp add: simulates_def on_caches_def await_def)

lemma handler_over_caches:
  assumes m: "matches_by P matching"
  shows "simulates (route_caches_ok P matching routes) (proxyHandler_cached P matching upstream routes req res)
    (proxyHandler P (\<lambda>r. upstream (proxyOptions r)) routes req res)"
  unfolding simulates_def
proof (intro allI impI)
  fix w c assume c: "route_caches_ok P matching routes c"
  let ?path = "resourcePath req" and ?find = "resolveRoute_from matching (resourcePath req) 0 routes"
  let ?good = "route_caches_ok P matching routes"
  let ?goal = "\<exists>c'. ?good c' \<and> proxyHandler_cached P matching upstream routes req res (w, c) =
      (fst (proxyHandler P (\<lambda>r. upstream (proxyOptions r)) routes req res w),
       (snd (proxyHandler P (\<lambda>r. upstream (proxyOptions r)) routes req res w), c'))"
  from resolve_over_caches [OF m, of "[]" routes c ?path] c obtain c1 where c1: "?good c1"
    and found: "case resolveRoute P ?path routes of Inl e \<Rightarrow> ?find c = (Inl e, c1)
       | Inr None \<Rightarrow> ?find c = (Inr None, c1)
       | Inr (Some rv) \<Rightarrow> \<exists>i. routes ! i = rv_route rv \<and> ?find c = (Inr (Some (i, rv)), c1)"
    unfolding append_Nil list.size by blast
  consider e where "resolveRoute P ?path routes = Inl e" | "resolveRoute P ?path routes = Inr None"
    | rv where "resolveRoute P ?path routes = Inr (Some rv)"
    by (cases "resolveRoute P ?path routes") (auto intro: option.exhaust)
  then show ?goal
  proof cases
    case (3 rv)
    then obtain i where i: "routes ! i = rv_route rv" and fi: "?find c = (Inr (Some (i, rv)), c1)"
      using found by auto
    show ?thesis
      unfolding proxyHandler_cached_def handler_alt Let_def 3
      by (rule sim_found [where m' = ?find and good = ?good, OF fi c1], simp only: option.case prod.case)
        (intro sim_rules sim_enforce [OF i] sim_dispatch [OF i])
  qed (use c1 found in \<open>simp_all add: proxyHandler_cached_def handler_alt Let_def on_caches_def await_def throw_def\<close>)
qed

text \<open>Requests one after the other, each on the world the one before it left.\<close>

fun serve_all :: "(request \<Rightarrow> 's \<Rightarrow> 'b \<times> 's) \<Rightarrow> request list \<Rightarrow> 's \<Rightarrow> 'b list \<times> 's" where
  "serve_all handler [] s = ([], s)"
| "serve_all handler (req # reqs) s = (case handler req s of (r, s1) \<Rightarrow>
     (case serve_all handler reqs s1 of (rs, s2) \<Rightarrow> (r # rs, s2)))"

lemma serve_over_caches:
  assumes "\<And>req. simulates good (m' req) (m req)"
  shows "good c \<Longrightarrow> serve_all m reqs w = (rs, w') \<Longrightarrow> \<exists>c'. good c' \<and> serve_all m' reqs (w, c) = (rs, (w', c'))"
proof (induction reqs arbitrary: w c rs)
  case (Cons req reqs)
  obtain r w1 where run: "m req w = (r, w1)" by fastforce
  obtain c1 where c1: "good c1" "m' req (w, c) = (fst (m req w), (snd (m req w), c1))"
    using assms [of req] Cons.prems(1) unfolding simulates_def by blast
  obtain rs1 where rest: "serve_all m reqs w1 = (rs1, w')" and rs: "rs = r # rs1"
    using Cons.prems(2) run by (auto split: prod.splits)
  from Cons.IH [OF c1(1) rest] c1(2) run rs show ?case by auto
qed auto

text \<open>
  C20. Serving any sequence of requests with the three route caches, from empty, gives every request
  the answer, and leaves the world in the state, that building the matcher, the rate limiter and the
  proxy middleware anew for every request gives.
\<close>

theorem route_caches_transparent:
  assumes "matches_by P matching"
  shows "(case serve_all (\<lambda>req. proxyHandler_cached P matching upstream routes req response0) reqs (w, no_caches) of
      (answers, (w', c)) \<Rightarrow> (answers, w')) =
    serve_all (\<lambda>req. proxyHandler P (\<lambda>r. upstream (proxyOptions r)) routes req response0) reqs w"
proof -
  let ?m = "\<lambda>req. proxyHandler P (\<lambda>r. upstream (proxyOptions r)) routes req response0"
  obtain rs w' where run: "serve_all ?m reqs w = (rs, w')" by fastforce
  from serve_over_caches [OF handler_over_caches [OF assms, of routes upstream _ response0] no_caches_ok run]
  show ?thesis using run by auto
qed

lemma demo_matches: "matches_by demo (\<lambda>pattern. Inr (pathMatch demo pattern))"
  by (simp add: matches_by_def)

lemma route_caches_transparent_witness:
  "(case serve_all (\<lambda>req. proxyHandler_cached demo (\<lambda>pattern. Inr (pathMatch demo pattern))
        (\<lambda>_ _ res. ([Finish], res)) [demo_route] req response0) [demo_auth_request, demo_auth_request] (world0, no_caches) of
      (answers, (w', c)) \<Rightarrow> (answers, w')) =
    serve_all (\<lambda>req. proxyHandler demo (\<lambda>_ _ res. ([Finish], res)) [demo_route] req response0)
      [demo_auth_request, demo_auth_request] world0"
  by (rule route_caches_transparent [OF demo_matches])

text \<open>
  Concretely, a matcher is compiled once for its route: the second resolution finds it, and the
  caches do not change any more.
\<close>

lemma demo_second_resolution:
  "(case resolveRoute_from (\<lambda>pattern. Inr (pathMatch demo pattern)) ''/api/x'' 0 [demo_route] no_caches of
     (r, c) \<Rightarrow> resolveRoute_from (\<lambda>pattern. Inr (pathMatch demo pattern)) ''/api/x'' 0 [demo_route] c = (r, c) \<and>
        routeMatcherCache c 0 \<noteq> None)"
  by (simp add: await_def getMatcher_def no_caches_def compile_def split: sum.split bool.split)

end
