(* ===== verification/Inflight.thy ===== *)
theory Inflight
  imports Dispatch
begin

text \<open>
  Several dispatches in flight at once (\<open>src/services/proxy.service.ts\<close>): the promises share the weak
  map \<open>pendingUpstreamErrors\<close>, through which the \<open>on.error\<close> callback, registered once per route, finds
  the promise of the response it is given. Every interleaving of their events settles each
  promise as \<open>Proxy\<close> says of it alone.
\<close>

section \<open>The shared map and the promises\<close>

text \<open>
  A response is a number. \<open>pendingUpstreamErrors\<close> holds for a response the callback that rejects
  its promise, which is determined by the route it closes over; \<open>settledOf\<close> is the \<open>settled\<close> flag of
  the dispatch of a response, \<open>None\<close> before there is one, when no listener is registered.
\<close>

record inflight =
  pendingUpstreamErrors :: "nat \<Rightarrow> route_config option"
  settledOf :: "nat \<Rightarrow> bool option"
  promiseOf :: "nat \<Rightarrow> (exn + unit) option"

definition idle :: inflight where
  "idle = \<lparr>pendingUpstreamErrors = (\<lambda>_. None), settledOf = (\<lambda>_. None), promiseOf = (\<lambda>_. None)\<rparr>"

text \<open>
  \<open>ProxyError\<close> is a call of \<open>on.error\<close>: its third argument is a server response or, for an upgraded
  connection, a socket, which is not one. The others are the listeners of a response and its \<open>next\<close>.
\<close>

datatype proxy_event =
    Dispatched nat route_config
  | ProxyError "nat option" "string option" string
  | Finished nat
  | Closed nat
  | CalledNext nat "exn option"

text \<open>The four callbacks begin with the flag, set it, delete the entry, and settle the promise.\<close>

definition settle_promise :: "nat \<Rightarrow> exn + unit \<Rightarrow> inflight \<Rightarrow> inflight" where
  "settle_promise i r s = (if settledOf s i = Some False
     then \<lparr>pendingUpstreamErrors = (pendingUpstreamErrors s)(i := None),
           settledOf = (settledOf s)(i \<mapsto> True), promiseOf = (promiseOf s)(i \<mapsto> r)\<rparr>
     else s)"

definition proxy_on_error :: "nat option \<Rightarrow> string option \<Rightarrow> string \<Rightarrow> inflight \<Rightarrow> inflight" where
  "proxy_on_error res errCode errMessage s = (case res of
       None \<Rightarrow> s
     | Some i \<Rightarrow> (case pendingUpstreamErrors s i of
         None \<Rightarrow> s
       | Some route \<Rightarrow> settle_promise i (Inl (AppExn (mapUpstreamError route errCode errMessage))) s))"

fun proxy_step :: "proxy_event \<Rightarrow> inflight \<Rightarrow> inflight" where
  "proxy_step (Dispatched i route) s = \<lparr>pendingUpstreamErrors = (pendingUpstreamErrors s)(i \<mapsto> route),
     settledOf = (settledOf s)(i \<mapsto> False), promiseOf = (promiseOf s)(i := None)\<rparr>"
| "proxy_step (ProxyError res errCode errMessage) s = proxy_on_error res errCode errMessage s"
| "proxy_step (Finished i) s = settle_promise i (Inr ()) s"
| "proxy_step (Closed i) s = settle_promise i (Inr ()) s"
| "proxy_step (CalledNext i None) s = s"
| "proxy_step (CalledNext i (Some e)) s = settle_promise i (Inl e) s"

section \<open>One dispatch among the others\<close>

text \<open>The events of one response, as the promise of \<open>Proxy\<close> sees them.\<close>

fun own_event :: "nat \<Rightarrow> proxy_event \<Rightarrow> upstream_event option" where
  "own_event i (Dispatched j route) = None"
| "own_event i (ProxyError res c m) = (if res = Some i then Some (OnError True c m) else None)"
| "own_event i (Finished j) = (if j = i then Some Finish else None)"
| "own_event i (Closed j) = (if j = i then Some Close else None)"
| "own_event i (CalledNext j e) = (if j = i then Some (NextCalled e) else None)"

definition own_events :: "nat \<Rightarrow> proxy_event list \<Rightarrow> upstream_event list" where
  "own_events i events = List.map_filter (own_event i) events"

text \<open>The share of one response in the state, as a dispatch of \<open>Proxy\<close>, for its route.\<close>

definition shows_dispatch :: "nat \<Rightarrow> route_config \<Rightarrow> dispatch \<Rightarrow> inflight \<Rightarrow> bool" where
  "shows_dispatch i route d s \<longleftrightarrow> settledOf s i = Some (settled d) \<and> promiseOf s i = promise d \<and>
     pendingUpstreamErrors s i = (if pending d then Some route else None) \<and> (pending d \<longleftrightarrow> \<not> settled d)"

lemma settle_shows:
  "shows_dispatch i route d s \<Longrightarrow> shows_dispatch i route (settle r d) (settle_promise i r s)"
  by (auto simp: shows_dispatch_def settle_def settle_promise_def)

lemma settle_other: "j \<noteq> i \<Longrightarrow> shows_dispatch i route d s \<Longrightarrow> shows_dispatch i route d (settle_promise j r s)"
  by (simp add: shows_dispatch_def settle_promise_def)

lemma step_shows:
  assumes "shows_dispatch i route d s" and "\<forall>r. ev \<noteq> Dispatched i r"
  shows "shows_dispatch i route (case own_event i ev of None \<Rightarrow> d | Some e \<Rightarrow> on_event route e d) (proxy_step ev s)"
proof (cases ev)
  case (ProxyError res c m)
  show ?thesis
  proof (cases res)
    case (Some j)
    show ?thesis
    proof (cases "j = i")
      case True
      have "pendingUpstreamErrors s i = (if pending d then Some route else None)"
        using assms(1) by (simp add: shows_dispatch_def)
      with assms(1) ProxyError Some True show ?thesis by (simp add: proxy_on_error_def settle_shows)
    next
      case False
      with assms(1) ProxyError Some show ?thesis
        by (auto simp: proxy_on_error_def settle_other split: option.split)
    qed
  qed (use assms(1) ProxyError in \<open>simp add: proxy_on_error_def\<close>)
next
  case (CalledNext j e)
  with assms(1) show ?thesis by (cases e) (auto simp: settle_shows settle_other)
next
  case (Dispatched j r)
  with assms show ?thesis by (auto simp: shows_dispatch_def)
qed (use assms(1) in \<open>auto simp: settle_shows settle_other\<close>)

lemma steps_show:
  "shows_dispatch i route d s \<Longrightarrow> (\<forall>r. Dispatched i r \<notin> set events) \<Longrightarrow>
     shows_dispatch i route (fold (on_event route) (own_events i events) d) (fold proxy_step events s)"
proof (induction events arbitrary: d s)
  case (Cons ev events)
  have "\<forall>r. ev \<noteq> Dispatched i r" using Cons.prems(2) by auto
  note s1 = step_shows [OF Cons.prems(1) this]
  have "\<forall>r. Dispatched i r \<notin> set events" using Cons.prems(2) by auto
  from Cons.IH [OF s1 this] show ?case
    by (cases "own_event i ev") (simp_all add: own_events_def List.map_filter_simps)
qed (simp add: own_events_def List.map_filter_simps)

text \<open>
  C22. However the events of concurrent dispatches interleave, each of them settles with the first of
  its own events that settles anything, and an upstream error is mapped with its own route; no event
  of another request, on the same route or not, settles or changes it; and the shared map
  holds its callback exactly as long as it waits.
\<close>

theorem interleaved_dispatches_isolated:
  assumes "events = before @ Dispatched i route # after" and "\<forall>r. Dispatched i r \<notin> set after"
  shows "promiseOf (fold proxy_step events idle) i =
      (case List.map_filter (effect route) (own_events i after) of [] \<Rightarrow> None | r # _ \<Rightarrow> Some r) \<and>
    pendingUpstreamErrors (fold proxy_step events idle) i =
      (if promiseOf (fold proxy_step events idle) i = None then Some route else None)"
proof -
  let ?s = "proxy_step (Dispatched i route) (fold proxy_step before idle)"
  let ?d = "fold (on_event route) (own_events i after) dispatch0"
  have "shows_dispatch i route dispatch0 ?s" by (simp add: shows_dispatch_def dispatch0_def)
  from steps_show [OF this assms(2)] have "shows_dispatch i route ?d (fold proxy_step events idle)"
    by (simp add: assms(1))
  moreover have "promise ?d = (case List.map_filter (effect route) (own_events i after) of [] \<Rightarrow> None | r # _ \<Rightarrow> Some r)"
      "pending ?d \<longleftrightarrow> promise ?d = None"
    using dispatch_promise by blast+
  ultimately show ?thesis by (simp add: shows_dispatch_def)
qed

text \<open>Two requests on one route: the connection of the first is reset, the second is answered.\<close>

definition demo_interleaving :: "proxy_event list" where
  "demo_interleaving = [Dispatched 0 demo_route, Dispatched 1 demo_route,
     ProxyError (Some 0) (Some ''ECONNRESET'') ''socket hang up'', Finished 1, Closed 0, Closed 1]"

lemma interleaved_dispatches_isolated_witness:
  "promiseOf (fold proxy_step demo_interleaving idle) 0 = Some (Inl (AppExn (GatewayTimeoutError ''/api/x''))) \<and>
   promiseOf (fold proxy_step demo_interleaving idle) 1 = Some (Inr ())"
proof -
  have path: "rc_path demo_route = ''/api/x''" by (simp add: demo_route_def)
  note split0 = interleaved_dispatches_isolated [of demo_interleaving "[]" 0 demo_route "tl demo_interleaving"]
  note split1 = interleaved_dispatches_isolated [of demo_interleaving "[Dispatched 0 demo_route]" 1 demo_route
      "tl (tl demo_interleaving)"]
  show ?thesis using split0 split1
    by (simp add: demo_interleaving_def own_events_def List.map_filter_simps mapUpstreamError_def path
        del: fold.simps)
qed

end
