(* ===== verification/Retries.thy ===== *)
theory Retries
  imports SessionRoutes
begin

text \<open>
  Two requests to \<open>POST /v1/auth/refresh\<close> with one idempotency key, interleaved: the second arrives
  while the first is still at work, waits for it, and answers with the pair the first one made.
\<close>

section \<open>What the owner leaves in the slot\<close>

lemma refresh_rotate_completes:
  assumes "refresh_rotate P token (Some k) req res w = (Inr (Respond r), w')"
  obtains c w1 where "completeIdempotentRefresh P k c w1 = (Inr (), w')"
    and "cr_presentedTokenHash c = hashRefreshToken P token"
    and "r = send_json 200 (token_response P (cr_accessToken c) (cr_refreshToken c)) res"
proof -
  obtain rot w2 where rt: "rotateRefreshToken P token (requestMeta req) w = (Inr rot, w2)"
    and rest: "(case rot of Inl e \<Rightarrow> refresh_failed P (Some k) e req res
     | Inr x \<Rightarrow> refresh_rotated P (hashRefreshToken P token) (Some k) x req res) w2 = (Inr (Respond r), w')"
    using assms unfolding refresh_rotate_def by (rule await_InrE)
  show thesis
  proof (cases rot)
    case (Inl e)
    with rest refresh_failed_fails show ?thesis by fastforce
  next
    case (Inr x)
    with rest obtain user w3 where "findUserById P (rr_userId x) w2 = (Inr (Some user), w3)"
      by (auto simp: refresh_rotated_def elim!: await_InrE split: option.splits)
    with rest Inr show ?thesis
      by (auto simp: refresh_rotated_def elim!: await_InrE intro: that)
  qed
qed

lemma complete_clock:
  assumes "gcm_laws P" and "hkdf_laws P" and "completeIdempotentRefresh P k c w = (Inr u, w')"
    and "\<forall>n. int (lag w' n) \<le> L"
  shows "clock (tick w') \<le> clock w + 2 * L"
proof -
  obtain r w1 where enc: "encryptIdempotencyCacheValue P (stringify (entry_json (Done c))) w = (r, w1)"
    by fastforce
  obtain s where s: "r = Inr s" "w1 = w\<lparr>draws := Suc (draws w)\<rparr>"
    using encrypt_holds [OF assms(1,2) enc] .
  obtain x where set: "redis_call P (SETEX (idempotencyRedisKey k) s 30) w1 = (Inr x, w')"
    using assms(3) enc s(1) by (auto simp: completeIdempotentRefresh_def IDEMPOTENCY_REFRESH_TTL_SECONDS_def
        elim!: await_InrE)
  then obtain r1 where w': "w' = (tick w1)\<lparr>redis := r1\<rparr>" by (auto simp: redis_Inr)
  have "int (lag w n) \<le> L" for n using assms(4) by (simp add: w' s(2))
  from this [of "ext_n w"] this [of "Suc (ext_n w)"] show ?thesis by (simp add: w' s(2) tick_def)
qed

section \<open>The interleaving\<close>

text \<open>
  The moment of the second request's first pause: it has tried to claim the key, has looked at the
  slot, and has slept.
\<close>

definition first_pause :: "'r platform \<Rightarrow> string \<Rightarrow> 'r world \<Rightarrow> 'r world" where
  "first_pause P k w = (let w1 = snd (claimIdempotencyKey P k w); w2 = snd (getIdempotencyCacheEntry P k w1)
     in w2\<lparr>clock := clock w2 + IDEMPOTENCY_CLAIM_WAIT_MS\<rparr>)"

lemma wait_over:
  assumes "redis_server (redisExec P) view" and "holds P (Done r) s" and "cr_presentedTokenHash r = h"
    and "live view (idempotencyRedisKey k) s t w" and "clock (tick w) < t"
  shows "case fst (wait_attempts P others k h (Suc n) w) of
      Inr x \<Rightarrow> x = Some r \<and> refresh_tokens (snd (wait_attempts P others k h (Suc n) w)) = refresh_tokens w
    | Inl e \<Rightarrow> \<exists>m. e = RedisExn m"
proof -
  obtain x w' where get: "getIdempotencyCacheEntry P k w = (x, w')" by fastforce
  note f = getEntry_live [OF assms(1,2,4,5) get]
  have "refresh_tokens w' = refresh_tokens w" using getEntry_world [OF get] by auto
  with f get assms(3) show ?thesis by (cases x) auto
qed


section \<open>The interleaving on the reference services\<close>

text \<open>Services that answer at once, and go on answering.\<close>

definition steady :: "mem_redis world \<Rightarrow> bool" where
  "steady w \<longleftrightarrow> up (redis w) \<and> lag w = (\<lambda>_. 0) \<and> pg_fate w = (\<lambda>_. Served)"

lemma mem_exec_up: "up (snd (mem_exec c t m)) = up m"
  by (cases c) (auto simp: mem_exec_def mem_put_def split: option.split)

lemma steady_redis [io_rules]: "preserves steady (redis_call demo c)"
proof (rule preservesI)
  fix w assume "steady w"
  moreover obtain x r where "mem_exec c (clock (tick w)) (redis w) = (x, r)" by fastforce
  moreover from this have "up r = up (redis w)" using mem_exec_up [of c "clock (tick w)" "redis w"] by simp
  ultimately show "steady (snd (redis_call demo c w))"
    by (auto simp: redis_call_def Let_def steady_def split: sum.split)
qed

lemma steady_same [simp]:
  "steady (tick w) = steady w" "steady (w\<lparr>draws := n\<rparr>) = steady w" "steady (w\<lparr>clock := t\<rparr>) = steady w"
  "steady (w\<lparr>audit_log := a\<rparr>) = steady w" "steady (w\<lparr>log_lines := l\<rparr>) = steady w"
  "steady (w\<lparr>refresh_tokens := ts\<rparr>) = steady w"
  by (simp_all add: steady_def)

lemma steady_more [simp]: "steady (w\<lparr>dekCache := d\<rparr>) = steady w"
  by (simp add: steady_def)

lemma steady_sign [io_rules]: "preserves steady (signAccessToken P s)"
proof (rule preservesI)
  fix w :: "mem_redis world" assume "steady w"
  obtain r w' where run: "signAccessToken P s w = (r, w')" by fastforce
  have "(redis w', lag w', pg_fate w') = (redis w, lag w, pg_fate w)"
    by (rule keepsD [OF keeps_signAccessToken run]) (simp_all add: keys_frame_def)
  then show "steady (snd (signAccessToken P s w))" using \<open>steady w\<close> run by (simp add: steady_def)
qed

lemma steady_cacheRevocation: "preserves steady (cacheRefreshTokenRevocation demo h e)"
  unfolding cacheRefreshTokenRevocation_def by (intro steady_redis io_rules; simp)

lemma steady_revokeFamily: "preserves steady (revokeSessionFamily demo f s)"
  unfolding revokeSessionFamily_def revoke_where_def by (intro steady_cacheRevocation io_rules) simp_all

lemma steady_rotate [io_rules]: "preserves steady (rotateRefreshToken demo tok m)"
  unfolding rotateRefreshToken_def rotate_row_def Let_def issueRefreshToken_def insert_refresh_token_def revoke_where_def
  by (intro steady_cacheRevocation steady_revokeFamily io_rules) simp_all

lemma steady_reply [io_rules]:
  "(\<And>s. preserves I (m s)) \<Longrightarrow> preserves I n \<Longrightarrow> preserves I (case reply of Bulk s \<Rightarrow> m s | _ \<Rightarrow> n)"
  by (cases reply) simp_all

lemma steady_entry [io_rules]: "preserves steady (getIdempotencyCacheEntry demo k)"
  unfolding getIdempotencyCacheEntry_def
  by (rule preserves_await, rule steady_redis, rule steady_reply) (intro io_rules)+

lemma demo_completes_steady:
  assumes "steady w"
  shows "\<exists>w'. completeIdempotentRefresh demo k c w = (Inr (), w') \<and> steady w'"
proof -
  obtain q w1 where enc: "encryptIdempotencyCacheValue demo (stringify (entry_json (Done c))) w = (q, w1)"
    by fastforce
  obtain s where "q = Inr s" "w1 = w\<lparr>draws := Suc (draws w)\<rparr>"
    using encrypt_holds [OF demo_gcm demo_hkdf_laws enc] .
  with enc assms show ?thesis
    by (simp add: completeIdempotentRefresh_def await_run redis_call_def Let_def steady_def mem_exec_def mem_put_def)
qed

lemma demo_owner_answers:
  assumes "demo_ready c a w" and "steady w"
  shows "\<exists>r w'. refresh_rotate demo ''tok'' (Some k) demo_request response0 w = (Inr (Respond r), w') \<and> lag w' = (\<lambda>_. 0)"
proof -
  obtain x user w1 w2 where rot: "rotateRefreshToken demo ''tok'' (requestMeta demo_request) w = (Inr (Inr x), w1)"
    and f: "findUserById demo (rr_userId x) w1 = (Inr (Some user), w2)" and kc: "key_caches demo w2"
    using demo_ready_rotates [OF assms(1)] by blast
  have s1: "steady w1" by (rule preservesD [OF steady_rotate rot assms(2)])
  have "preserves steady (findUserById demo (rr_userId x))" by (intro io_rules) simp_all
  from preservesD [OF this f s1] have s2: "steady w2" .
  obtain t w3 where sg: "signAccessToken demo (subject_of demo user) w2 = (Inr t, w3)"
    using sign_total [OF demo_load kc] by blast
  have s3: "steady w3" by (rule preservesD [OF steady_sign sg s2])
  let ?e = "(audit_event ''auth.token_refresh'' ''success'')\<lparr>user_id := Some (au_id user), resource := Some ''/v1/auth/refresh''\<rparr>"
  obtain w4 where au: "writeAuditEvent ?e w3 = (Inr (), w4)" using writeAudit_Inr by blast
  have "preserves steady (writeAuditEvent ?e)" by (intro io_rules) simp_all
  from preservesD [OF this au s3] have s4: "steady w4" .
  obtain w5 where "completeIdempotentRefresh demo k \<lparr>cr_userId = au_id user, cr_accessToken = sat_token t,
      cr_refreshToken = ir_plaintext (rr_issued x), cr_presentedTokenHash = hashRefreshToken demo ''tok''\<rparr> w4 = (Inr (), w5)"
    and "steady w5" using demo_completes_steady [OF s4] by blast
  then show ?thesis using rot f sg au
    by (simp add: refresh_rotate_def refresh_rotated_def steady_def)
qed

lemma claim_world:
  assumes "gcm_laws P" and "hkdf_laws P"
  shows "\<exists>r. snd (claimIdempotencyKey P k w) = (tick (w\<lparr>draws := Suc (draws w)\<rparr>))\<lparr>redis := r\<rparr>"
proof -
  obtain q w1 where enc: "encryptIdempotencyCacheValue P (stringify (entry_json Pending)) w = (q, w1)"
    by fastforce
  obtain s where s: "q = Inr s" "w1 = w\<lparr>draws := Suc (draws w)\<rparr>"
    using encrypt_holds [OF assms enc] .
  obtain x w2 where call: "redis_call P (SETEXNX (idempotencyRedisKey k) s 30) w1 = (x, w2)" by fastforce
  from redis_run [OF call] obtain r where "w2 = (tick w1)\<lparr>redis := r\<rparr>" by blast
  then show ?thesis using enc s call
    by (cases x) (auto simp: claimIdempotencyKey_def IDEMPOTENCY_REFRESH_TTL_SECONDS_def await_run)
qed

lemma steady_claim [io_rules]: "preserves steady (claimIdempotencyKey demo k)"
  unfolding claimIdempotencyKey_def by (intro io_rules) simp_all


end
