(* ===== verification/SessionSpec.thy ===== *)
theory SessionSpec
  imports Rotation
begin

text \<open>
  What the refresh-token service promises, stated without rows, clocks or queries: a machine of
  sessions, each with an owner, the tokens ever issued for it and at most one current token. Every
  operation of the service is a step of it with the same answer, and a token is exchanged at most
  once in every run.
\<close>

section \<open>The specification\<close>

text \<open>Tokens are known by their hashes; a session is a session family.\<close>

record sessions =
  ss_owner :: "string \<Rightarrow> string option"
  ss_issued :: "string \<Rightarrow> string option"
  ss_current :: "string \<Rightarrow> string option"

definition close_session :: "string \<Rightarrow> sessions \<Rightarrow> sessions" where
  "close_session f s = s\<lparr>ss_current := (ss_current s)(f := None)\<rparr>"

definition renew_session :: "string \<Rightarrow> string \<Rightarrow> sessions \<Rightarrow> sessions" where
  "renew_session f h s = s\<lparr>ss_issued := (ss_issued s)(h \<mapsto> f), ss_current := (ss_current s)(f \<mapsto> h)\<rparr>"

definition open_session :: "string \<Rightarrow> string \<Rightarrow> string \<Rightarrow> sessions \<Rightarrow> sessions" where
  "open_session u f h s = renew_session f h (s\<lparr>ss_owner := (ss_owner s)(f \<mapsto> u)\<rparr>)"

datatype session_op = Open string | Present string | CloseToken string | CloseRecent string

text \<open>\<open>Broken\<close>: the operation ended with an exception of the database or Redis.\<close>

datatype session_answer = Granted string | Reused | Invalid | Expired | Closed | Broken

inductive session_step :: "sessions \<Rightarrow> session_op \<Rightarrow> session_answer \<Rightarrow> sessions \<Rightarrow> bool" where
  opened: "ss_owner s f = None \<Longrightarrow> ss_issued s h = None \<Longrightarrow> a \<in> {Granted h, Broken} \<Longrightarrow>
     session_step s (Open u) a (open_session u f h s)"
| unknown: "ss_issued s h = None \<Longrightarrow> session_step s (Present h) Invalid s"
| reused: "ss_issued s h = Some f \<Longrightarrow> ss_current s f \<noteq> Some h \<Longrightarrow> a \<in> {Reused, Broken} \<Longrightarrow>
     session_step s (Present h) a (close_session f s)"
| expired: "ss_issued s h = Some f \<Longrightarrow> ss_current s f = Some h \<Longrightarrow> session_step s (Present h) Expired s"
| renewed: "ss_issued s h = Some f \<Longrightarrow> ss_current s f = Some h \<Longrightarrow> ss_issued s h' = None \<Longrightarrow>
     a \<in> {Granted h', Broken} \<Longrightarrow> session_step s (Present h) a (renew_session f h' s)"
| lost: "ss_issued s h = Some f \<Longrightarrow> ss_current s f = Some h \<Longrightarrow>
     session_step s (Present h) Broken (close_session f s)"
| closed: "ss_issued s h = Some f \<Longrightarrow> ss_current s f = Some h \<Longrightarrow> a \<in> {Closed, Broken} \<Longrightarrow>
     session_step s (CloseToken h) a (close_session f s)"
| not_open: "(\<forall>f. ss_issued s h = Some f \<longrightarrow> ss_current s f \<noteq> Some h) \<Longrightarrow> session_step s (CloseToken h) Closed s"
| closed_recent: "ss_owner s f = Some u \<Longrightarrow> ss_current s f \<noteq> None \<Longrightarrow> a \<in> {Closed, Broken} \<Longrightarrow>
     session_step s (CloseRecent u) a (close_session f s)"
| none_open: "(\<forall>f. ss_owner s f = Some u \<longrightarrow> ss_current s f = None) \<Longrightarrow> session_step s (CloseRecent u) Closed s"
| failed: "session_step s op Broken s"

text \<open>A run, with the answers it gave, the last one first.\<close>

inductive session_run :: "sessions \<Rightarrow> (session_op \<times> session_answer) list \<Rightarrow> sessions \<Rightarrow> bool" for s0 where
  start: "session_run s0 [] s0"
| step: "session_run s0 es s \<Longrightarrow> session_step s op a s' \<Longrightarrow> session_run s0 ((op, a) # es) s'"

section \<open>What the specification gives\<close>

text \<open>A token that is not the current one of its session is never exchanged again.\<close>

definition spent :: "string \<Rightarrow> sessions \<Rightarrow> bool" where
  "spent h s \<longleftrightarrow> (\<exists>f. ss_issued s h = Some f \<and> ss_current s f \<noteq> Some h)"

lemmas session_ops = close_session_def renew_session_def open_session_def

inductive_cases step_PresentE: "session_step s (Present h) a s'"
inductive_cases step_GrantedE: "session_step s (Present h) (Granted h') s'"

lemma spent_stays: "session_step s op a s' \<Longrightarrow> spent h s \<Longrightarrow> spent h s'"
  by (induction rule: session_step.induct) (auto simp: spent_def session_ops)

lemma spent_not_granted: "session_step s (Present h) (Granted h') s' \<Longrightarrow> \<not> spent h s"
  by (auto simp: spent_def elim!: step_GrantedE)

lemma granted_spends: "session_step s (Present h) (Granted h') s' \<Longrightarrow> spent h s'"
  by (auto simp: spent_def session_ops elim!: step_GrantedE)

fun exchanges :: "string \<Rightarrow> session_op \<times> session_answer \<Rightarrow> bool" where
  "exchanges h (Present h0, Granted h') = (h0 = h)"
| "exchanges h e = False"

lemma exchanges_iff: "exchanges h (op, a) \<longleftrightarrow> (\<exists>h'. op = Present h \<and> a = Granted h')"
  by (cases op; cases a) auto

lemma exchanged_once:
  "session_run s es s' \<Longrightarrow> length (filter (exchanges h) es) \<le> 1 \<and> (filter (exchanges h) es \<noteq> [] \<longrightarrow> spent h s')"
proof (induction rule: session_run.induct)
  case (step es s op a s')
  show ?case
  proof (cases "exchanges h (op, a)")
    case True
    then obtain h' where now: "session_step s (Present h) (Granted h') s'"
      using step.hyps(2) by (auto simp: exchanges_iff)
    have "filter (exchanges h) es = []" using spent_not_granted [OF now] step.IH by blast
    then show ?thesis using True granted_spends [OF now] by simp
  next
    case False
    then show ?thesis using step.IH spent_stays [OF step.hyps(2)] by auto
  qed
qed simp

section \<open>The sessions of a token table\<close>

definition sessions_of :: "refresh_row list \<Rightarrow> sessions" where
  "sessions_of rows = \<lparr>ss_owner = map_of (map (\<lambda>r. (rt_sessionFamily r, rt_userId r)) rows),
     ss_issued = map_of (map (\<lambda>r. (rt_tokenHash r, rt_sessionFamily r)) rows),
     ss_current = map_of (map (\<lambda>r. (rt_sessionFamily r, rt_tokenHash r)) (filter active rows))\<rparr>"

lemma map_of_rows:
  assumes "\<And>r r'. r \<in> set rows \<Longrightarrow> r' \<in> set rows \<Longrightarrow> k r = k r' \<Longrightarrow> v r = v r'"
  shows "map_of (map (\<lambda>r. (k r, v r)) rows) x = Some y \<longleftrightarrow> (\<exists>r \<in> set rows. k r = x \<and> v r = y)"
proof
  assume "map_of (map (\<lambda>r. (k r, v r)) rows) x = Some y"
  from map_of_SomeD [OF this] show "\<exists>r \<in> set rows. k r = x \<and> v r = y" by auto
next
  assume "\<exists>r \<in> set rows. k r = x \<and> v r = y"
  then obtain r where r: "r \<in> set rows" "k r = x" "v r = y" by blast
  then obtain z where z: "map_of (map (\<lambda>r. (k r, v r)) rows) x = Some z"
    by (cases "map_of (map (\<lambda>r. (k r, v r)) rows) x") (auto simp: map_of_eq_None_iff image_image)
  from map_of_SomeD [OF this] obtain r' where "r' \<in> set rows" "k r' = x" "v r' = z" by auto
  with assms r z show "map_of (map (\<lambda>r. (k r, v r)) rows) x = Some y" by metis
qed

lemma owner_iff:
  "family_inv rows \<Longrightarrow> ss_owner (sessions_of rows) f = Some u \<longleftrightarrow>
     (\<exists>r \<in> set rows. rt_sessionFamily r = f \<and> rt_userId r = u)"
  by (simp add: sessions_of_def, rule map_of_rows) (rule family_user)

lemma same_hash: "family_inv rows \<Longrightarrow> r \<in> set rows \<Longrightarrow> r' \<in> set rows \<Longrightarrow> rt_tokenHash r = rt_tokenHash r' \<Longrightarrow> r = r'"
  unfolding family_inv_def by (blast dest: distinct_map_unique)

lemma same_id: "family_inv rows \<Longrightarrow> r \<in> set rows \<Longrightarrow> r' \<in> set rows \<Longrightarrow> rt_id r = rt_id r' \<Longrightarrow> r = r'"
  unfolding family_inv_def by (blast dest: distinct_map_unique)

lemma issued_iff:
  "family_inv rows \<Longrightarrow> ss_issued (sessions_of rows) h = Some f \<longleftrightarrow>
     (\<exists>r \<in> set rows. rt_tokenHash r = h \<and> rt_sessionFamily r = f)"
  by (simp add: sessions_of_def, rule map_of_rows) (metis same_hash)

lemma one_active: "family_inv rows \<Longrightarrow> r \<in> set rows \<Longrightarrow> r' \<in> set rows \<Longrightarrow> active r \<Longrightarrow> active r' \<Longrightarrow>
    rt_sessionFamily r = rt_sessionFamily r' \<Longrightarrow> r = r'"
  using family_one same_id by blast

lemma current_iff:
  "family_inv rows \<Longrightarrow> ss_current (sessions_of rows) f = Some h \<longleftrightarrow>
     (\<exists>r \<in> set rows. active r \<and> rt_sessionFamily r = f \<and> rt_tokenHash r = h)"
proof -
  assume inv: "family_inv rows"
  have "ss_current (sessions_of rows) f = Some h \<longleftrightarrow>
      (\<exists>r \<in> set (filter active rows). rt_sessionFamily r = f \<and> rt_tokenHash r = h)"
    unfolding sessions_of_def sessions.select_convs
    by (rule map_of_rows) (use one_active [OF inv] in auto)
  then show ?thesis by auto
qed

lemma owner_row:
  assumes "family_inv rows" and "ss_owner (sessions_of rows) f = Some u"
  obtains r where "r \<in> set rows" and "rt_sessionFamily r = f" and "rt_userId r = u"
  using assms owner_iff by blast

lemma current_row:
  assumes "family_inv rows" and "ss_current (sessions_of rows) f = Some h"
  obtains r where "r \<in> set rows" and "active r" and "rt_sessionFamily r = f" and "rt_tokenHash r = h"
  using assms current_iff by blast

text \<open>Two descriptions of the sessions agree when their entries do.\<close>

lemma sessions_eqI:
  assumes "\<And>f u. ss_owner s f = Some u \<longleftrightarrow> ss_owner t f = Some u"
    and "\<And>h f. ss_issued s h = Some f \<longleftrightarrow> ss_issued t h = Some f"
    and "\<And>f h. ss_current s f = Some h \<longleftrightarrow> ss_current t f = Some h"
  shows "s = (t :: sessions)"
proof -
  have eq: "a = b" if "\<And>x y. a x = Some y \<longleftrightarrow> b x = Some y" for a b :: "string \<Rightarrow> string option"
  proof
    fix x
    show "a x = b x"
    proof (cases "b x")
      case None
      then have "\<not> (\<exists>y. a x = Some y)" using that by simp
      then show ?thesis using None by simp
    next
      case (Some y)
      then show ?thesis using that [of x y] by simp
    qed
  qed
  have "ss_owner s = ss_owner t" by (rule eq [OF assms(1)])
  moreover have "ss_issued s = ss_issued t" by (rule eq [OF assms(2)])
  moreover have "ss_current s = ss_current t" by (rule eq [OF assms(3)])
  ultimately show ?thesis by (intro sessions.equality) simp_all
qed

section \<open>What a query does to the sessions\<close>

lemma revoked_pairs:
  "map (\<lambda>r. (rt_sessionFamily r, rt_userId r)) (set_where c (revoke_row t s) rows) = map (\<lambda>r. (rt_sessionFamily r, rt_userId r)) rows"
  "map (\<lambda>r. (rt_tokenHash r, rt_sessionFamily r)) (set_where c (revoke_row t s) rows) = map (\<lambda>r. (rt_tokenHash r, rt_sessionFamily r)) rows"
  by (simp_all add: map_set_where)

lemma sessions_revoke:
  assumes inv: "family_inv rows" and c: "\<And>r. r \<in> set rows \<Longrightarrow> active r \<Longrightarrow> c r \<longleftrightarrow> rt_sessionFamily r = f0"
  shows "sessions_of (set_where c (revoke_row t s) rows) = close_session f0 (sessions_of rows)"
proof (rule sessions_eqI)
  let ?rows = "set_where c (revoke_row t s) rows"
  have inv': "family_inv ?rows" by (rule family_inv_revoke [OF inv])
  have kept: "r \<in> set ?rows \<and> active r \<longleftrightarrow> r \<in> set rows \<and> active r \<and> rt_sessionFamily r \<noteq> f0" for r
  proof
    assume r: "r \<in> set ?rows \<and> active r"
    then show "r \<in> set rows \<and> active r \<and> rt_sessionFamily r \<noteq> f0" using in_revoked c by blast
  next
    assume "r \<in> set rows \<and> active r \<and> rt_sessionFamily r \<noteq> f0"
    then show "r \<in> set ?rows \<and> active r" using c by (auto simp: in_set_where intro!: bexI [of _ r])
  qed
  show "ss_current (sessions_of ?rows) f = Some h \<longleftrightarrow> ss_current (close_session f0 (sessions_of rows)) f = Some h" for f h
  proof -
    have "ss_current (sessions_of ?rows) f = Some h \<longleftrightarrow>
        (\<exists>r. (r \<in> set ?rows \<and> active r) \<and> rt_sessionFamily r = f \<and> rt_tokenHash r = h)"
      using current_iff [OF inv'] by blast
    also have "\<dots> \<longleftrightarrow> f \<noteq> f0 \<and> ss_current (sessions_of rows) f = Some h"
      unfolding kept current_iff [OF inv] by blast
    finally show ?thesis by (simp add: close_session_def)
  qed
qed (simp_all add: sessions_of_def close_session_def revoked_pairs)

lemma sessions_revoke_one:
  "family_inv rows \<Longrightarrow> row \<in> set rows \<Longrightarrow> active row \<Longrightarrow>
     sessions_of (set_where (\<lambda>r. rt_id r = rt_id row) (revoke_row t s) rows) =
       close_session (rt_sessionFamily row) (sessions_of rows)"
  by (rule sessions_revoke) (use one_active same_id in blast)+

lemma sessions_revoke_family:
  "family_inv rows \<Longrightarrow>
     sessions_of (set_where (in_family f) (revoke_row t s) rows) = close_session f (sessions_of rows)"
  by (rule sessions_revoke) (simp_all add: in_family_def active_def)

lemma close_closed: "ss_current s f = None \<Longrightarrow> close_session f s = s"
  by (simp add: close_session_def fun_upd_idem)

lemma close_renew: "renew_session f h (close_session f s) = renew_session f h s"
  by (simp add: session_ops)

lemma close_fresh: "ss_issued (close_session f s) = ss_issued s" "ss_owner (close_session f s) = ss_owner s"
  by (simp_all add: close_session_def)

text \<open>A new row: a session is opened, or renewed when it has no live token.\<close>

lemma sessions_add:
  assumes inv: "family_inv rows" and inv': "family_inv rows'" and add: "adds u f h rows rows'"
  shows "sessions_of rows' = open_session u f h (sessions_of rows)" and "ss_issued (sessions_of rows) h = None"
proof -
  obtain n where rows': "rows' = rows @ [n]" and n: "rt_userId n = u" "rt_sessionFamily n = f" "rt_tokenHash n = h"
      "active n" and new: "h \<notin> rt_tokenHash ` set rows"
    using add by (auto simp: adds_def active_def)
  have u: "rt_userId r = u" if "r \<in> set rows" "rt_sessionFamily r = f" for r
    using family_user [OF inv', of r n] that n by (simp add: rows')
  have fresh: "rt_tokenHash r \<noteq> h" if "r \<in> set rows" for r using new that by blast
  have d: "r \<notin> set rows" if "rt_sessionFamily r = f" "active r" "r \<noteq> n" for r
    using one_active [OF inv', of r n] that n by (auto simp: rows')
  show "ss_issued (sessions_of rows) h = None"
    using new issued_iff [OF inv, of h] by (cases "ss_issued (sessions_of rows) h") auto
  show "sessions_of rows' = open_session u f h (sessions_of rows)"
  proof (rule sessions_eqI)
    show "ss_owner (sessions_of rows') f' = Some u' \<longleftrightarrow> ss_owner (open_session u f h (sessions_of rows)) f' = Some u'" for f' u'
      unfolding owner_iff [OF inv'] using u n by (auto simp: session_ops owner_iff [OF inv] rows')
    show "ss_issued (sessions_of rows') h' = Some f' \<longleftrightarrow> ss_issued (open_session u f h (sessions_of rows)) h' = Some f'" for h' f'
      unfolding issued_iff [OF inv'] using fresh n by (auto simp: session_ops issued_iff [OF inv] rows')
    show "ss_current (sessions_of rows') f' = Some h' \<longleftrightarrow> ss_current (open_session u f h (sessions_of rows)) f' = Some h'" for f' h'
      unfolding current_iff [OF inv'] using d n by (auto simp: session_ops current_iff [OF inv] rows')
  qed
qed

lemma renew_known: "ss_owner s f = Some u \<Longrightarrow> open_session u f h s = renew_session f h s"
  by (simp add: session_ops fun_upd_idem)

section \<open>The operations\<close>

definition present_answer ::
    "'r platform \<Rightarrow> exn + (rotation_result, app_error) result \<Rightarrow> session_answer" where
  "present_answer P r = (case r of
       Inl _ \<Rightarrow> Broken
     | Inr (Inl e) \<Rightarrow> if e = token_reuse_default then Reused
         else if e = UnauthorizedError ''Refresh token is invalid'' then Invalid else Expired
     | Inr (Inr x) \<Rightarrow> Granted (hashRefreshToken P (ir_plaintext (rr_issued x))))"

definition issue_answer :: "'r platform \<Rightarrow> exn + issued_refresh_token \<Rightarrow> session_answer" where
  "issue_answer P r = (case r of Inl _ \<Rightarrow> Broken | Inr x \<Rightarrow> Granted (hashRefreshToken P (ir_plaintext x)))"

definition close_answer :: "exn + unit \<Rightarrow> session_answer" where
  "close_answer r = (case r of Inl _ \<Rightarrow> Broken | Inr _ \<Rightarrow> Closed)"

lemma expired_answer:
  "rt_revokedAt row = None \<Longrightarrow> rotate_row P h m row w = (Inr (Inl e), w') \<Longrightarrow>
     e = UnauthorizedError ''Refresh token has expired''"
  by (auto simp: rotate_row_def await_run now_run err_def ok_def split: if_splits prod.splits sum.splits)

text \<open>What \<open>rotate_row\<close> does with the row of a live token, and with that of a spent one.\<close>

lemma live_row_refines:
  assumes inv: "family_inv (refresh_tokens w)" "family_inv (refresh_tokens w')" and row: "row \<in> set (refresh_tokens w)"
    and live: "rt_revokedAt row = None" and run: "rotate_row P (rt_tokenHash row) meta row w = (r, w')"
  shows "session_step (sessions_of (refresh_tokens w)) (Present (rt_tokenHash row)) (present_answer P r)
    (sessions_of (refresh_tokens w'))"
proof -
  let ?s = "sessions_of (refresh_tokens w)" and ?f = "rt_sessionFamily row"
  have act: "active row" using live by (simp add: active_def)
  have iss: "ss_issued ?s (rt_tokenHash row) = Some ?f" using issued_iff [OF inv(1)] row by blast
  have cur: "ss_current ?s ?f = Some (rt_tokenHash row)" using current_iff [OF inv(1)] row act by blast
  from rotate_row_active [OF live run] show ?thesis
  proof (elim conjE disjE exE, goal_cases)
    case 1
    show ?case
    proof (cases r)
      case (Inr q)
      with 1 obtain e where e: "q = Inl e" by (cases q) auto
      have "e = UnauthorizedError ''Refresh token has expired''" using expired_answer [OF live] run Inr e by blast
      then show ?thesis using 1 Inr e session_step.expired [OF iss cur] by (simp add: present_answer_def token_reuse_default_def)
    qed (use 1 in \<open>simp add: present_answer_def session_step.failed\<close>)
  next
    case (2 t)
    then have "sessions_of (refresh_tokens w') = close_session ?f ?s" using sessions_revoke_one [OF inv(1) row act] by simp
    then show ?case using 2 session_step.lost [OF iss cur] by (cases r) (simp_all add: present_answer_def)
  next
    case (3 h')
    then obtain t where ad: "adds (rt_userId row) ?f h'
        (set_where (\<lambda>r. rt_id r = rt_id row) (revoke_row t ''rotation'') (refresh_tokens w)) (refresh_tokens w')"
      by (auto simp: rotated_rows_def)
    note add = sessions_add [OF family_inv_revoke [OF inv(1)] inv(2) ad, unfolded sessions_revoke_one [OF inv(1) row act]]
    have own: "ss_owner ?s ?f = Some (rt_userId row)" using owner_iff [OF inv(1)] row by blast
    have "sessions_of (refresh_tokens w') = renew_session ?f h' ?s"
      using add(1) own by (simp add: renew_known close_fresh close_renew)
    moreover have "ss_issued ?s h' = None" using add(2) unfolding close_fresh .
    moreover have "present_answer P r \<in> {Granted h', Broken}" using 3 by (cases r) (auto simp: present_answer_def)
    ultimately show ?case using session_step.renewed [OF iss cur] by simp
  qed
qed

lemma spent_row_refines:
  assumes inv: "family_inv (refresh_tokens w)" and row: "row \<in> set (refresh_tokens w)"
    and spent: "rt_revokedAt row \<noteq> None" and run: "rotate_row P (rt_tokenHash row) meta row w = (r, w')"
  shows "session_step (sessions_of (refresh_tokens w)) (Present (rt_tokenHash row)) (present_answer P r)
    (sessions_of (refresh_tokens w'))"
proof -
  let ?s = "sessions_of (refresh_tokens w)" and ?f = "rt_sessionFamily row"
  have iss: "ss_issued ?s (rt_tokenHash row) = Some ?f" using issued_iff [OF inv] row by blast
  have spent_now: "ss_current ?s ?f \<noteq> Some (rt_tokenHash row)"
  proof -
    have "\<not> active row" using spent by (simp add: active_def)
    then show ?thesis using current_iff [OF inv] same_hash [OF inv _ row] by blast
  qed
  note again = session_step.reused [OF iss spent_now]
  obtain r1 w1 where rv: "revokeSessionFamily P ?f ''reuse_detected'' w = (r1, w1)" by fastforce
  have w1: "refresh_tokens w' = refresh_tokens w1 \<and> (isl r1 \<longrightarrow> isl r)"
    using run spent rv by (cases r1) (auto simp: rotate_row_def err_def dest!: audit_rows split: prod.splits sum.splits
        elim!: await_InrE simp: await_run)
  have ans: "present_answer P r \<in> {Reused, Broken}"
    using rotate_row_revoked [OF spent run] by (cases r) (auto simp: present_answer_def)
  from revokeSessionFamily_rows [OF rv] show ?thesis
  proof (elim disjE conjE exE, goal_cases)
    case 1
    then have "isl r" using w1 by simp
    then show ?case using 1 w1 session_step.failed by (cases r) (simp_all add: present_answer_def)
  next
    case 2
    then have "ss_current ?s ?f \<noteq> Some h" for h by (auto simp: in_family_def active_def elim!: current_row [OF inv])
    then have "ss_current ?s ?f = None" by (cases "ss_current ?s ?f") auto
    then show ?case using again [OF ans] 2 w1 by (simp add: close_closed)
  next
    case (3 t)
    then show ?case using again [OF ans] w1 sessions_revoke_family [OF inv] by simp
  qed
qed

lemma present_refines:
  assumes inv: "family_inv (refresh_tokens w)" and run: "rotateRefreshToken P tok meta w = (r, w')"
  shows "session_step (sessions_of (refresh_tokens w)) (Present (hashRefreshToken P tok)) (present_answer P r)
    (sessions_of (refresh_tokens w'))"
proof (cases "pg_fate w (ext_n w)")
  case Served
  let ?h = "hashRefreshToken P tok" and ?s = "sessions_of (refresh_tokens w)"
  show ?thesis
  proof (cases "row0 (filter (\<lambda>r. rt_tokenHash r = ?h) (refresh_tokens w))")
    case None
    then have "ss_issued ?s ?h = None"
      using issued_iff [OF inv, of ?h] by (cases "ss_issued ?s ?h") (auto simp: filter_empty_conv)
    moreover have "r = Inr (Inl (UnauthorizedError ''Refresh token is invalid''))" "refresh_tokens w' = refresh_tokens w"
      using run Served None by (auto simp: rotateRefreshToken_run err_def)
    ultimately show ?thesis by (simp add: present_answer_def token_reuse_default_def session_step.unknown)
  next
    case (Some row)
    then have row: "row \<in> set (refresh_tokens (tick w))" and h: "rt_tokenHash row = ?h" using row0_filterD by fastforce+
    have rr: "rotate_row P (rt_tokenHash row) meta row (tick w) = (r, w')"
      using run Served Some by (simp add: rotateRefreshToken_run h)
    have inv': "family_inv (refresh_tokens (tick w))" "family_inv (refresh_tokens w')"
      using inv row_step_inv [OF rotateRefreshToken_step inv] run by (simp, metis snd_conv)
    show ?thesis
      using live_row_refines [OF inv' row _ rr] spent_row_refines [OF inv'(1) row _ rr]
      by (cases "rt_revokedAt row") (simp_all add: h)
  qed
qed (use run in \<open>auto simp: rotateRefreshToken_run present_answer_def intro: session_step.failed\<close>)

lemma open_refines:
  assumes inv: "family_inv (refresh_tokens w)" and new: "uuids w (draws w) \<notin> rt_sessionFamily ` set (refresh_tokens w)"
    and run: "issueRefreshToken P u meta None w = (r, w')"
  shows "session_step (sessions_of (refresh_tokens w)) (Open u) (issue_answer P r) (sessions_of (refresh_tokens w'))"
proof -
  let ?f = "uuids w (draws w)" and ?s = "sessions_of (refresh_tokens w)"
  have inv': "family_inv (refresh_tokens w')"
    using row_step_inv [OF issueRefreshToken_step [OF new] inv] run by (metis snd_conv)
  from issueRefreshToken_cases [OF run] show ?thesis
  proof (elim disjE conjE exE, goal_cases)
    case 1
    then show ?case by (cases r) (simp_all add: issue_answer_def session_step.failed)
  next
    case (2 h)
    then have ad: "adds u ?f h (refresh_tokens w) (refresh_tokens w')" by simp
    have own: "ss_owner ?s ?f = None"
    proof (rule ccontr)
      assume "ss_owner ?s ?f \<noteq> None"
      then obtain u' where "ss_owner ?s ?f = Some u'" by auto
      from owner_row [OF inv this] obtain x where "x \<in> set (refresh_tokens w)" "rt_sessionFamily x = ?f" .
      then show False using new imageI [of x "set (refresh_tokens w)" rt_sessionFamily] by simp
    qed
    have "issue_answer P r \<in> {Granted h, Broken}"
    proof (cases r)
      case (Inr x)
      then have "h = hashRefreshToken P (ir_plaintext x)" using 2(2) by blast
      then show ?thesis unfolding Inr issue_answer_def sum.case by blast
    qed (simp add: issue_answer_def)
    from session_step.opened [OF own sessions_add(2) [OF inv inv' ad] this] show ?case
      using sessions_add(1) [OF inv inv' ad] by simp
  qed
qed

text \<open>The two revocations end in the same way, by revoking one live row or nothing.\<close>

lemma revoke_one_run:
  assumes "await (revoke_where (\<lambda>r. rt_id r = rt_id row) reason) (\<lambda>_. cacheRefreshTokenRevocation P h e) w = (r, w')"
  shows "refresh_tokens w' = refresh_tokens w \<and> isl r \<or>
    (\<exists>t. refresh_tokens w' = set_where (\<lambda>r. rt_id r = rt_id row) (revoke_row t reason) (refresh_tokens w))"
proof -
  obtain r1 w1 where rv: "revoke_where (\<lambda>r. rt_id r = rt_id row) reason w = (r1, w1)" by fastforce
  show ?thesis
  proof (cases r1)
    case (Inl e)
    then show ?thesis using assms rv revoke_where_cases [OF rv] by auto
  next
    case (Inr u)
    then have "refresh_tokens w' = refresh_tokens w1" using assms rv cacheRevocation_rows by auto
    then show ?thesis using Inr revoke_where_cases [OF rv] by auto
  qed
qed

lemma revoke_one_refines:
  assumes inv: "family_inv (refresh_tokens w)" and row: "row \<in> set (refresh_tokens w)" "active row"
    and run: "await (revoke_where (\<lambda>r. rt_id r = rt_id row) reason) (\<lambda>_. cacheRefreshTokenRevocation P h e) w1 = (r, w')"
    and same: "refresh_tokens w1 = refresh_tokens w"
    and step: "\<And>a. a \<in> {Closed, Broken} \<Longrightarrow> session_step (sessions_of (refresh_tokens w)) op a
       (close_session (rt_sessionFamily row) (sessions_of (refresh_tokens w)))"
  shows "session_step (sessions_of (refresh_tokens w)) op (close_answer r) (sessions_of (refresh_tokens w'))"
  using revoke_one_run [OF run]
proof (elim disjE conjE exE, goal_cases)
  case 1
  then show ?case by (cases r) (simp_all add: same close_answer_def session_step.failed)
next
  case (2 t)
  have "close_answer r \<in> {Closed, Broken}" by (cases r) (simp_all add: close_answer_def)
  from step [OF this] show ?case using 2 sessions_revoke_one [OF inv row] by (simp add: same)
qed

lemma nothing_to_close:
  assumes inv: "family_inv (refresh_tokens w)" and none: "\<forall>x \<in> set (refresh_tokens w). rt_tokenHash x = h \<longrightarrow> \<not> active x"
  shows "session_step (sessions_of (refresh_tokens w)) (CloseToken h) Closed (sessions_of (refresh_tokens w))"
proof -
  have "\<forall>f. ss_issued (sessions_of (refresh_tokens w)) h = Some f \<longrightarrow> ss_current (sessions_of (refresh_tokens w)) f \<noteq> Some h"
    using none current_iff [OF inv] by blast
  then show ?thesis by (simp add: session_step.not_open)
qed

lemma nobody_to_close:
  assumes inv: "family_inv (refresh_tokens w)" and none: "\<forall>x \<in> set (refresh_tokens w). rt_userId x = u \<longrightarrow> \<not> active x"
  shows "session_step (sessions_of (refresh_tokens w)) (CloseRecent u) Closed (sessions_of (refresh_tokens w))"
proof -
  let ?s = "sessions_of (refresh_tokens w)"
  have "ss_current ?s f = None" if "ss_owner ?s f = Some u" for f
  proof (cases "ss_current ?s f")
    case (Some h)
    from current_row [OF inv this] obtain x where x: "x \<in> set (refresh_tokens w)" "active x" "rt_sessionFamily x = f" .
    from owner_row [OF inv that] obtain y where y: "y \<in> set (refresh_tokens w)" "rt_sessionFamily y = f" "rt_userId y = u" .
    have "rt_userId x = u" using family_user [OF inv x(1) y(1)] x(3) y(2,3) by simp
    then show ?thesis using none x by blast
  qed
  then show ?thesis by (simp add: session_step.none_open)
qed

lemma close_refines:
  assumes inv: "family_inv (refresh_tokens w)" and run: "revokeRefreshTokenByHash P h reason w = (r, w')"
  shows "session_step (sessions_of (refresh_tokens w)) (CloseToken h) (close_answer r) (sessions_of (refresh_tokens w'))"
proof -
  let ?s = "sessions_of (refresh_tokens w)"
  obtain found w1 where f: "find_by_hash h w = (found, w1)" by fastforce
  have w1: "refresh_tokens w1 = refresh_tokens w" using find_tick [OF f] by simp
  have idle: ?thesis if "r = Inr ()" "w' = w1" "\<forall>x \<in> set (refresh_tokens w). rt_tokenHash x = h \<longrightarrow> \<not> active x"
    using nothing_to_close [OF inv that(3)] that(1,2) w1 by (simp add: close_answer_def)
  show ?thesis
  proof (cases found)
    case (Inl e)
    then show ?thesis using run f w1
      by (auto simp: revokeRefreshTokenByHash_def close_answer_def intro: session_step.failed)
  next
    case (Inr fr)
    then have fr: "fr = row0 (filter (\<lambda>r. rt_tokenHash r = h) (refresh_tokens w))" using f by (simp add: find_by_hash_Inr)
    show ?thesis
    proof (cases fr)
      case None
      have "\<forall>x \<in> set (refresh_tokens w). rt_tokenHash x = h \<longrightarrow> \<not> active x"
        using fr None row0_filter_None [of "\<lambda>r. rt_tokenHash r = h" "refresh_tokens w"] by auto
      moreover have "r = Inr ()" "w' = w1" using run f Inr None by (simp_all add: revokeRefreshTokenByHash_def)
      ultimately show ?thesis using idle by blast
    next
      case (Some row)
      then have row: "row \<in> set (refresh_tokens w)" "rt_tokenHash row = h"
        using row0_filterD [of "\<lambda>r. rt_tokenHash r = h" "refresh_tokens w" row] fr by simp_all
      show ?thesis
      proof (cases "rt_revokedAt row = None")
        case False
        have "\<forall>x \<in> set (refresh_tokens w). rt_tokenHash x = h \<longrightarrow> \<not> active x"
          using same_hash [OF inv _ row(1)] row(2) False by (auto simp: active_def)
        moreover have "r = Inr ()" "w' = w1" using run f Inr Some False by (simp_all add: revokeRefreshTokenByHash_def)
        ultimately show ?thesis using idle by blast
      next
        case True
        then have act: "active row" by (simp add: active_def)
        have "await (revoke_where (\<lambda>r. rt_id r = rt_id row) reason) (\<lambda>_. cacheRefreshTokenRevocation P h (rt_expiresAt row)) w1 = (r, w')"
          using run f Inr Some True by (simp add: revokeRefreshTokenByHash_def)
        then show ?thesis
        proof (rule revoke_one_refines [OF inv row(1) act _ w1])
          show "session_step ?s (CloseToken h) a (close_session (rt_sessionFamily row) ?s)" if "a \<in> {Closed, Broken}" for a
            by (rule session_step.closed [OF _ _ that]) (use issued_iff [OF inv] current_iff [OF inv] row act in blast)+
        qed
      qed
    qed
  qed
qed

lemma close_recent_refines:
  assumes inv: "family_inv (refresh_tokens w)" and run: "revokeMostRecentRefreshTokenForUser P u reason w = (r, w')"
  shows "session_step (sessions_of (refresh_tokens w)) (CloseRecent u) (close_answer r) (sessions_of (refresh_tokens w'))"
proof -
  let ?s = "sessions_of (refresh_tokens w)"
  obtain found w1 where f: "select_rows refresh_tokens (\<lambda>r. rt_userId r = u \<and> rt_revokedAt r = None) w = (found, w1)" by fastforce
  have w1: "refresh_tokens w1 = refresh_tokens w" using select_tick [OF f] by simp
  show ?thesis
  proof (cases found)
    case (Inl e)
    then show ?thesis using run f w1
      by (auto simp: revokeMostRecentRefreshTokenForUser_def close_answer_def intro: session_step.failed)
  next
    case (Inr rows)
    then have rows: "rows = filter (\<lambda>r. rt_userId r = u \<and> rt_revokedAt r = None) (refresh_tokens w)"
      using f by (simp add: select_Inr)
    show ?thesis
    proof (cases "row0 (take 1 (rev (sort_key rt_issuedAt rows)))")
      case None
      then have "sort_key rt_issuedAt rows = []" by (cases "rev (sort_key rt_issuedAt rows)") auto
      then have "rows = []" by (metis length_0_conv length_sort)
      then have none: "\<forall>x \<in> set (refresh_tokens w). rt_userId x = u \<longrightarrow> \<not> active x"
        unfolding rows by (simp add: filter_empty_conv active_def)
      have "r = Inr ()" "w' = w1" using run f Inr None by (simp_all add: revokeMostRecentRefreshTokenForUser_def)
      then show ?thesis using nobody_to_close [OF inv none] w1 by (simp add: close_answer_def)
    next
      case (Some row)
      then have "row \<in> set (rev (sort_key rt_issuedAt rows))" by (cases "rev (sort_key rt_issuedAt rows)") simp_all
      then have "row \<in> set rows" by simp
      then have row: "row \<in> set (refresh_tokens w)" "rt_userId row = u" "active row"
        unfolding rows by (simp_all add: active_def)
      have "await (revoke_where (\<lambda>r. rt_id r = rt_id row) reason) (\<lambda>_. cacheRefreshTokenRevocation P (rt_tokenHash row) (rt_expiresAt row)) w1 = (r, w')"
        using run f Inr Some by (simp add: revokeMostRecentRefreshTokenForUser_def)
      then show ?thesis
      proof (rule revoke_one_refines [OF inv row(1,3) _ w1])
        have own: "ss_owner ?s (rt_sessionFamily row) = Some u" using owner_iff [OF inv] row by blast
        have cur: "ss_current ?s (rt_sessionFamily row) = Some (rt_tokenHash row)" using current_iff [OF inv] row by blast
        show "session_step ?s (CloseRecent u) a (close_session (rt_sessionFamily row) ?s)" if "a \<in> {Closed, Broken}" for a
          by (rule session_step.closed_recent [OF own _ that]) (simp add: cur)
      qed
    qed
  qed
qed

section \<open>Runs of the service\<close>

text \<open>
  The operations of the service one after the other, each with its answer, the last one first, and
  in between anything that leaves the token table alone. A new session family has an identifier no row has.
\<close>

inductive service_run ::
    "'r platform \<Rightarrow> 'r world \<Rightarrow> (session_op \<times> session_answer) list \<Rightarrow> 'r world \<Rightarrow> bool" for P w0 where
  begin_run: "service_run P w0 [] w0"
| present_run: "service_run P w0 es w \<Longrightarrow> rotateRefreshToken P tok meta w = (r, w') \<Longrightarrow>
     service_run P w0 ((Present (hashRefreshToken P tok), present_answer P r) # es) w'"
| open_run: "service_run P w0 es w \<Longrightarrow> uuids w (draws w) \<notin> rt_sessionFamily ` set (refresh_tokens w) \<Longrightarrow>
     issueRefreshToken P u meta None w = (x, w') \<Longrightarrow> service_run P w0 ((Open u, issue_answer P x) # es) w'"
| close_run: "service_run P w0 es w \<Longrightarrow> revokeRefreshTokenByHash P h reason w = (c, w') \<Longrightarrow>
     service_run P w0 ((CloseToken h, close_answer c) # es) w'"
| recent_run: "service_run P w0 es w \<Longrightarrow> revokeMostRecentRefreshTokenForUser P u reason w = (c, w') \<Longrightarrow>
     service_run P w0 ((CloseRecent u, close_answer c) # es) w'"
| other_run: "service_run P w0 es w \<Longrightarrow> refresh_tokens w' = refresh_tokens w \<Longrightarrow> service_run P w0 es w'"

lemma run_refines:
  assumes "service_run P w es w'" and inv: "family_inv (refresh_tokens w)"
  shows "family_inv (refresh_tokens w') \<and> session_run (sessions_of (refresh_tokens w)) es (sessions_of (refresh_tokens w'))"
  using assms(1)
proof (induction rule: service_run.induct)
  case begin_run
  then show ?case using inv by (simp add: session_run.start)
next
  case (present_run es w tok meta r w')
  have "family_inv (refresh_tokens w')"
    using row_step_inv [OF rotateRefreshToken_step] present_run.IH present_run.hyps(2) by (metis snd_conv)
  then show ?case using present_refines [OF _ present_run.hyps(2)] present_run.IH session_run.step by blast
next
  case (open_run es w u meta x w')
  have "family_inv (refresh_tokens w')"
    using row_step_inv [OF issueRefreshToken_step [OF open_run.hyps(2)]] open_run.IH open_run.hyps(3) by (metis snd_conv)
  then show ?case using open_refines [OF _ open_run.hyps(2,3)] open_run.IH session_run.step by blast
next
  case (close_run es w h reason c w')
  have "family_inv (refresh_tokens w')"
    using row_step_inv [OF revoke_one_step(1)] close_run.IH close_run.hyps(2) by (metis snd_conv)
  then show ?case using close_refines [OF _ close_run.hyps(2)] close_run.IH session_run.step by blast
next
  case (recent_run es w u reason c w')
  have "family_inv (refresh_tokens w')"
    using row_step_inv [OF revoke_one_step(2)] recent_run.IH recent_run.hyps(2) by (metis snd_conv)
  then show ?case using close_recent_refines [OF _ recent_run.hyps(2)] recent_run.IH session_run.step by blast
next
  case (other_run es w w')
  then show ?case by simp
qed

text \<open>
  C3. The refresh-token service, with its table, its queries and their failures, is the machine of
  sessions: in every run from a well-formed table, every operation changes the sessions the table stands
  for as the specification says, and is answered as it says; an operation that fails with an exception has
  had a whole effect of the specification, has closed the session, or has done nothing.
\<close>

theorem service_refines_sessions:
  assumes "service_run P w es w'" and "family_inv (refresh_tokens w)"
  shows "session_run (sessions_of (refresh_tokens w)) es (sessions_of (refresh_tokens w'))"
  using run_refines [OF assms] by simp


text \<open>Presenting one token twice: it is exchanged, then its reuse is detected.\<close>

lemma demo_replay_now:
  assumes rows: "refresh_tokens w = [revoke_row t s demo_token, n]" and n: "rt_tokenHash n \<noteq> hashRefreshToken demo ''tok''"
      "rt_sessionFamily n = ''f1''" "rt_revokedAt n = None"
    and up: "pg_up w" "up (redis w)"
  shows "\<exists>w'. rotateRefreshToken demo ''tok'' demo_meta w = (Inr (Inl token_reuse_default), w')"
proof -
  let ?w = "tick (tick (tick w))"
  let ?rows = "set_where (in_family ''f1'') (revoke_row (clock (tick (tick w))) ''reuse_detected'') (refresh_tokens w)"
  obtain w2 where ca: "cacheRefreshTokenRevocation demo (rt_tokenHash n) (rt_expiresAt n) (?w\<lparr>refresh_tokens := ?rows\<rparr>) = (Inr (), w2)"
    using cacheRevocation_Inr [of demo "rt_tokenHash n" "?w\<lparr>refresh_tokens := ?rows\<rparr>" "rt_expiresAt n"] up(2)
    by (auto simp: mem_exec_def)
  have "revokeSessionFamily demo ''f1'' ''reuse_detected'' (tick w) = (Inr (), w2)"
    using up(1) ca n rows
    by (simp add: revokeSessionFamily_def select_rows_def pg_def Let_def pg_up_def in_family_def revoke_where_def now_def)
  moreover obtain w3 where "writeAuditEvent ((audit_event ''auth.token_refresh_failed'' ''denied'')
          \<lparr>user_id := Some ''u1'', failure_reason := Some ''token_reuse_detected'',
           metadata := Some [(''session_family'', ''f1'')]\<rparr>) w2 = (Inr (), w3)"
    using writeAudit_Inr by blast
  ultimately show ?thesis using rows n(1) up(1)
    by (simp add: rotateRefreshToken_run pg_up_def rotate_row_def err_def)
qed

lemma demo_two_presentations:
  "\<exists>h' w'. service_run demo world1 [(Present (hashRefreshToken demo ''tok''), Reused),
      (Present (hashRefreshToken demo ''tok''), Granted h')] w'"
proof -
  obtain x w1 where rot: "rotateRefreshToken demo ''tok'' demo_meta world1 = (Inr (Inr x), w1)"
    using demo_rotates by blast
  have "rotate_row demo (hashRefreshToken demo ''tok'') demo_meta demo_token (tick world1) = (Inr (Inr x), w1)"
    using rot by (simp add: rotateRefreshToken_run)
  from rotate_row_active [OF _ this] obtain h t n where n: "refresh_tokens w1 = [revoke_row t ''rotation'' demo_token, n]"
      "rt_tokenHash n \<noteq> hashRefreshToken demo ''tok''" "rt_sessionFamily n = ''f1''" "rt_revokedAt n = None"
    by (auto simp: rotated_rows_def adds_def)
  let ?w2 = "world1\<lparr>refresh_tokens := refresh_tokens w1\<rparr>"
  obtain w3 where replay: "rotateRefreshToken demo ''tok'' demo_meta ?w2 = (Inr (Inl token_reuse_default), w3)"
    using demo_replay_now [of ?w2 t "''rotation''" n] n by (auto simp: pg_up_def redis0_def)
  have "service_run demo world1 [(Present (hashRefreshToken demo ''tok''), present_answer demo (Inr (Inr x)))] ?w2"
    by (rule service_run.other_run [OF service_run.present_run [OF service_run.begin_run rot]]) simp
  from service_run.present_run [OF this replay] show ?thesis by (auto simp: present_answer_def)
qed

lemma service_refines_sessions_witness:
  "\<exists>h' rows. session_run (sessions_of [demo_token]) [(Present (hashRefreshToken demo ''tok''), Reused),
      (Present (hashRefreshToken demo ''tok''), Granted h')] (sessions_of rows)"
proof -
  obtain h' and w' :: "mem_redis world" where run: "service_run demo world1 [(Present (hashRefreshToken demo ''tok''), Reused),
      (Present (hashRefreshToken demo ''tok''), Granted h')] w'" using demo_two_presentations by blast
  from service_refines_sessions [OF run] have "session_run (sessions_of [demo_token]) [(Present (hashRefreshToken demo ''tok''), Reused),
      (Present (hashRefreshToken demo ''tok''), Granted h')] (sessions_of (refresh_tokens w'))" using family_inv_demo(1) by simp
  then show ?thesis by blast
qed


end
