(* ===== verification/Scenarios.thy ===== *)
theory Scenarios
  imports Login Jwks
begin

text \<open>
  Operations of several parts in a row, as a client sees them: what a login hands out opens the
  gateway to its user, until it expires or is revoked.
\<close>

section \<open>Time passes\<close>

lemma later_login_issue:
  "preserves (\<lambda>w. t \<le> clock w) (login_issue P user req res)"
proof -
  have tick: "t \<le> clock w \<Longrightarrow> t \<le> clock (tick w)" for w :: "'a world" using clock_tick [of w] by linarith
  show ?thesis
    unfolding login_issue_def signAccessToken_def issueRefreshToken_def insert_refresh_token_def markLastLogin_def
      loadSigningKeys_def load_keys_def Let_def
    by (intro io_rules) (simp_all add: tick)
qed

lemma lookup_keys:
  assumes "findUserByEmail P e w = (r, w')"
  shows "key_caches P w' \<longleftrightarrow> key_caches P w"
proof -
  have "(cachedKeys w', cachedJwksDocument w', cachedVerifyKeySet w') = (cachedKeys w, cachedJwksDocument w, cachedVerifyKeySet w)"
    by (rule keepsD [OF keeps_user_lookup(1) assms]) simp_all
  then show ?thesis by (simp add: key_caches_def)
qed

section \<open>A bearer token\<close>

text \<open>A token jose accepts is then judged by the mark of its identifier in Redis alone.\<close>

lemma verify_by_mark:
  assumes srv: "redis_server (redisExec P) view" and k: "getVerifyKeySet P w = (Inr keys, w1)"
    and jwt: "jwtVerify P token keys (verify_opts P) (clock w div 1000) = Inr c"
  shows "case fst (verifyAccessToken P token w) of
      Inl e \<Rightarrow> \<exists>m. e = RedisExn m
    | Inr x \<Rightarrow> x = (if view (redis w) (clock (tick w)) (REVOKED_JTI_PREFIX @ cl_jti c) \<noteq> None
        then Inl token_revoked_default else Inr c)"
proof -
  let ?k = "REVOKED_JTI_PREFIX @ cl_jti c"
  note same = getVerifyKeySet_frame [OF k]
  have ck: "clock (tick w1) = clock (tick w)" using same by (intro tick_clock_same) simp_all
  obtain r w2 where get: "redis_call P (GET ?k) w1 = (r, w2)" by fastforce
  have v: "fst (verifyAccessToken P token w) = (case r of Inl e \<Rightarrow> Inl e
      | Inr y \<Rightarrow> Inr (if y \<noteq> Nil_reply then Inl token_revoked_default else Inr c))"
    using k get same jwt by (cases r) (simp_all add: verifyAccessToken_def isTokenRevoked_def await_run now_run err_def ok_def)
  show ?thesis
  proof (cases r)
    case (Inl e)
    then have "\<exists>m. e = RedisExn m" using get by (auto simp: redis_call_def Let_def split: prod.splits sum.splits)
    then show ?thesis using v Inl by simp
  next
    case (Inr y)
    then obtain r' where "redisExec P (GET ?k) (clock (tick w)) (redis w) = (Inr y, r')"
      using get same ck by (auto simp: redis_Inr)
    from redis_server.get_reply [OF srv this]
    have "y \<noteq> Nil_reply \<longleftrightarrow> view (redis w) (clock (tick w)) ?k \<noteq> None" by (simp split: option.splits)
    then show ?thesis using v Inr by simp
  qed
qed

lemma bearer_by_verdict:
  assumes "bearer req = Some token"
  shows "fst (validateAccessToken P optional req res w) = (case fst (verifyAccessToken P token w) of
      Inl e \<Rightarrow> Inl e
    | Inr (Inl e) \<Rightarrow> Inr (Fail e req res)
    | Inr (Inr c) \<Rightarrow> Inr (Continue (req\<lparr>rq_auth := Some c\<rparr>) res))"
proof -
  obtain r w1 where "verifyAccessToken P token w = (r, w1)" by fastforce
  then show ?thesis using assms by (simp add: validateAccessToken_run await_run split: sum.split)
qed

section \<open>From the login to the next request\<close>

text \<open>
  C14. What a login hands out works: a request that presents the access token of a successful login is
  authenticated as the user who logged in, with the roles, the tenant and the scope of that user, until 30
  seconds after the token expires or until Redis holds the mark of its revocation; then it is refused, with
  the error that says which. Nothing else decides, except Redis not answering.
\<close>

theorem login_token_authenticates:
  assumes "jwt_pair P (sk_privateKey ks) (sk_publicKey ks)" and "load_keys P = Inr ks"
    and "sk_previousKid ks \<noteq> Some (sk_kid ks)" and "redis_server (redisExec P) view"
    and "loginHandler P body req res w = (Inr (Respond r), w')" and "key_caches P w"
    and "clock w' \<le> clock w2" and "key_caches P w2" and "fst (getVerifyKeySet P w2) = Inr keys"
  shows "\<exists>user hash access refresh c. fst (findUserByEmail P (lb_email body) w) = Inr (Some (user, hash)) \<and>
    r = send_json 200 (token_response P access refresh) res \<and>
    cl_sub c = au_id user \<and> cl_email c = au_email user \<and> cl_roles c = au_roles user \<and>
    cl_tenant_id c = au_tenantId user \<and> cl_scope c = DEFAULT_USER_SCOPE (env P) \<and>
    (\<forall>optional req2 res2. bearer req2 = Some access \<longrightarrow>
      (case fst (validateAccessToken P optional req2 res2 w2) of
         Inl e \<Rightarrow> \<exists>m. e = RedisExn m
       | Inr st \<Rightarrow> st = (if cl_exp c \<le> clock w2 div 1000 - 30 then Fail token_expired_default req2 res2
           else if view (redis w2) (clock (tick w2)) (REVOKED_JTI_PREFIX @ cl_jti c) \<noteq> None
           then Fail token_revoked_default req2 res2
           else Continue (req2\<lparr>rq_auth := Some c\<rparr>) res2)))"
  using assms(5)
proof (cases rule: login_cases)
  case (rejected user found w1)
  then show ?thesis using login_reject_run by fastforce
next
  case (issued user hash w1)
  from login_issue_run [OF issued(5)] obtain signed w3 and refresh :: issued_refresh_token
    where s: "signAccessToken P (subject_of P user) w1 = (Inr signed, w3)"
      and r: "r = send_json 200 (token_response P (sat_token signed) (ir_plaintext refresh)) res" by auto
  have kc: "key_caches P w1" using lookup_keys [OF issued(1)] assms(6) by simp
  have "clock w1 \<le> clock w'" by (rule preservesD [OF later_login_issue issued(5)]) simp
  then have t: "clock w1 \<le> clock w2" using assms(7) by linarith
  have aud: "as_audience (subject_of P user) = None" by (simp add: subject_of_def)
  note jwt = signed_jwt [OF assms(1-3) kc assms(8) aud t s assms(9)]
  let ?c = "access_claims P (subject_of P user) (sat_jti signed) (clock w1 div 1000)"
  have ex: "cl_exp ?c = sat_expiresAt signed div 1000" using jwt(2) by (simp add: access_claims_def)
  obtain wk where k: "getVerifyKeySet P w2 = (Inr keys, wk)" using assms(9) by (metis prod.collapse)
  have "case fst (validateAccessToken P optional req2 res2 w2) of
         Inl e \<Rightarrow> \<exists>m. e = RedisExn m
       | Inr st \<Rightarrow> st = (if cl_exp ?c \<le> clock w2 div 1000 - 30 then Fail token_expired_default req2 res2
           else if view (redis w2) (clock (tick w2)) (REVOKED_JTI_PREFIX @ cl_jti ?c) \<noteq> None
           then Fail token_revoked_default req2 res2
           else Continue (req2\<lparr>rq_auth := Some ?c\<rparr>) res2)"
    if b: "bearer req2 = Some (sat_token signed)" for optional req2 res2
  proof (cases "cl_exp ?c \<le> clock w2 div 1000 - 30")
    case True
    then have j: "jwtVerify P (sat_token signed) keys (verify_opts P) (clock w2 div 1000) = Inl JWTExpired"
      unfolding ex using jwt(1) by (simp only: if_True)
    have "clock wk = clock w2" using getVerifyKeySet_frame [OF k] by simp
    then have "fst (verifyAccessToken P (sat_token signed) w2) = Inr (Inl token_expired_default)"
      using j by (simp add: verifyAccessToken_def await_run k now_run err_def)
    then show ?thesis unfolding bearer_by_verdict [OF b] using True by simp
  next
    case False
    then have j: "jwtVerify P (sat_token signed) keys (verify_opts P) (clock w2 div 1000) = Inr ?c"
      using jwt(1) unfolding ex [symmetric] by (simp only: if_False)
    from verify_by_mark [OF assms(4) k j] False show ?thesis
      unfolding bearer_by_verdict [OF b]
      by (cases "fst (verifyAccessToken P (sat_token signed) w2)") (auto split: if_splits)
  qed
  then show ?thesis using issued(1) r
    by (intro exI [of _ user] exI [of _ "Some hash"] exI [of _ "sat_token signed"] exI [of _ "ir_plaintext refresh"]
        exI [of _ ?c]) (auto simp: access_claims_def subject_of_def)
qed

text \<open>The demo user logs in, and is known by the token afterwards.\<close>

lemma login_token_authenticates_witness:
  "\<exists>c keys r w'. loginHandler demo demo_login demo_request response0 (user_world c keys True) = (Inr (Respond r), w') \<and>
    (\<exists>user hash access refresh cl. fst (findUserByEmail demo ''a@b'' (user_world c keys True)) = Inr (Some (user, hash)) \<and>
      r = send_json 200 (token_response demo access refresh) response0 \<and> cl_sub cl = au_id user \<and>
      (\<forall>optional req2 res2. bearer req2 = Some access \<longrightarrow>
        (case fst (validateAccessToken demo optional req2 res2 ((user_world c keys True)\<lparr>clock := clock w'\<rparr>)) of
           Inl e \<Rightarrow> \<exists>m. e = RedisExn m
         | Inr st \<Rightarrow> st = (if cl_exp cl \<le> clock w' div 1000 - 30 then Fail token_expired_default req2 res2
             else Continue (req2\<lparr>rq_auth := Some cl\<rparr>) res2))))"
proof -
  obtain c keys r w' where run: "loginHandler demo demo_login demo_request response0 (user_world c keys True) = (Inr (Respond r), w')"
    using demo_logs_in by blast
  let ?w = "user_world c keys True" and ?w2 = "(user_world c keys True)\<lparr>clock := clock w'\<rparr>"
  have kc: "key_caches demo ?w" "key_caches demo ?w2" by (intro key_caches_empty; simp)+
  have g: "fst (getVerifyKeySet demo ?w2) = Inr (buildJwksDocument demo \<lparr>sk_kid = ''k1'', sk_privateKey = KeyLike ''priv'',
    sk_publicKey = KeyLike ''pub'', sk_previousKid = Some ''k0'', sk_previousPublicKey = Some (KeyLike ''old'')\<rparr>)"
    by (intro getVerifyKeySet_empty demo_load) simp_all
  have fresh: "mem_view (redis ?w2) t k = None" for t k by (simp add: mem_view_def redis0_def)
  have email: "lb_email demo_login = ''a@b''" by (simp add: demo_login_def)
  from login_token_authenticates [OF demo_pair demo_load _ mem_server run kc(1) _ kc(2) g]
  obtain user hash access refresh cl where
    r: "fst (findUserByEmail demo ''a@b'' ?w) = Inr (Some (user, hash))" "r = send_json 200 (token_response demo access refresh) response0"
      "cl_sub cl = au_id user"
    and all: "\<forall>optional req2 res2. bearer req2 = Some access \<longrightarrow>
      (case fst (validateAccessToken demo optional req2 res2 ?w2) of
         Inl e \<Rightarrow> \<exists>m. e = RedisExn m
       | Inr st \<Rightarrow> st = (if cl_exp cl \<le> clock ?w2 div 1000 - 30 then Fail token_expired_default req2 res2
           else if mem_view (redis ?w2) (clock (tick ?w2)) (REVOKED_JTI_PREFIX @ cl_jti cl) \<noteq> None
           then Fail token_revoked_default req2 res2
           else Continue (req2\<lparr>rq_auth := Some cl\<rparr>) res2))"
    unfolding email by auto
  have later: "clock ?w2 = clock w'" by simp
  show ?thesis
    by (rule exI [of _ c], rule exI [of _ keys], rule exI [of _ r], rule exI [of _ w'], rule conjI, rule run,
        rule exI [of _ user], rule exI [of _ hash], rule exI [of _ access], rule exI [of _ refresh], rule exI [of _ cl])
      (use r all in \<open>simp only: fresh later not_True_eq_False if_False simp_thms\<close>)
qed

end
