(* ===== verification/Processes.thy ===== *)
theory Processes
  imports Prelude
begin

text \<open>
  Interleaving. Node runs the code between two awaits without interruption and may run other
  requests at every await. A \<open>process\<close> is an asynchronous function cut at its awaits: a tree of
  uninterrupted steps. \<open>run\<close> runs one to its end, which gives the computations of \<open>Prelude\<close>
  back; \<open>pool_step\<close> runs any number of them on one world, in any order, with new ones arriving.
  \<open>safe\<close> is what a process may be relied on to do among the others: every step within a
  relation of worlds, and its answer as promised.
\<close>

section \<open>Processes\<close>

datatype ('w, 'e, 'a) process =
    Answered "'e + 'a"
  | Awaiting "'w \<Rightarrow> ('w, 'e, 'a) process \<times> 'w"

text \<open>
  One uninterrupted step; \<open>const x = await p; k\<close>; \<open>try\<close> around a process, as a value; and
  \<open>Promise.all\<close>.
\<close>

definition call :: "('w, 'e, 'a) io \<Rightarrow> ('w, 'e, 'a) process" where
  "call m = Awaiting (\<lambda>w. map_prod Answered id (m w))"

definition return :: "'a \<Rightarrow> ('w, 'e, 'a) process" where
  "return x = Answered (Inr x)"

primrec andThen :: "('w, 'e, 'a) process \<Rightarrow> ('a \<Rightarrow> ('w, 'e, 'b) process) \<Rightarrow> ('w, 'e, 'b) process" where
  "andThen (Answered r) k = (case r of Inl e \<Rightarrow> Answered (Inl e) | Inr x \<Rightarrow> k x)"
| "andThen (Awaiting f) k = Awaiting (\<lambda>w. map_prod (\<lambda>p. andThen p k) id (f w))"

primrec attempt :: "('w, 'e, 'a) process \<Rightarrow> ('w, 'e, 'e + 'a) process" where
  "attempt (Answered r) = Answered (Inr r)"
| "attempt (Awaiting f) = Awaiting (\<lambda>w. map_prod attempt id (f w))"

fun all_of :: "('a \<Rightarrow> ('w, 'e, unit) process) \<Rightarrow> 'a list \<Rightarrow> ('w, 'e, unit) process" where
  "all_of f [] = return ()"
| "all_of f (x # xs) = andThen (attempt (f x)) (\<lambda>r1. andThen (attempt (all_of f xs)) (\<lambda>r2.
     Answered (case r1 of Inl e \<Rightarrow> Inl e | Inr _ \<Rightarrow> r2)))"

text \<open>The simplification rules, with the step as a pair, and the induction they suit.\<close>

lemma andThen_Awaiting [simp]: "andThen (Awaiting f) k = Awaiting (\<lambda>w. (andThen (fst (f w)) k, snd (f w)))"
  by (simp add: map_prod_def split_beta)

lemma attempt_Awaiting [simp]: "attempt (Awaiting f) = Awaiting (\<lambda>w. (attempt (fst (f w)), snd (f w)))"
  by (simp add: map_prod_def split_beta)

declare andThen.simps(2) [simp del] attempt.simps(2) [simp del]

lemma process_induct [case_names Answered Awaiting]:
  assumes "\<And>r. X (Answered r)" and "\<And>f. (\<And>w. X (fst (f w))) \<Longrightarrow> X (Awaiting f)"
  shows "X p"
proof (induction p)
  case (Awaiting f)
  show ?case by (rule assms(2)) (rule Awaiting [of "f w" for w], auto simp: prod_set_defs)
qed (rule assms(1))

section \<open>Alone\<close>

primrec run :: "('w, 'e, 'a) process \<Rightarrow> ('w, 'e, 'a) io" where
  "run (Answered r) = (\<lambda>w. (r, w))"
| "run (Awaiting f) = (\<lambda>w. case map_prod run id (f w) of (m, w1) \<Rightarrow> m w1)"

lemma run_Awaiting [simp]: "run (Awaiting f) w = run (fst (f w)) (snd (f w))"
  by (simp add: split_beta)

declare run.simps(2) [simp del]

lemma run_call [simp]: "run (call m) = m"
  by (rule ext) (simp add: call_def)

lemma run_return [simp]: "run (return x) = pure x"
  by (simp add: return_def pure_def)

lemma run_andThen [simp]: "run (andThen p k) = await (run p) (\<lambda>x. run (k x))"
proof (rule ext)
  show "run (andThen p k) w = await (run p) (\<lambda>x. run (k x)) w" for w
    by (induction p arbitrary: w rule: process_induct) (auto simp: await_def split: sum.split)
qed

lemma run_attempt [simp]: "run (attempt p) w = (Inr (fst (run p w)), snd (run p w))"
  by (induction p arbitrary: w rule: process_induct) simp_all

lemma run_all_of [simp]: "run (all_of f xs) = promise_all (\<lambda>x. run (f x)) xs"
  by (induction xs) (auto simp: fun_eq_iff await_def split_beta split: sum.split)

section \<open>Among others\<close>

text \<open>
  One of the processes takes a step; another one of \<open>A\<close> arrives; or something else in the program
  or outside it changes the world within \<open>E\<close>.
\<close>

inductive pool_step ::
    "('w, 'e, 'a) process set \<Rightarrow> ('w \<Rightarrow> 'w \<Rightarrow> bool) \<Rightarrow> 'w \<times> ('w, 'e, 'a) process list \<Rightarrow>
     'w \<times> ('w, 'e, 'a) process list \<Rightarrow> bool" for A E where
  advance: "i < length ps \<Longrightarrow> ps ! i = Awaiting f \<Longrightarrow> f w = (p, w') \<Longrightarrow>
     pool_step A E (w, ps) (w', ps[i := p])"
| arrive: "p \<in> A \<Longrightarrow> pool_step A E (w, ps) (w, ps @ [p])"
| elsewhere: "E w w' \<Longrightarrow> pool_step A E (w, ps) (w', ps)"

inductive_cases pool_stepE: "pool_step A E (w, ps) s"

text \<open>One interleaving, given by the processes that move: executable.\<close>

fun schedule :: "nat list \<Rightarrow> 'w \<times> ('w, 'e, 'a) process list \<Rightarrow> 'w \<times> ('w, 'e, 'a) process list" where
  "schedule [] s = s"
| "schedule (i # turns) (w, ps) = schedule turns (if i < length ps then (case ps ! i of
       Answered r \<Rightarrow> (w, ps)
     | Awaiting f \<Rightarrow> (case f w of (p, w') \<Rightarrow> (w', ps[i := p]))) else (w, ps))"

lemma schedule_steps: "(pool_step A E)\<^sup>*\<^sup>* s (schedule turns s)"
proof (induction turns s rule: schedule.induct)
  case (2 i turns w ps)
  have "(pool_step A E)\<^sup>*\<^sup>* (w, ps) (if i < length ps then (case ps ! i of
       Answered r \<Rightarrow> (w, ps)
     | Awaiting f \<Rightarrow> (case f w of (p, w') \<Rightarrow> (w', ps[i := p]))) else (w, ps))"
    using pool_step.advance [of i ps _ w _ _ A E] by (auto split: process.split prod.split)
  then show ?case using 2 by (simp only: schedule.simps rtranclp_trans)
qed simp

text \<open>A process that nothing interrupts does what \<open>run\<close> says, and nothing else.\<close>

lemma pool_runs:
  assumes "i < length ps"
  shows "(pool_step A E)\<^sup>*\<^sup>* (w, ps[i := p]) (snd (run p w), ps[i := Answered (fst (run p w))])"
proof (induction p arbitrary: w rule: process_induct)
  case (Awaiting f)
  have "pool_step A E (w, ps[i := Awaiting f]) (snd (f w), (ps[i := Awaiting f])[i := fst (f w)])"
    by (rule advance [where f = f]) (use assms in simp_all)
  then show ?case using Awaiting [where w = w and wa = "snd (f w)"] by (simp add: converse_rtranclp_into_rtranclp)
qed simp

lemma pool_runs_from:
  assumes "i < length ps" and "ps ! i = p" and "run p w = (r, w')"
  shows "(pool_step A E)\<^sup>*\<^sup>* (w, ps) (w', ps[i := Answered r])"
  using pool_runs [OF assms(1), of A E w p] assms by (metis fst_conv list_update_id snd_conv)

lemma pool_alone:
  assumes "(pool_step {} (\<lambda>_ _. False))\<^sup>*\<^sup>* (w, [p]) (w', ps)"
  shows "\<exists>q. ps = [q] \<and> run p w = run q w'"
proof -
  have "\<exists>q. snd s = [q] \<and> run p w = run q (fst s)"
    if "(pool_step {} (\<lambda>_ _. False))\<^sup>*\<^sup>* (w, [p]) s" for s
    using that
  proof induction
    case (step s s')
    then obtain q where q: "snd s = [q]" "run p w = run q (fst s)" by blast
    from step(2) q show ?case by (cases rule: pool_step.cases) auto
  qed simp
  from this [OF assms] show ?thesis by simp
qed

section \<open>What the others may rely on\<close>

primrec safe :: "('w \<Rightarrow> 'w \<Rightarrow> bool) \<Rightarrow> ('e + 'a \<Rightarrow> 'w \<Rightarrow> bool) \<Rightarrow> ('w, 'e, 'a) process \<Rightarrow> 'w \<Rightarrow> bool" where
  "safe R Q (Answered r) = Q r"
| "safe R Q (Awaiting f) = (\<lambda>w. \<forall>v. R w v \<longrightarrow> R v (snd (f v)) \<and> (case map_prod (safe R Q) id (f v) of (s, v') \<Rightarrow> s v'))"

lemma safe_Awaiting [simp]:
  "safe R Q (Awaiting f) w \<longleftrightarrow> (\<forall>v. R w v \<longrightarrow> R v (snd (f v)) \<and> safe R Q (fst (f v)) (snd (f v)))"
  by (simp add: split_beta)

declare safe.simps(2) [simp del]

text \<open>A relation of worlds that steps stay within, and the rules for \<open>safe\<close>.\<close>

definition stable :: "('w \<Rightarrow> 'w \<Rightarrow> bool) \<Rightarrow> ('w \<Rightarrow> bool) \<Rightarrow> ('w \<Rightarrow> bool) \<Rightarrow> bool" where
  "stable R I F \<longleftrightarrow> (\<forall>w w'. I w \<longrightarrow> F w \<longrightarrow> R w w' \<longrightarrow> F w')"

lemma stableD: "stable R I F \<Longrightarrow> I w \<Longrightarrow> F w \<Longrightarrow> R w w' \<Longrightarrow> F w'"
  by (auto simp: stable_def)

lemma stable_True [simp]: "stable R I (\<lambda>_. True)"
  by (simp add: stable_def)

locale step_relation =
  fixes R :: "'w \<Rightarrow> 'w \<Rightarrow> bool"
  assumes refl: "R w w"
    and trans: "R u v \<Longrightarrow> R v w \<Longrightarrow> R u w"
begin

lemma safe_later:
  assumes "\<And>r. stable R I (Q r)" and "I w" and "safe R Q p w" and "R w v"
  shows "safe R Q p v"
proof (cases p)
  case (Answered r)
  then show ?thesis using assms stableD by fastforce
next
  case (Awaiting f)
  then show ?thesis using assms trans by auto
qed

lemma safe_still: "safe R (\<lambda>_ _. True) p w \<Longrightarrow> R w v \<Longrightarrow> safe R (\<lambda>_ _. True) p v"
  using safe_later [where Q = "\<lambda>_ _. True" and I = "\<lambda>_. True"] by simp

lemma safe_weaken: "safe R Q p w \<Longrightarrow> (\<And>r v. Q r v \<Longrightarrow> Q' r v) \<Longrightarrow> safe R Q' p w"
  by (induction p arbitrary: w rule: process_induct) auto

lemma safe_meanwhile:
  assumes "safe R Q p w" and "F w" and "\<And>u v. F u \<Longrightarrow> R u v \<Longrightarrow> F v"
  shows "safe R (\<lambda>r v. Q r v \<and> F v) p w"
  using assms(1,2)
proof (induction p arbitrary: w rule: process_induct)
  case (Awaiting f)
  have "F (snd (f v))" if "R w v" for v
    using Awaiting.prems that assms(3) [OF assms(3) [OF Awaiting.prems(2) that]] by simp
  then show ?case using Awaiting by simp
qed simp

lemma safe_call:
  assumes "\<And>v r v'. R w v \<Longrightarrow> m v = (r, v') \<Longrightarrow> R v v' \<and> Q r v'"
  shows "safe R Q (call m) w"
  using assms by (simp add: call_def) (metis prod.collapse)

lemma safe_return [simp]: "safe R Q (return x) w \<longleftrightarrow> Q (Inr x) w"
  by (simp add: return_def)

lemma safe_if:
  "(b \<Longrightarrow> safe R Q p w) \<Longrightarrow> (\<not> b \<Longrightarrow> safe R Q q w) \<Longrightarrow> safe R Q (if b then p else q) w"
  by simp

lemma safe_option:
  "(x = None \<Longrightarrow> safe R Q p w) \<Longrightarrow> (\<And>y. x = Some y \<Longrightarrow> safe R Q (q y) w) \<Longrightarrow>
     safe R Q (case x of None \<Rightarrow> p | Some y \<Rightarrow> q y) w"
  by (cases x) simp_all

lemma safe_andThen:
  assumes "safe R Q1 p w" and "\<And>e v. R w v \<Longrightarrow> Q1 (Inl e) v \<Longrightarrow> Q (Inl e) v"
    and "\<And>x v. R w v \<Longrightarrow> Q1 (Inr x) v \<Longrightarrow> safe R Q (k x) v"
  shows "safe R Q (andThen p k) w"
  using assms
proof (induction p arbitrary: w rule: process_induct)
  case (Answered r)
  then show ?case using refl by (cases r) auto
next
  case (Awaiting f)
  have next1: "R v (snd (f v)) \<and> safe R Q (andThen (fst (f v)) k) (snd (f v))" if v: "R w v" for v
  proof
    show R: "R v (snd (f v))" using Awaiting.prems(1) v by simp
    have later: "R w u" if "R (snd (f v)) u" for u by (rule trans [OF v trans [OF R that]])
    show "safe R Q (andThen (fst (f v)) k) (snd (f v))"
    proof (rule Awaiting.IH)
      show "safe R Q1 (fst (f v)) (snd (f v))" using Awaiting.prems(1) v by simp
    qed (use Awaiting.prems(2,3) later in blast)+
  qed
  then show ?case by simp
qed

lemma safe_then_call:
  assumes "\<And>v r v'. R w v \<Longrightarrow> m v = (r, v') \<Longrightarrow>
      R v v' \<and> (case r of Inl e \<Rightarrow> Q (Inl e) v' | Inr x \<Rightarrow> safe R Q (k x) v')"
  shows "safe R Q (andThen (call m) k) w"
proof -
  have "R v v' \<and> safe R Q (andThen (Answered r) k) v'" if "R w v" "m v = (r, v')" for v r v'
    using assms [OF that] by (cases r) auto
  then show ?thesis by (simp add: call_def) (metis prod.collapse)
qed

lemma safe_attempt:
  "safe R (\<lambda>_ _. True) p w \<Longrightarrow> safe R (\<lambda>r _. \<not> isl r) (attempt p) w"
  by (induction p arbitrary: w rule: process_induct) auto

lemma safe_all_of:
  assumes "\<And>x v. R w v \<Longrightarrow> safe R (\<lambda>_ _. True) (f x) v"
  shows "safe R (\<lambda>_ _. True) (all_of f xs) w"
  using assms
proof (induction xs arbitrary: w)
  case (Cons x xs)
  show ?case unfolding all_of.simps
  proof (rule safe_andThen [OF safe_attempt [OF Cons.prems [OF refl]]])
    fix v assume v: "R w v"
    have "safe R (\<lambda>_ _. True) (all_of f xs) v" by (rule Cons.IH) (use Cons.prems trans v in blast)
    then show "safe R (\<lambda>_ _. True) (andThen (attempt (all_of f xs)) (\<lambda>r2.
        Answered (case y of Inl e \<Rightarrow> Inl e | Inr _ \<Rightarrow> r2))) v" for y
      by (intro safe_andThen [OF safe_attempt]) simp_all
  qed simp
qed simp

end

text \<open>
  When the relation keeps \<open>I\<close> and covers what happens elsewhere, and whoever arrives is safe, every
  interleaving stays within the relation, and each process keeps the promise it was safe for.
\<close>

locale rely_guarantee = step_relation R
  for R :: "'w \<Rightarrow> 'w \<Rightarrow> bool" +
  fixes I :: "'w \<Rightarrow> bool" and A :: "('w, 'e, 'a) process set" and E :: "'w \<Rightarrow> 'w \<Rightarrow> bool"
  assumes kept: "I w \<Longrightarrow> R w w' \<Longrightarrow> I w'"
    and environment: "I w \<Longrightarrow> E w w' \<Longrightarrow> R w w'"
    and arrivals: "I w \<Longrightarrow> p \<in> A \<Longrightarrow> safe R (\<lambda>_ _. True) p w"
begin

lemma step_safe:
  assumes st: "\<And>r. stable R I (Q r)" and step: "pool_step A E s s'" and I: "I (fst s)"
    and all: "\<forall>p \<in> set (snd s). safe R (\<lambda>_ _. True) p (fst s)"
    and i: "i < length (snd s)" "safe R Q (snd s ! i) (fst s)"
  shows "R (fst s) (fst s') \<and> (\<forall>p \<in> set (snd s'). safe R (\<lambda>_ _. True) p (fst s')) \<and>
    i < length (snd s') \<and> safe R Q (snd s' ! i) (fst s')"
  using step
proof cases
  case (advance j ps f w p w')
  then have f: "Awaiting f \<in> set ps" using nth_mem by metis
  have R: "R w w'" and p: "safe R (\<lambda>_ _. True) p w'" using all f advance refl [of w] by fastforce+
  have others: "safe R (\<lambda>_ _. True) q w'" if "q \<in> set ps" for q
    by (rule safe_still [OF _ R]) (use all that advance in simp)
  have "safe R Q (ps[j := p] ! i) w'"
  proof (cases "j = i")
    case True
    then show ?thesis using i advance refl [of w] by auto
  next
    case False
    then show ?thesis using safe_later [OF st _ _ R] i advance I by simp
  qed
  with R p others i advance show ?thesis by (auto dest!: set_update_subset_insert [THEN subsetD])
next
  case (arrive p w ps)
  then show ?thesis using arrivals all i I refl by (auto simp: nth_append)
next
  case (elsewhere w w' ps)
  then have R: "R w w'" using environment I by simp
  show ?thesis using R safe_still [OF _ R] safe_later [OF st _ _ R] all i elsewhere I by auto
qed

lemma pool_safe:
  assumes "(pool_step A E)\<^sup>*\<^sup>* s s'" and "I (fst s)" and "\<forall>p \<in> set (snd s). safe R (\<lambda>_ _. True) p (fst s)"
  shows "R (fst s) (fst s') \<and> (\<forall>p \<in> set (snd s'). safe R (\<lambda>_ _. True) p (fst s'))"
  using assms
proof (induction rule: rtranclp_induct)
  case base
  then show ?case using refl by simp
next
  case (step u v)
  then have R: "R (fst s) (fst u)" and all: "\<forall>p \<in> set (snd u). safe R (\<lambda>_ _. True) p (fst u)" by simp_all
  have I: "I (fst u)" by (rule kept [OF step.prems(1) R])
  have next1: "R (fst u) (fst v) \<and> (\<forall>p \<in> set (snd v). safe R (\<lambda>_ _. True) p (fst v))"
    if ne: "snd u \<noteq> []"
  proof -
    have "safe R (\<lambda>_ _. True) (snd u ! 0) (fst u)" using all ne by simp
    with step_safe [where Q = "\<lambda>_ _. True" and i = 0, OF stable_True step(2) I all] ne show ?thesis by simp
  qed
  have next2: "R (fst u) (fst v) \<and> (\<forall>p \<in> set (snd v). safe R (\<lambda>_ _. True) p (fst v))"
    if "snd u = []"
    using step(2)
  proof cases
    case (arrive p w ps)
    then show ?thesis using that refl arrivals I by auto
  next
    case (elsewhere w w' ps)
    then show ?thesis using that environment I by auto
  qed (use that in simp)
  have "R (fst u) (fst v)" "\<forall>p \<in> set (snd v). safe R (\<lambda>_ _. True) p (fst v)"
    using next1 next2 by blast+
  then show ?case using trans [OF R] by blast
qed

lemma pool_promise:
  assumes "(pool_step A E)\<^sup>*\<^sup>* s s'" and st: "\<And>r. stable R I (Q r)" and "I (fst s)"
    and "\<forall>p \<in> set (snd s). safe R (\<lambda>_ _. True) p (fst s)"
    and "i < length (snd s)" and "safe R Q (snd s ! i) (fst s)"
  shows "i < length (snd s') \<and> safe R Q (snd s' ! i) (fst s')"
  using assms(1)
proof (induction rule: rtranclp_induct)
  case (step u v)
  note u = pool_safe [OF step(1) assms(3,4)]
  have "I (fst u)" using kept [OF assms(3)] u by blast
  then show ?case using step_safe [where Q = Q, OF st step(2) _ _] u step.IH by blast
qed (use assms in simp)

text \<open>
  Whatever has happened, the world is within the relation, and a process that has answered has
  answered as promised.
\<close>

theorem interleaving:
  assumes "(pool_step A E)\<^sup>*\<^sup>* (w, ps) (w', ps')" and "\<And>r. stable R I (Q r)" and "I w"
    and "\<forall>p \<in> set ps. safe R (\<lambda>_ _. True) p w" and "i < length ps" and "safe R Q (ps ! i) w"
    and "ps' ! i = Answered r"
  shows "Q r w'"
  using pool_promise [where Q = Q, OF assms(1,2), of i] assms(3-) by simp

end

end
