(* ===== verification/Interleaved.thy ===== *)
theory Interleaved
  imports Processes AppInvariant
begin

text \<open>
  The refresh-token service (\<open>src/services/refreshToken.service.ts\<close>) with its operations cut at
  their awaits: any number of requests interleave between the queries of one another. What holds
  of every interleaving: the table keeps its keys and owners, a revoked token stays revoked, a
  token whose rotation is done is refused from then on. What does not: the reuse detection of one
  request kills a family that the rotation of another revives.
\<close>

section \<open>The operations, cut at their awaits\<close>

definition revoke_family_process ::
    "'r platform \<Rightarrow> string \<Rightarrow> string \<Rightarrow> ('r world, exn, unit) process" where
  "revoke_family_process P sessionFamily reason =
     andThen (call (select_rows refresh_tokens (in_family sessionFamily))) (\<lambda>activeRows.
     if activeRows = [] then return ()
     else andThen (call (revoke_where (in_family sessionFamily) reason)) (\<lambda>_.
       all_of (\<lambda>row. call (cacheRefreshTokenRevocation P (rt_tokenHash row) (rt_expiresAt row))) activeRows))"

definition rotate_row_process ::
    "'r platform \<Rightarrow> string \<Rightarrow> token_meta \<Rightarrow> refresh_row \<Rightarrow>
     ('r world, exn, (rotation_result, app_error) result) process" where
  "rotate_row_process P tokenHash meta row =
     (if rt_revokedAt row \<noteq> None then
        andThen (revoke_family_process P (rt_sessionFamily row) ''reuse_detected'') (\<lambda>_.
        andThen (call (writeAuditEvent ((audit_event ''auth.token_refresh_failed'' ''denied'')
          \<lparr>user_id := Some (rt_userId row), failure_reason := Some ''token_reuse_detected'',
           metadata := Some [(''session_family'', rt_sessionFamily row)]\<rparr>))) (\<lambda>_.
        return (err token_reuse_default)))
      else andThen (call now) (\<lambda>t.
        if rt_expiresAt row \<le> t then return (err (UnauthorizedError ''Refresh token has expired''))
        else
          andThen (call (revoke_where (\<lambda>r. rt_id r = rt_id row) ''rotation'')) (\<lambda>_.
          andThen (call (cacheRefreshTokenRevocation P tokenHash (rt_expiresAt row))) (\<lambda>_.
          andThen (call (issueRefreshToken P (rt_userId row) meta (Some (rt_sessionFamily row)))) (\<lambda>issued.
          return (ok \<lparr>rr_userId = rt_userId row, rr_issued = issued\<rparr>))))))"

definition rotate_process ::
    "'r platform \<Rightarrow> string \<Rightarrow> token_meta \<Rightarrow> ('r world, exn, (rotation_result, app_error) result) process" where
  "rotate_process P plaintextToken meta =
     (let tokenHash = hashRefreshToken P plaintextToken in
      andThen (call (find_by_hash tokenHash)) (\<lambda>row. case row of
        None \<Rightarrow> return (err (UnauthorizedError ''Refresh token is invalid''))
      | Some row \<Rightarrow> rotate_row_process P tokenHash meta row))"

definition revoke_hash_process ::
    "'r platform \<Rightarrow> string \<Rightarrow> string \<Rightarrow> ('r world, exn, unit) process" where
  "revoke_hash_process P tokenHash reason =
     andThen (call (find_by_hash tokenHash)) (\<lambda>row. case row of
       None \<Rightarrow> return ()
     | Some row \<Rightarrow> if rt_revokedAt row \<noteq> None then return ()
         else andThen (call (revoke_where (\<lambda>r. rt_id r = rt_id row) reason)) (\<lambda>_.
           call (cacheRefreshTokenRevocation P tokenHash (rt_expiresAt row))))"

definition revoke_recent_process ::
    "'r platform \<Rightarrow> string \<Rightarrow> string \<Rightarrow> ('r world, exn, unit) process" where
  "revoke_recent_process P userId reason =
     andThen (call (select_rows refresh_tokens (\<lambda>r. rt_userId r = userId \<and> rt_revokedAt r = None))) (\<lambda>rows.
     case row0 (take 1 (rev (sort_key rt_issuedAt rows))) of
       None \<Rightarrow> return ()
     | Some row \<Rightarrow> andThen (call (revoke_where (\<lambda>r. rt_id r = rt_id row) reason)) (\<lambda>_.
         call (cacheRefreshTokenRevocation P (rt_tokenHash row) (rt_expiresAt row))))"

text \<open>What the routers ask of the service, and what it answers.\<close>

datatype session_request =
    IssueFor string token_meta
  | RotateToken string token_meta
  | RevokeHash string string
  | RevokeRecent string string

datatype session_answer =
    IssuedToken issued_refresh_token
  | RotatedToken "(rotation_result, app_error) result"
  | RevokedToken

fun session_process :: "'r platform \<Rightarrow> session_request \<Rightarrow> ('r world, exn, session_answer) process" where
  "session_process P (IssueFor u m) = andThen (call (issueRefreshToken P u m None)) (\<lambda>x. return (IssuedToken x))"
| "session_process P (RotateToken tok m) = andThen (rotate_process P tok m) (\<lambda>x. return (RotatedToken x))"
| "session_process P (RevokeHash h s) = andThen (revoke_hash_process P h s) (\<lambda>_. return RevokedToken)"
| "session_process P (RevokeRecent u s) = andThen (revoke_recent_process P u s) (\<lambda>_. return RevokedToken)"

fun session_call :: "'r platform \<Rightarrow> session_request \<Rightarrow> ('r, session_answer) gw" where
  "session_call P (IssueFor u m) = await (issueRefreshToken P u m None) (\<lambda>x. pure (IssuedToken x))"
| "session_call P (RotateToken tok m) = await (rotateRefreshToken P tok m) (\<lambda>x. pure (RotatedToken x))"
| "session_call P (RevokeHash h s) = await (revokeRefreshTokenByHash P h s) (\<lambda>_. pure RevokedToken)"
| "session_call P (RevokeRecent u s) = await (revokeMostRecentRefreshTokenForUser P u s) (\<lambda>_. pure RevokedToken)"

section \<open>Without interruption\<close>

lemma run_if: "run (if b then p else q) = (if b then run p else run q)"
  by simp

lemma run_option: "run (case x of None \<Rightarrow> p | Some y \<Rightarrow> q y) = (case x of None \<Rightarrow> run p | Some y \<Rightarrow> run (q y))"
  by (simp split: option.split)

lemma run_revoke_family [simp]: "run (revoke_family_process P f s) = revokeSessionFamily P f s"
  by (simp add: revoke_family_process_def revokeSessionFamily_def run_if cong: if_cong)

lemma run_rotate_row [simp]: "run (rotate_row_process P h m row) = rotate_row P h m row"
  by (simp add: rotate_row_process_def rotate_row_def run_if cong: if_cong)

lemma run_rotate [simp]: "run (rotate_process P tok m) = rotateRefreshToken P tok m"
  by (simp add: rotate_process_def rotateRefreshToken_def Let_def run_option cong: option.case_cong)

lemma run_revoke_hash [simp]: "run (revoke_hash_process P h s) = revokeRefreshTokenByHash P h s"
  by (simp add: revoke_hash_process_def revokeRefreshTokenByHash_def run_option run_if cong: option.case_cong if_cong)

lemma run_revoke_recent [simp]: "run (revoke_recent_process P u s) = revokeMostRecentRefreshTokenForUser P u s"
  by (simp add: revoke_recent_process_def revokeMostRecentRefreshTokenForUser_def run_option cong: option.case_cong)

lemma run_session [simp]: "run (session_process P q) = session_call P q"
  by (cases q) simp_all

section \<open>The table, whatever interleaves\<close>

text \<open>One query of one operation, on the table: without the order that \<open>row_step\<close> has.\<close>

inductive token_step :: "refresh_row list \<Rightarrow> refresh_row list \<Rightarrow> bool" where
  revoke: "token_step rows (set_where c (revoke_row t s) rows)"
| mint: "(\<And>r. r \<in> set rows \<Longrightarrow> rt_sessionFamily r = f \<Longrightarrow> rt_userId r = u) \<Longrightarrow> adds u f h rows rows' \<Longrightarrow>
     token_step rows rows'"

definition tokens_inv :: "refresh_row list \<Rightarrow> bool" where
  "tokens_inv rows \<longleftrightarrow> distinct (map rt_id rows) \<and> distinct (map rt_tokenHash rows) \<and>
     (\<forall>r \<in> set rows. \<forall>r' \<in> set rows. rt_sessionFamily r = rt_sessionFamily r' \<longrightarrow> rt_userId r = rt_userId r')"

text \<open>A row of one table is in another: the same token, revoked if it was.\<close>

definition carries_on :: "refresh_row \<Rightarrow> refresh_row \<Rightarrow> bool" where
  "carries_on r r' \<longleftrightarrow> rt_id r' = rt_id r \<and> rt_tokenHash r' = rt_tokenHash r \<and> rt_userId r' = rt_userId r \<and>
     rt_sessionFamily r' = rt_sessionFamily r \<and> rt_expiresAt r' = rt_expiresAt r \<and> (active r' \<longrightarrow> active r)"

lemma carries_on_refl [simp]: "carries_on r r"
  by (simp add: carries_on_def)

lemma carries_on_trans: "carries_on a b \<Longrightarrow> carries_on b c \<Longrightarrow> carries_on a c"
  by (simp add: carries_on_def)

lemma token_step_carries:
  assumes "token_step rows rows'" and "r \<in> set rows"
  shows "\<exists>r' \<in> set rows'. carries_on r r'"
  using assms(1)
proof cases
  case (revoke c t s)
  have "(if c r then revoke_row t s r else r) \<in> set rows'" using assms(2) revoke by (auto simp: in_set_where)
  then show ?thesis by (rule bexI [rotated]) (simp add: carries_on_def)
next
  case (mint f u h)
  then have "r \<in> set rows'" using assms(2) by (auto simp: adds_def)
  then show ?thesis by (rule bexI [rotated]) simp
qed

lemma token_steps_carry:
  assumes "token_step\<^sup>*\<^sup>* rows rows'" and "r \<in> set rows"
  shows "\<exists>r' \<in> set rows'. carries_on r r'"
  using assms(1)
proof (induction rule: rtranclp_induct)
  case (step b c)
  then show ?case using token_step_carries carries_on_trans by blast
qed (use assms(2) in \<open>auto intro: bexI [of _ r]\<close>)

lemma tokens_user:
  "tokens_inv rows \<Longrightarrow> r \<in> set rows \<Longrightarrow> r' \<in> set rows \<Longrightarrow> rt_sessionFamily r = rt_sessionFamily r' \<Longrightarrow>
     rt_userId r = rt_userId r'"
  unfolding tokens_inv_def by blast

lemma tokens_inv_revoke:
  assumes "tokens_inv rows"
  shows "tokens_inv (set_where c (revoke_row t s) rows)"
  unfolding tokens_inv_def
proof (intro conjI ballI impI)
  fix r r' assume r: "r \<in> set (set_where c (revoke_row t s) rows)"
    "r' \<in> set (set_where c (revoke_row t s) rows)" and f: "rt_sessionFamily r = rt_sessionFamily r'"
  from in_revoked_origin [OF r(1)] obtain a where a: "a \<in> set rows"
    "rt_sessionFamily a = rt_sessionFamily r" "rt_userId a = rt_userId r" by blast
  from in_revoked_origin [OF r(2)] obtain b where b: "b \<in> set rows"
    "rt_sessionFamily b = rt_sessionFamily r'" "rt_userId b = rt_userId r'" by blast
  show "rt_userId r = rt_userId r'" using tokens_user [OF assms a(1) b(1)] a b f by simp
qed (use assms in \<open>simp_all add: tokens_inv_def\<close>)

lemma tokens_inv_adds:
  assumes "tokens_inv rows" and u: "\<And>r. r \<in> set rows \<Longrightarrow> rt_sessionFamily r = f \<Longrightarrow> rt_userId r = u"
    and "adds u f h rows rows'"
  shows "tokens_inv rows'"
proof -
  obtain n where n: "rows' = rows @ [n]" "rt_userId n = u" "rt_sessionFamily n = f"
    "rt_id n \<notin> rt_id ` set rows" "rt_tokenHash n \<notin> rt_tokenHash ` set rows"
    using assms(3) unfolding adds_def by blast
  have "rt_userId r = rt_userId r'" if r: "r \<in> set rows'" "r' \<in> set rows'" "rt_sessionFamily r = rt_sessionFamily r'" for r r'
  proof (cases "rt_sessionFamily r = f")
    case True
    have "rt_userId x = u" if "x \<in> set rows'" "rt_sessionFamily x = f" for x
      using that n(1-3) u [of x] by (cases "x = n") simp_all
    then show ?thesis using r True by simp
  next
    case False
    then have "r \<in> set rows" "r' \<in> set rows" using r n(1,3) by auto
    then show ?thesis by (rule tokens_user [OF assms(1) _ _ r(3)])
  qed
  moreover have "distinct (map rt_id rows')" "distinct (map rt_tokenHash rows')"
    using assms(1) n by (simp_all add: tokens_inv_def)
  ultimately show ?thesis unfolding tokens_inv_def by blast
qed

lemma token_step_inv:
  assumes "token_step rows rows'" and "tokens_inv rows"
  shows "tokens_inv rows'"
  using assms(1)
proof cases
  case (revoke c t s)
  then show ?thesis using tokens_inv_revoke [OF assms(2)] by simp
next
  case (mint f u h)
  show ?thesis by (rule tokens_inv_adds [OF assms(2) mint])
qed

lemma token_steps_inv: "token_step\<^sup>*\<^sup>* rows rows' \<Longrightarrow> tokens_inv rows \<Longrightarrow> tokens_inv rows'"
  by (induction rule: rtranclp_induct) (simp_all add: token_step_inv)

lemma family_tokens: "family_inv rows \<Longrightarrow> tokens_inv rows"
  unfolding family_inv_def tokens_inv_def by blast

section \<open>Every query is a step of the table\<close>

definition leaves_tokens :: "'r world \<Rightarrow> 'r world \<Rightarrow> bool" where
  "leaves_tokens w w' \<longleftrightarrow> refresh_tokens w' = refresh_tokens w \<and> uuids w' = uuids w \<and> draws w \<le> draws w'"

abbreviation families :: "'r world \<Rightarrow> string set" where
  "families w \<equiv> rt_sessionFamily ` set (refresh_tokens w)"

definition grows :: "'r world \<Rightarrow> 'r world \<Rightarrow> bool" where
  "grows w w' \<longleftrightarrow> (tokens_inv (refresh_tokens w) \<longrightarrow> token_step\<^sup>*\<^sup>* (refresh_tokens w) (refresh_tokens w')) \<and>
     uuids w' = uuids w \<and> draws w \<le> draws w' \<and>
     families w' \<subseteq> families w \<union> uuids w ` {draws w..<draws w'}"

text \<open>The identifiers still to come are pairwise different, and no session family has one of them.\<close>

definition sessions_ok :: "'r world \<Rightarrow> bool" where
  "sessions_ok w \<longleftrightarrow> tokens_inv (refresh_tokens w) \<and> inj (uuids w) \<and> (\<forall>n \<ge> draws w. uuids w n \<notin> families w)"

definition known :: "refresh_row \<Rightarrow> 'r world \<Rightarrow> bool" where
  "known row w \<longleftrightarrow> (\<exists>r \<in> set (refresh_tokens w). carries_on row r)"

text \<open>A token that is in the table, revoked.\<close>

definition spent :: "string \<Rightarrow> 'r world \<Rightarrow> bool" where
  "spent h w \<longleftrightarrow> (\<exists>r \<in> set (refresh_tokens w). rt_tokenHash r = h \<and> \<not> active r)"

lemma grows_leaves: "leaves_tokens w w' \<Longrightarrow> grows w w'"
  by (simp add: grows_def leaves_tokens_def)

lemma subset_chain: "C \<subseteq> B \<union> S \<Longrightarrow> B \<subseteq> A \<union> T \<Longrightarrow> S \<union> T = U \<Longrightarrow> C \<subseteq> A \<union> U"
  by blast

lemma grows_trans:
  assumes "grows u v" and "grows v w"
  shows "grows u w"
proof -
  have d: "draws u \<le> draws v" "draws v \<le> draws w" "uuids v = uuids u" using assms by (simp_all add: grows_def)
  have "families w \<subseteq> families v \<union> uuids u ` {draws v..<draws w}"
    and "families v \<subseteq> families u \<union> uuids u ` {draws u..<draws v}"
    using assms by (simp_all add: grows_def)
  moreover have "uuids u ` {draws v..<draws w} \<union> uuids u ` {draws u..<draws v} = uuids u ` {draws u..<draws w}"
    unfolding image_Un [symmetric] using ivl_disj_un_two(3) [OF d(1,2)] by (simp add: Un_commute)
  ultimately have "families w \<subseteq> families u \<union> uuids u ` {draws u..<draws w}" by (rule subset_chain)
  moreover have "token_step\<^sup>*\<^sup>* (refresh_tokens u) (refresh_tokens w)" if "tokens_inv (refresh_tokens u)"
    using assms that token_steps_inv unfolding grows_def by (meson rtranclp_trans)
  ultimately show ?thesis using assms by (simp add: grows_def)
qed

interpretation queries: step_relation grows
proof
  show "grows w w" for w :: "'a world" by (rule grows_leaves) (simp add: leaves_tokens_def)
qed (rule grows_trans)

lemma grows_ok:
  assumes "sessions_ok w" and "grows w w'"
  shows "sessions_ok w'"
proof -
  have "uuids w' n \<notin> families w'" if "draws w' \<le> n" for n
  proof -
    have "inj (uuids w)" "uuids w n \<notin> families w" "draws w \<le> draws w'" using assms that by (auto simp: sessions_ok_def grows_def)
    then have "uuids w n \<notin> uuids w ` {draws w..<draws w'}" using that by (auto dest: injD)
    then show ?thesis using assms \<open>uuids w n \<notin> families w\<close> unfolding grows_def by auto
  qed
  then show ?thesis using assms token_steps_inv unfolding sessions_ok_def grows_def by auto
qed

lemma grows_carries:
  "sessions_ok w \<Longrightarrow> grows w w' \<Longrightarrow> r \<in> set (refresh_tokens w) \<Longrightarrow> \<exists>r' \<in> set (refresh_tokens w'). carries_on r r'"
  unfolding grows_def sessions_ok_def using token_steps_carry by blast

lemma known_later:
  assumes "sessions_ok w" and "grows w w'" and "known row w"
  shows "known row w'"
proof -
  obtain r where r: "r \<in> set (refresh_tokens w)" "carries_on row r" using assms(3) by (auto simp: known_def)
  show ?thesis using grows_carries [OF assms(1,2) r(1)] carries_on_trans [OF r(2)] by (auto simp: known_def)
qed

lemma spent_later:
  assumes "sessions_ok w" and "grows w w'" and "spent h w"
  shows "spent h w'"
proof -
  obtain r where r: "r \<in> set (refresh_tokens w)" "rt_tokenHash r = h" "\<not> active r" using assms(3) by (auto simp: spent_def)
  from grows_carries [OF assms(1,2) r(1)] r(2,3) show ?thesis by (auto simp: spent_def carries_on_def)
qed

text \<open>The queries that leave the table alone, and the two that do not.\<close>

lemma quiet:
  assumes "keeps refresh_tokens m" and "keeps uuids m" and "preserves (\<lambda>v. draws w \<le> draws v) m" and "m w = (r, w')"
  shows "leaves_tokens w w'"
  using keepsD [OF assms(1,4)] keepsD [OF assms(2,4)] preservesD [OF assms(3,4)] by (simp add: leaves_tokens_def)

lemma quiet_queries:
  "find_by_hash h w = (r1, w') \<Longrightarrow> leaves_tokens w w'"
  "select_rows t c w = (r2, w') \<Longrightarrow> leaves_tokens w w'"
  "now w = (r3, w') \<Longrightarrow> leaves_tokens w w'"
  "cacheRefreshTokenRevocation P h e w = (r4, w') \<Longrightarrow> leaves_tokens w w'"
  "writeAuditEvent ev w = (r5, w') \<Longrightarrow> leaves_tokens w w'"
  by (erule quiet [rotated 3]; (rule draws_audit io_rules | simp)+)+

lemma quiet_grows: "leaves_tokens w w' \<Longrightarrow> grows w w'"
  by (rule grows_leaves)

lemma grows_revoke_where:
  assumes "revoke_where c s w = (r, w')"
  shows "grows w w'"
proof -
  have k: "keeps uuids (revoke_where c s)" "preserves (\<lambda>v. draws w \<le> draws v) (revoke_where c s)"
    unfolding revoke_where_def by (rule io_rules | simp)+
  have "token_step\<^sup>*\<^sup>* (refresh_tokens w) (refresh_tokens w') \<and> families w' = families w"
    using revoke_where_cases [OF assms]
    by (elim disjE conjE) (simp_all add: families_revoke r_into_rtranclp [where r = token_step, OF token_step.revoke])
  then show ?thesis using keepsD [OF k(1) assms] preservesD [OF k(2) assms] by (simp add: grows_def)
qed

lemma grows_mint:
  assumes "\<forall>r \<in> set (refresh_tokens w). rt_sessionFamily r = f \<longrightarrow> rt_userId r = u"
    and "adds u f h (refresh_tokens w) (refresh_tokens w')" and "uuids w' = uuids w" and "draws w \<le> draws w'"
    and "f \<in> families w \<union> uuids w ` {draws w..<draws w'}"
  shows "grows w w'"
proof -
  have "token_step (refresh_tokens w) (refresh_tokens w')"
    by (rule token_step.mint [OF _ assms(2)]) (use assms(1) in auto)
  then show ?thesis using assms(2-) by (auto simp: grows_def adds_def)
qed

lemma grows_issue_in_family:
  assumes ok: "sessions_ok w" and row: "known row w"
    and run: "issueRefreshToken P (rt_userId row) m (Some (rt_sessionFamily row)) w = (r, w')"
  shows "grows w w'"
proof -
  note same = keepsD [OF uuids_kept(1) run]
    preservesD [OF draws_advance(1) run, of "draws w"]
  obtain a where a: "a \<in> set (refresh_tokens w)" "rt_sessionFamily a = rt_sessionFamily row" "rt_userId a = rt_userId row"
    using row by (auto simp: known_def carries_on_def)
  have owner: "\<forall>r \<in> set (refresh_tokens w). rt_sessionFamily r = rt_sessionFamily row \<longrightarrow> rt_userId r = rt_userId row"
    using tokens_user [of "refresh_tokens w" _ a] ok a unfolding sessions_ok_def by metis
  have fam: "rt_sessionFamily row \<in> families w" using a by (metis imageI)
  show ?thesis using issueRefreshToken_cases [OF run]
  proof (elim disjE conjE exE)
    assume "refresh_tokens w' = refresh_tokens w"
    then show ?thesis using same by (simp add: grows_leaves leaves_tokens_def)
  next
    fix h assume "adds (rt_userId row) (case Some (rt_sessionFamily row) of None \<Rightarrow> uuids w (draws w) | Some g \<Rightarrow> g) h
        (refresh_tokens w) (refresh_tokens w')"
    then show ?thesis by (intro grows_mint [OF owner]) (use same fam in simp_all)
  qed
qed

lemma grows_issue_new:
  assumes ok: "sessions_ok w" and run: "issueRefreshToken P u m None w = (r, w')"
  shows "grows w w'"
proof -
  have "issueRefreshToken P u m None w = issueRefreshToken P u m (Some (uuids w (draws w))) (w\<lparr>draws := Suc (draws w)\<rparr>)"
    by (simp add: issueRefreshToken_def await_run randomUUID_run)
  then have draws: "Suc (draws w) \<le> draws w'"
    using preservesD [OF draws_advance(1), of P u m "Some (uuids w (draws w))" "w\<lparr>draws := Suc (draws w)\<rparr>" r w' "Suc (draws w)"] run
    by simp
  note same = keepsD [OF uuids_kept(1) run]
  have "uuids w (draws w) \<notin> families w" using ok by (simp add: sessions_ok_def)
  then have none: "\<forall>r \<in> set (refresh_tokens w). rt_sessionFamily r = uuids w (draws w) \<longrightarrow> rt_userId r = u"
    by (metis imageI)
  show ?thesis using issueRefreshToken_cases [OF run]
  proof (elim disjE conjE exE)
    assume "refresh_tokens w' = refresh_tokens w"
    then show ?thesis using same draws by (simp add: grows_leaves leaves_tokens_def)
  next
    fix h assume "adds u (case None of None \<Rightarrow> uuids w (draws w) | Some g \<Rightarrow> g) h (refresh_tokens w) (refresh_tokens w')"
    then show ?thesis by (intro grows_mint [OF none]) (use same draws in auto)
  qed
qed

section \<open>Every operation is safe among the others\<close>

lemma safe_query:
  assumes "\<And>v r v'. grows w v \<Longrightarrow> m v = (r, v') \<Longrightarrow> grows v v'"
    and "\<And>v e v'. grows w v \<Longrightarrow> m v = (Inl e, v') \<Longrightarrow> Q (Inl e) v'"
    and "\<And>v x v'. grows w v \<Longrightarrow> m v = (Inr x, v') \<Longrightarrow> grows w v' \<Longrightarrow> safe grows Q (k x) v'"
  shows "safe grows Q (andThen (call m) k) w"
proof (rule queries.safe_then_call)
  fix v r v' assume v: "grows w v" "m v = (r, v')"
  then have "grows v v'" by (rule assms(1))
  moreover have "case r of Inl e \<Rightarrow> Q (Inl e) v' | Inr x \<Rightarrow> safe grows Q (k x) v'"
    using assms(2,3) [OF v(1)] v grows_trans [OF v(1) \<open>grows v v'\<close>] by (cases r) auto
  ultimately show "grows v v' \<and> (case r of Inl e \<Rightarrow> Q (Inl e) v' | Inr x \<Rightarrow> safe grows Q (k x) v')" by blast
qed

lemmas quiet_rules = quiet_queries [THEN grows_leaves] grows_revoke_where

lemma safe_cache: "safe grows (\<lambda>_ _. True) (call (cacheRefreshTokenRevocation P h e)) w"
  by (rule queries.safe_call) (auto dest: quiet_rules)

lemma safe_revoke_family: "safe grows (\<lambda>_ _. True) (revoke_family_process P f s) w"
  unfolding revoke_family_process_def
  by (intro safe_query queries.safe_if queries.safe_all_of safe_cache) (auto dest: quiet_rules)

text \<open>What a rotation that answers with tokens promises, and what the reuse path answers.\<close>

definition granted :: "string \<Rightarrow> exn + (rotation_result, app_error) result \<Rightarrow> 'r world \<Rightarrow> bool" where
  "granted h r w \<longleftrightarrow> (\<forall>x. r = Inr (Inr x) \<longrightarrow> spent h w \<and>
     (\<exists>a \<in> set (refresh_tokens w). rt_tokenHash a = ir_tokenHash (rr_issued x) \<and>
        rt_sessionFamily a = ir_sessionFamily (rr_issued x) \<and> rt_userId a = rr_userId x) \<and>
     (\<exists>a \<in> set (refresh_tokens w). rt_tokenHash a = h \<and>
        rt_sessionFamily a = ir_sessionFamily (rr_issued x) \<and> rt_userId a = rr_userId x))"

definition refused :: "exn + (rotation_result, app_error) result \<Rightarrow> bool" where
  "refused r \<longleftrightarrow> (\<forall>x. r = Inr x \<longrightarrow> x = Inl token_reuse_default)"

lemma safe_reuse:
  assumes "rt_revokedAt row \<noteq> None"
  shows "safe grows (\<lambda>r _. refused r) (rotate_row_process P h m row) w"
proof -
  have audit: "safe grows (\<lambda>r _. refused r) (andThen (call (writeAuditEvent ev)) (\<lambda>_. return (err token_reuse_default))) v"
    for ev and v :: "'a world"
  proof (rule safe_query)
    show "writeAuditEvent ev u = (r, u') \<Longrightarrow> grows u u'" for u r u' by (rule grows_leaves) (rule quiet_queries(5))
  qed (simp_all add: refused_def err_def)
  show ?thesis unfolding rotate_row_process_def if_P [OF assms]
    by (rule queries.safe_andThen [OF safe_revoke_family _ audit]) (simp add: refused_def)
qed

lemma found_known:
  assumes "find_by_hash h w = (Inr (Some row), w')"
  shows "row \<in> set (refresh_tokens w')" and "rt_tokenHash row = h" and "refresh_tokens w' = refresh_tokens w"
    and "known row w'"
proof -
  have "row0 (filter (\<lambda>r. rt_tokenHash r = h) (refresh_tokens w)) = Some row" and w': "w' = tick w"
    using assms by (simp_all add: find_by_hash_Inr)
  from row0_filterD [OF this(1)] show "row \<in> set (refresh_tokens w')" "rt_tokenHash row = h"
    "refresh_tokens w' = refresh_tokens w" "known row w'"
    by (auto simp: w' known_def intro: bexI [of _ row])
qed

lemma safe_issue_in_family:
  assumes "sessions_ok w" and "known row w" and "spent h w" and "rt_tokenHash row = h"
  shows "safe grows (granted h) (andThen (call (issueRefreshToken P (rt_userId row) m (Some (rt_sessionFamily row)))) (\<lambda>issued.
    return (ok \<lparr>rr_userId = rt_userId row, rr_issued = issued\<rparr>))) w"
proof (rule safe_query)
  fix v r v' assume v: "grows w v" and run: "issueRefreshToken P (rt_userId row) m (Some (rt_sessionFamily row)) v = (r, v')"
  show "grows v v'"
    by (rule grows_issue_in_family [OF grows_ok [OF assms(1) v] known_later [OF assms(1) v assms(2)] run])
next
  fix v x v' assume v: "grows w v" "grows w v'"
    and run: "issueRefreshToken P (rt_userId row) m (Some (rt_sessionFamily row)) v = (Inr x, v')"
  have "\<exists>a \<in> set (refresh_tokens v'). rt_tokenHash a = ir_tokenHash x \<and>
        rt_sessionFamily a = ir_sessionFamily x \<and> rt_userId a = rt_userId row" and f: "ir_sessionFamily x = rt_sessionFamily row"
    using issueRefreshToken_cases [OF run] by (auto simp: adds_def)
  moreover have "known row v'" "spent h v'"
    using known_later [OF assms(1) v(2) assms(2)] spent_later [OF assms(1) v(2) assms(3)] by auto
  ultimately show "safe grows (granted h) (return (ok \<lparr>rr_userId = rt_userId row, rr_issued = x\<rparr>)) v'"
    using assms(4) by (auto simp: granted_def ok_def known_def carries_on_def)
qed (simp add: granted_def)

lemma revoke_where_spends:
  assumes "known row w" and "revoke_where (\<lambda>r. rt_id r = rt_id row) s w = (Inr u, w')"
  shows "spent (rt_tokenHash row) w'"
proof -
  obtain a where a: "a \<in> set (refresh_tokens w)" "carries_on row a" using assms(1) by (auto simp: known_def)
  have "refresh_tokens w' = set_where (\<lambda>r. rt_id r = rt_id row) (revoke_row (clock w) s) (refresh_tokens w)"
    using revoke_where_cases [OF assms(2)] by simp
  then have "revoke_row (clock w) s a \<in> set (refresh_tokens w')"
    using a by (auto simp: in_set_where carries_on_def)
  then show ?thesis unfolding spent_def by (rule bexI [rotated]) (use a in \<open>simp add: carries_on_def\<close>)
qed

lemma safe_rotate_row:
  assumes ok: "sessions_ok w" and row: "known row w" "rt_tokenHash row = h"
  shows "safe grows (granted h) (rotate_row_process P h m row) w"
proof (cases "rt_revokedAt row = None")
  case False
  show ?thesis
    by (rule queries.safe_weaken [OF safe_reuse [OF False]]) (auto simp: refused_def granted_def)
next
  case True
  let ?issue = "andThen (call (issueRefreshToken P (rt_userId row) m (Some (rt_sessionFamily row)))) (\<lambda>issued.
      return (ok \<lparr>rr_userId = rt_userId row, rr_issued = issued\<rparr>))"
  let ?cache = "andThen (call (cacheRefreshTokenRevocation P h (rt_expiresAt row))) (\<lambda>_. ?issue)"
  let ?revoke = "andThen (call (revoke_where (\<lambda>r. rt_id r = rt_id row) ''rotation'')) (\<lambda>_. ?cache)"
  have issue: "safe grows (granted h) ?issue v" if "grows w v" "spent h v" for v
    by (rule safe_issue_in_family [OF grows_ok [OF ok that(1)] known_later [OF ok that(1) row(1)] that(2) row(2)])
  have cached: "safe grows (granted h) ?cache v" if v: "grows w v" "spent h v" for v
  proof (rule safe_query)
    fix u x u' assume u: "cacheRefreshTokenRevocation P h (rt_expiresAt row) u = (Inr x, u')" "grows v u'"
    show "safe grows (granted h) ?issue u'"
      by (rule issue [OF grows_trans [OF v(1) u(2)] spent_later [OF grows_ok [OF ok v(1)] u(2) v(2)]])
  qed (auto dest: quiet_rules simp: granted_def)
  have revoked: "safe grows (granted h) ?revoke v" if v: "grows w v" for v
  proof (rule safe_query)
    fix u x u' assume u: "grows v u" "revoke_where (\<lambda>r. rt_id r = rt_id row) ''rotation'' u = (Inr x, u')" "grows v u'"
    have "known row u" by (rule known_later [OF ok grows_trans [OF v u(1)] row(1)])
    from revoke_where_spends [OF this u(2)] have "spent h u'" using row(2) by simp
    then show "safe grows (granted h) ?cache u'" by (rule cached [OF grows_trans [OF v u(3)]])
  qed (auto dest: quiet_rules simp: granted_def)
  have "safe grows (granted h) (andThen (call now) (\<lambda>t. if rt_expiresAt row \<le> t
      then return (err (UnauthorizedError ''Refresh token has expired'')) else ?revoke)) w"
  proof (rule safe_query)
    fix v t v' assume "grows w v'"
    then show "safe grows (granted h) (if rt_expiresAt row \<le> t
      then return (err (UnauthorizedError ''Refresh token has expired'')) else ?revoke) v'"
      by (intro queries.safe_if revoked) (simp_all add: granted_def err_def)
  qed (auto dest: quiet_rules simp: granted_def)
  then show ?thesis using True by (simp add: rotate_row_process_def)
qed

lemma safe_rotate:
  assumes ok: "sessions_ok w"
  shows "safe grows (granted (hashRefreshToken P tok)) (rotate_process P tok m) w"
  unfolding rotate_process_def Let_def
proof (rule safe_query)
  fix v x v' assume v: "find_by_hash (hashRefreshToken P tok) v = (Inr x, v')" "grows w v'"
  show "safe grows (granted (hashRefreshToken P tok)) (case x of None \<Rightarrow> return (err (UnauthorizedError ''Refresh token is invalid''))
      | Some row \<Rightarrow> rotate_row_process P (hashRefreshToken P tok) m row) v'"
  proof (rule queries.safe_option)
    fix row assume x: "x = Some row"
    show "safe grows (granted (hashRefreshToken P tok)) (rotate_row_process P (hashRefreshToken P tok) m row) v'"
      by (rule safe_rotate_row [OF grows_ok [OF ok v(2)]]) (use found_known v(1) x in blast)+
  qed (simp add: granted_def err_def)
qed (auto dest: quiet_rules simp: granted_def)

text \<open>
  A token that is spent when its rotation begins is refused, whatever happens meanwhile, and the
  tokens its family had then are revoked.
\<close>

definition killed :: "refresh_row list \<Rightarrow> string \<Rightarrow> 'r world \<Rightarrow> bool" where
  "killed rows f w \<longleftrightarrow> (\<forall>r \<in> set rows. rt_sessionFamily r = f \<longrightarrow>
     (\<exists>r' \<in> set (refresh_tokens w). carries_on r r' \<and> \<not> active r'))"

lemma killed_later:
  assumes "sessions_ok w" and "grows w w'" and "killed rows f w"
  shows "killed rows f w'"
  unfolding killed_def
proof (intro ballI impI)
  fix r assume "r \<in> set rows" "rt_sessionFamily r = f"
  then obtain a where a: "a \<in> set (refresh_tokens w)" "carries_on r a" "\<not> active a"
    using assms(3) by (auto simp: killed_def)
  obtain b where "b \<in> set (refresh_tokens w')" "carries_on a b" using grows_carries [OF assms(1,2) a(1)] by blast
  then show "\<exists>r' \<in> set (refresh_tokens w'). carries_on r r' \<and> \<not> active r'"
    using a(2,3) carries_on_trans by (auto simp: carries_on_def)
qed

lemma none_active_killed:
  assumes "sessions_ok w" and "grows w v" and "\<forall>r \<in> set (refresh_tokens v). rt_sessionFamily r = f \<longrightarrow> \<not> active r"
  shows "killed (refresh_tokens w) f v"
  unfolding killed_def using grows_carries [OF assms(1,2)] assms(3) by (metis carries_on_def)

lemma safe_revoke_family_kills:
  assumes ok: "sessions_ok w" and rows: "grows w0 w" "sessions_ok w0"
  shows "safe grows (\<lambda>r v. \<forall>u. r = Inr u \<longrightarrow> killed (refresh_tokens w0) f v) (revoke_family_process P f s) w"
  unfolding revoke_family_process_def
proof (rule safe_query)
  let ?Q = "\<lambda>r v. \<forall>u. r = Inr u \<longrightarrow> killed (refresh_tokens w0) f v"
  fix v x v' assume v: "select_rows refresh_tokens (in_family f) v = (Inr x, v')" "grows w v'"
  have x: "x = filter (in_family f) (refresh_tokens v')" using v(1) by (auto simp: select_Inr)
  show "safe grows ?Q (if x = [] then return () else andThen (call (revoke_where (in_family f) s)) (\<lambda>_.
       all_of (\<lambda>row. call (cacheRefreshTokenRevocation P (rt_tokenHash row) (rt_expiresAt row))) x)) v'"
  proof (rule queries.safe_if)
    assume "x = []"
    then have "\<forall>r \<in> set (refresh_tokens v'). rt_sessionFamily r = f \<longrightarrow> \<not> active r"
      using x by (auto simp: filter_empty_conv in_family_def active_def)
    then show "safe grows ?Q (return ()) v'" using none_active_killed [OF rows(2) grows_trans [OF rows(1) v(2)]] by simp
  next
    show "safe grows ?Q (andThen (call (revoke_where (in_family f) s)) (\<lambda>_.
       all_of (\<lambda>row. call (cacheRefreshTokenRevocation P (rt_tokenHash row) (rt_expiresAt row))) x)) v'"
    proof (rule safe_query)
      fix u y u' assume u: "revoke_where (in_family f) s u = (Inr y, u')" "grows v' u'"
      have "\<forall>r \<in> set (refresh_tokens u'). rt_sessionFamily r = f \<longrightarrow> \<not> active r"
        using revoke_where_cases [OF u(1)] revoke_family_dead [of f "clock u" s "refresh_tokens u"] by auto
      then have k: "killed (refresh_tokens w0) f u'"
        by (rule none_active_killed [OF rows(2) grows_trans [OF grows_trans [OF rows(1) v(2)] u(2)]])
      have "safe grows (\<lambda>r v. True \<and> sessions_ok v \<and> killed (refresh_tokens w0) f v)
          (all_of (\<lambda>row. call (cacheRefreshTokenRevocation P (rt_tokenHash row) (rt_expiresAt row))) x) u'"
        by (rule queries.safe_meanwhile [OF queries.safe_all_of [OF safe_cache]])
          (use k grows_ok [OF grows_ok [OF ok v(2)] u(2)] grows_ok killed_later in blast)+
      then show "safe grows ?Q (all_of (\<lambda>row. call (cacheRefreshTokenRevocation P (rt_tokenHash row) (rt_expiresAt row))) x) u'"
        by (rule queries.safe_weaken) simp
    qed (auto dest: quiet_rules)
  qed
qed (auto dest: quiet_rules)

definition reuse_handled :: "refresh_row list \<Rightarrow> string \<Rightarrow> exn + (rotation_result, app_error) result \<Rightarrow> 'r world \<Rightarrow> bool" where
  "reuse_handled rows f r w \<longleftrightarrow> (\<forall>x. r = Inr x \<longrightarrow> x = Inl token_reuse_default \<and> killed rows f w)"

lemma safe_reuse_kills:
  assumes ok: "sessions_ok w" and rows: "grows w0 w" "sessions_ok w0" and "rt_revokedAt row \<noteq> None"
    and f: "rt_sessionFamily row = f"
  shows "safe grows (reuse_handled (refresh_tokens w0) f) (rotate_row_process P h m row) w"
proof -
  have audit: "safe grows (reuse_handled (refresh_tokens w0) f) (andThen (call (writeAuditEvent ev)) (\<lambda>_. return (err token_reuse_default))) v"
    if v: "grows w v" "killed (refresh_tokens w0) f v" for ev v
  proof (rule safe_query)
    fix u x u' assume u: "grows v u'"
    show "safe grows (reuse_handled (refresh_tokens w0) f) (return (err token_reuse_default)) u'"
      using killed_later [OF grows_ok [OF ok v(1)] u v(2)] by (simp add: reuse_handled_def err_def)
  qed (auto dest: quiet_rules simp: reuse_handled_def)
  show ?thesis unfolding rotate_row_process_def if_P [OF assms(4)] f
    by (rule queries.safe_andThen [OF safe_revoke_family_kills [OF ok rows]]) (simp_all add: audit reuse_handled_def)
qed

lemma safe_replay:
  assumes ok: "sessions_ok w" and a: "a \<in> set (refresh_tokens w)" "rt_tokenHash a = hashRefreshToken P tok" "\<not> active a"
  shows "safe grows (reuse_handled (refresh_tokens w) (rt_sessionFamily a)) (rotate_process P tok m) w"
  unfolding rotate_process_def Let_def
proof (rule safe_query)
  let ?h = "hashRefreshToken P tok"
  fix v x v' assume v: "grows w v" "find_by_hash ?h v = (Inr x, v')" "grows w v'"
  obtain b where b: "b \<in> set (refresh_tokens v)" "carries_on a b" using grows_carries [OF ok v(1) a(1)] by blast
  have dist: "distinct (map rt_tokenHash (refresh_tokens v))"
    using grows_ok [OF ok v(1)] by (simp add: sessions_ok_def tokens_inv_def)
  have "rt_tokenHash b = ?h" "rt_revokedAt b \<noteq> None" "rt_sessionFamily b = rt_sessionFamily a"
    using b(2) a by (auto simp: carries_on_def active_def)
  moreover from this have "x = Some b" using row0_filter_unique [OF dist b(1)] v(2) by (simp add: find_by_hash_Inr)
  ultimately show "safe grows (reuse_handled (refresh_tokens w) (rt_sessionFamily a)) (case x of None \<Rightarrow> return (err (UnauthorizedError ''Refresh token is invalid''))
      | Some row \<Rightarrow> rotate_row_process P ?h m row) v'"
    using safe_reuse_kills [OF grows_ok [OF ok v(3)] v(3) ok] by simp
qed (auto dest: quiet_rules simp: reuse_handled_def)

lemma safe_revoke_row:
  "safe grows (\<lambda>_ _. True) (andThen (call (revoke_where c s)) (\<lambda>_. call (cacheRefreshTokenRevocation P h e))) w"
  by (intro safe_query safe_cache) (auto dest: quiet_rules)

lemma safe_revokes:
  "safe grows (\<lambda>_ _. True) (revoke_hash_process P h s) w"
  "safe grows (\<lambda>_ _. True) (revoke_recent_process P u s) w"
  unfolding revoke_hash_process_def revoke_recent_process_def
  by (intro safe_query queries.safe_option queries.safe_if safe_revoke_row; (simp | erule quiet_queries(1,2) [THEN grows_leaves]))+

lemma safe_issue:
  "sessions_ok w \<Longrightarrow> safe grows (\<lambda>_ _. True) (andThen (call (issueRefreshToken P u m None)) (\<lambda>x. return (IssuedToken x))) w"
  by (rule safe_query) (auto intro: grows_issue_new grows_ok)

lemma safe_session: "sessions_ok w \<Longrightarrow> safe grows (\<lambda>_ _. True) (session_process P q) w"
  by (cases q) (auto intro: safe_issue queries.safe_andThen [OF safe_revokes(1)] queries.safe_andThen [OF safe_revokes(2)]
      queries.safe_andThen [OF safe_rotate])

interpretation refreshes: rely_guarantee grows sessions_ok "range (session_process P)" leaves_tokens
proof
  show "sessions_ok w \<Longrightarrow> grows w w' \<Longrightarrow> sessions_ok w'" for w w' :: "'a world" by (rule grows_ok)
  show "leaves_tokens w w' \<Longrightarrow> grows w w'" for w w' :: "'a world" by (rule grows_leaves)
  show "sessions_ok w \<Longrightarrow> p \<in> range (session_process P) \<Longrightarrow> safe grows (\<lambda>_ _. True) p w" for w p
    by (auto intro: safe_session)
qed

section \<open>What holds of every interleaving\<close>

text \<open>
  The pool of requests of the service: other requests arrive at any time, and anything that leaves
  the table of tokens alone happens in between.
\<close>

definition session_pool ::
    "'r platform \<Rightarrow> 'r world \<times> ('r world, exn, session_answer) process list \<Rightarrow>
     'r world \<times> ('r world, exn, session_answer) process list \<Rightarrow> bool" where
  "session_pool P = (pool_step (range (session_process P)) leaves_tokens)\<^sup>*\<^sup>*"

lemma pool_within:
  assumes "session_pool P (w, map (session_process P) qs) (w', ps')" and "sessions_ok w"
  shows "grows w w'" and "sessions_ok w'" and "\<forall>p \<in> set ps'. safe grows (\<lambda>_ _. True) p w'"
proof -
  have "grows w w' \<and> (\<forall>p \<in> set ps'. safe grows (\<lambda>_ _. True) p w')"
    using refreshes.pool_safe [OF assms(1) [unfolded session_pool_def]] assms(2) by (auto intro: safe_session)
  then show "grows w w'" "\<forall>p \<in> set ps'. safe grows (\<lambda>_ _. True) p w'" by auto
  then show "sessions_ok w'" using grows_ok [OF assms(2)] by blast
qed

text \<open>
  C7. However the queries of any number of requests interleave, identifiers and hashes stay unique,
  a session family has one user, and every token stays in the table with its hash, family, owner and
  expiry, revoked if it was.
\<close>

theorem interleaved_tokens:
  assumes "session_pool P (w, map (session_process P) qs) (w', ps')" and "sessions_ok w"
  shows "tokens_inv (refresh_tokens w') \<and>
    (\<forall>r \<in> set (refresh_tokens w). \<exists>r' \<in> set (refresh_tokens w'). carries_on r r')"
  using pool_within [OF assms] grows_carries [OF assms(2)] by (auto simp: sessions_ok_def)

text \<open>The answer of a rotation among the others, and of one that begins when the token is spent.\<close>

definition answers_grant :: "string \<Rightarrow> exn + session_answer \<Rightarrow> 'r world \<Rightarrow> bool" where
  "answers_grant h r w \<longleftrightarrow> (\<forall>x. r = Inr (RotatedToken x) \<longrightarrow> granted h (Inr x) w)"

lemma stable_grant: "stable grows sessions_ok (answers_grant h r)"
  unfolding stable_def
proof (intro allI impI)
  fix w w' :: "'a world" assume a: "sessions_ok w" "answers_grant h r w" "grows w w'"
  have "granted h (Inr x) w'" if x: "granted h (Inr x) w" for x
    using x grows_carries [OF a(1,3)] spent_later [OF a(1,3)] unfolding granted_def carries_on_def by metis
  then show "answers_grant h r w'" using a(2) by (auto simp: answers_grant_def)
qed

lemma safe_grant:
  "sessions_ok w \<Longrightarrow> safe grows (answers_grant (hashRefreshToken P tok)) (session_process P (RotateToken tok m)) w"
  by (simp, rule queries.safe_andThen [OF safe_rotate]) (simp_all add: answers_grant_def)

definition answers_reuse :: "refresh_row list \<Rightarrow> string \<Rightarrow> exn + session_answer \<Rightarrow> 'r world \<Rightarrow> bool" where
  "answers_reuse rows f r w \<longleftrightarrow> (\<forall>x. r = Inr (RotatedToken x) \<longrightarrow> reuse_handled rows f (Inr x) w)"

lemma stable_reuse: "stable grows sessions_ok (answers_reuse rows f r)"
  unfolding stable_def answers_reuse_def reuse_handled_def using killed_later by blast

lemma safe_reuse_answer:
  "sessions_ok w \<Longrightarrow> a \<in> set (refresh_tokens w) \<Longrightarrow> rt_tokenHash a = hashRefreshToken P tok \<Longrightarrow> \<not> active a \<Longrightarrow>
     safe grows (answers_reuse (refresh_tokens w) (rt_sessionFamily a)) (session_process P (RotateToken tok m)) w"
  by (simp, rule queries.safe_andThen [OF safe_replay]) (simp_all add: answers_reuse_def)

lemma pool_grant:
  assumes pool: "session_pool P (w, map (session_process P) qs) (w', ps')" and ok: "sessions_ok w"
    and q: "i < length qs" "qs ! i = RotateToken tok m" and fin: "ps' ! i = Answered (Inr (RotatedToken x))"
  shows "granted (hashRefreshToken P tok) (Inr x) w'"
proof -
  have "answers_grant (hashRefreshToken P tok) (Inr (RotatedToken x)) w'"
    by (rule refreshes.interleaving [OF pool [unfolded session_pool_def] stable_grant ok _ _ _ fin])
      (use q ok safe_grant in \<open>auto intro: safe_session\<close>)
  then show ?thesis by (simp add: answers_grant_def)
qed

lemma pool_replay:
  assumes "sessions_ok w" and all: "\<forall>p \<in> set ps. safe grows (\<lambda>_ _. True) p w"
    and a: "a \<in> set (refresh_tokens w)" "rt_tokenHash a = hashRefreshToken P tok" "\<not> active a"
    and pool: "session_pool P (w, ps @ [session_process P (RotateToken tok m)]) (w', ps')"
    and fin: "ps' ! length ps = Answered (Inr (RotatedToken y))"
  shows "y = Inl token_reuse_default \<and> killed (refresh_tokens w) (rt_sessionFamily a) w'"
proof -
  have all': "\<forall>p \<in> set (ps @ [session_process P (RotateToken tok m)]). safe grows (\<lambda>_ _. True) p w"
    using all safe_session [OF assms(1)] by (auto simp del: session_process.simps)
  have "answers_reuse (refresh_tokens w) (rt_sessionFamily a) (Inr (RotatedToken y)) w'"
    by (rule refreshes.interleaving [OF pool [unfolded session_pool_def] stable_reuse assms(1) all' _ _ fin])
      (use safe_reuse_answer [OF assms(1) a] in \<open>simp_all add: nth_append\<close>)
  then show ?thesis by (simp add: answers_reuse_def reuse_handled_def)
qed

text \<open>
  C5. Once a rotation has answered with tokens, a presentation of the same token that begins later is
  refused as reuse, whatever else is in flight, and every token its family had when that presentation
  began is revoked.
\<close>

theorem rotation_done_refuses:
  assumes "session_pool P (w, map (session_process P) qs) (w1, ps1)" and "sessions_ok w"
    and "i < length qs" and "qs ! i = RotateToken tok m" and "ps1 ! i = Answered (Inr (RotatedToken (Inr x)))"
    and "session_pool P (w1, ps1 @ [session_process P (RotateToken tok m')]) (w2, ps2)"
    and "ps2 ! length ps1 = Answered (Inr (RotatedToken y))"
  shows "y = Inl token_reuse_default \<and> (\<forall>r \<in> set (refresh_tokens w1).
    rt_sessionFamily r = ir_sessionFamily (rr_issued x) \<longrightarrow> (\<exists>r' \<in> set (refresh_tokens w2). carries_on r r' \<and> \<not> active r'))"
proof -
  note w1 = pool_within [OF assms(1,2)]
  have g: "granted (hashRefreshToken P tok) (Inr (Inr x)) w1" by (rule pool_grant [OF assms(1-5)])
  then obtain a b where a: "a \<in> set (refresh_tokens w1)" "rt_tokenHash a = hashRefreshToken P tok" "\<not> active a"
    and b: "b \<in> set (refresh_tokens w1)" "rt_tokenHash b = hashRefreshToken P tok" "rt_sessionFamily b = ir_sessionFamily (rr_issued x)"
    by (auto simp: granted_def spent_def)
  have "distinct (map rt_tokenHash (refresh_tokens w1))" using w1(2) by (simp add: sessions_ok_def tokens_inv_def)
  from distinct_map_unique [OF this a(1) b(1)] a(2) b(2,3) have "rt_sessionFamily a = ir_sessionFamily (rr_issued x)" by simp
  with pool_replay [OF w1(2,3) a assms(6,7)] show ?thesis by (simp add: killed_def)
qed


section \<open>What does not\<close>

lemma lookup_first:
  assumes "find_by_hash (hashRefreshToken P tok) w = (Inr (Some row), w0)"
  shows "pool_step A E (w, [session_process P (RotateToken tok m), p]) (w0, [andThen (rotate_row_process P (hashRefreshToken P tok) m row)
    (\<lambda>x. return (RotatedToken x)), p])"
proof -
  let ?h = "hashRefreshToken P tok"
  let ?k = "\<lambda>r. andThen (case r of None \<Rightarrow> return (err (UnauthorizedError ''Refresh token is invalid''))
      | Some row \<Rightarrow> rotate_row_process P ?h m row) (\<lambda>x. return (RotatedToken x))"
  have "session_process P (RotateToken tok m) = Awaiting (\<lambda>w. (case fst (find_by_hash ?h w) of
      Inl e \<Rightarrow> Answered (Inl e) | Inr r \<Rightarrow> ?k r, snd (find_by_hash ?h w)))"
    by (auto simp: rotate_process_def Let_def call_def fun_eq_iff split: sum.split)
  then show ?thesis
    using pool_step.advance [of 0 "[session_process P (RotateToken tok m), p]" _ w "?k (Some row)" w0 A E] assms
    by simp
qed

text \<open>
  C38. A rotation that has read its row is not stopped by a reuse of an older token of the family: the
  reuse is answered with the whole family revoked, then the rotation inserts a new token and answers with it,
  and the family has a live token again.
\<close>

theorem rotation_revives_family:
  assumes "find_by_hash (hashRefreshToken P tok) w = (Inr (Some row), w0)" and "rt_revokedAt row = None"
    and "family_inv (refresh_tokens w)" and "used \<in> set (refresh_tokens w)" and "\<not> active used"
    and "rt_tokenHash used = hashRefreshToken P old" and "rt_sessionFamily used = rt_sessionFamily row"
    and "rotateRefreshToken P old m' w0 = (Inr res, w1)"
    and "rotate_row P (hashRefreshToken P tok) m row w1 = (Inr (Inr x), w2)"
  shows "\<exists>p. session_pool P (w, [session_process P (RotateToken tok m), session_process P (RotateToken old m')])
      (w1, [p, Answered (Inr (RotatedToken (Inl token_reuse_default)))]) \<and>
    dead (rt_sessionFamily row) (refresh_tokens w1) \<and>
    session_pool P (w1, [p, Answered (Inr (RotatedToken (Inl token_reuse_default)))])
      (w2, [Answered (Inr (RotatedToken (Inr x))), Answered (Inr (RotatedToken (Inl token_reuse_default)))]) \<and>
    (\<exists>r \<in> set (refresh_tokens w2). rt_sessionFamily r = rt_sessionFamily row \<and> active r)"
proof -
  let ?A = "range (session_process P)" and ?B = "session_process P (RotateToken old m')"
  let ?p = "andThen (rotate_row_process P (hashRefreshToken P tok) m row) (\<lambda>x. return (RotatedToken x))"
  let ?reuse = "Answered (Inr (RotatedToken (Inl token_reuse_default)))"
  have w0: "refresh_tokens w0 = refresh_tokens w" using found_known(3) [OF assms(1)] .
  have res: "res = Inl token_reuse_default" and dead: "dead (rt_sessionFamily row) (refresh_tokens w1)"
    using replay_dead [OF _ _ assms(6,5,8)] assms(3,4,7) w0 by simp_all
  have "(pool_step ?A leaves_tokens)\<^sup>*\<^sup>* (w0, [?p, ?B]) (w1, [?p, ?reuse])"
    using pool_runs_from [of 1 "[?p, ?B]" ?B w0 _ w1 ?A leaves_tokens] assms(8) res by (simp add: await_run)
  then have "session_pool P (w, [session_process P (RotateToken tok m), ?B]) (w1, [?p, ?reuse])"
    unfolding session_pool_def
    by (rule converse_rtranclp_into_rtranclp [where r = "pool_step ?A leaves_tokens", OF lookup_first [OF assms(1), where m = m]])
  moreover have "session_pool P (w1, [?p, ?reuse]) (w2, [Answered (Inr (RotatedToken (Inr x))), ?reuse])"
    using pool_runs_from [of 0 "[?p, ?reuse]" ?p w1 _ w2 ?A leaves_tokens] assms(9)
    by (simp add: session_pool_def await_run)
  moreover have "\<exists>r \<in> set (refresh_tokens w2). rt_sessionFamily r = rt_sessionFamily row \<and> active r"
    using rotate_row_active [OF assms(2,9)] by (auto simp: rotated_rows_def adds_def active_def)
  ultimately show ?thesis using dead by blast
qed

section \<open>A world to try them on\<close>

lemma sextets_length: "length xs \<le> length (sextets xs)"
  by (induction xs rule: sextets.induct) simp_all

lemma fresh_demo_token: "length t < 32 \<Longrightarrow> base64url (map (entropy world0 n) [0..<32]) \<noteq> t"
proof
  assume "length t < 32" and "base64url (map (entropy world0 n) [0..<32]) = t"
  moreover have "32 \<le> length (base64url (map (entropy world0 n) [0..<32]))"
    using sextets_length [of "map unat (map (entropy world0 n) [0..<32])"] by (simp add: base64url_def)
  ultimately show False by simp
qed

lemma demo_ready_kept:
  "Rotation.demo_ready w \<Longrightarrow> Rotation.demo_ready (tick w)" "Rotation.demo_ready w \<Longrightarrow> Rotation.demo_ready (w\<lparr>draws := n\<rparr>)"
  "Rotation.demo_ready w \<Longrightarrow> Rotation.demo_ready (w\<lparr>audit_log := l\<rparr>)" "Rotation.demo_ready w \<Longrightarrow> Rotation.demo_ready (w\<lparr>log_lines := ll\<rparr>)"
  "Rotation.demo_ready w \<Longrightarrow> Rotation.demo_ready (w\<lparr>refresh_tokens := rs\<rparr>)"
  by (simp_all add: Rotation.demo_ready_def tick_def)

lemma demo_cache:
  "Rotation.demo_ready w \<Longrightarrow> \<exists>w'. cacheRefreshTokenRevocation demo h e w = (Inr (), w') \<and> Rotation.demo_ready w'"
  by (simp add: Rotation.demo_ready_def cacheRefreshTokenRevocation_def await_run ttl_run redis_call_def Let_def mem_exec_def
      tick_def mem_put_def split: if_split)

lemma demo_caches:
  "Rotation.demo_ready w \<Longrightarrow> \<exists>w'. promise_all (\<lambda>row. cacheRefreshTokenRevocation demo (rt_tokenHash row) (rt_expiresAt row)) xs w =
     (Inr (), w') \<and> Rotation.demo_ready w'"
proof (induction xs arbitrary: w)
  case (Cons x xs)
  obtain w1 where w1: "cacheRefreshTokenRevocation demo (rt_tokenHash x) (rt_expiresAt x) w = (Inr (), w1)" "Rotation.demo_ready w1"
    using demo_cache [OF Cons.prems] by blast
  from Cons.IH [OF w1(2)] w1(1) show ?case by auto
qed simp

lemma demo_replays:
  assumes "Rotation.demo_ready w" and "rt_revokedAt row \<noteq> None"
  shows "\<exists>w'. rotate_row demo h m row w = (Inr (Inl token_reuse_default), w') \<and> Rotation.demo_ready w'"
proof -
  let ?f = "rt_sessionFamily row"
  have served: "pg_fate v = (\<lambda>_. Served)" if "Rotation.demo_ready v" for v using that by (simp add: Rotation.demo_ready_def)
  have "\<exists>w1. revokeSessionFamily demo ?f ''reuse_detected'' w = (Inr (), w1) \<and> Rotation.demo_ready w1"
  proof (cases "filter (in_family ?f) (refresh_tokens w) = []")
    case True
    then show ?thesis using served [OF assms(1)] demo_ready_kept(1) [OF assms(1)]
      by (simp add: revokeSessionFamily_def await_run select_rows_def pg_def)
  next
    case False
    let ?w1 = "(tick (tick w))\<lparr>refresh_tokens := set_where (in_family ?f) (revoke_row (clock (tick w)) ''reuse_detected'') (refresh_tokens w)\<rparr>"
    have "Rotation.demo_ready ?w1" by (intro demo_ready_kept assms(1))
    from demo_caches [OF this] show ?thesis using False served [OF assms(1)]
      by (simp add: revokeSessionFamily_def await_run select_rows_def pg_def revoke_where_def now_run)
  qed
  then obtain w1 where w1: "revokeSessionFamily demo ?f ''reuse_detected'' w = (Inr (), w1)" "Rotation.demo_ready w1" by blast
  let ?ev = "(audit_event ''auth.token_refresh_failed'' ''denied'')
          \<lparr>user_id := Some (rt_userId row), failure_reason := Some ''token_reuse_detected'',
           metadata := Some [(''session_family'', ?f)]\<rparr>"
  obtain w2 where w2: "writeAuditEvent ?ev w1 = (Inr (), w2)" using writeAudit_Inr by blast
  have "preserves Rotation.demo_ready (writeAuditEvent ?ev)" by (intro preserves_writeAudit demo_ready_kept)
  from preservesD [OF this w2 w1(2)] show ?thesis
    using w1(1) w2 assms(2) by (simp add: rotate_row_def await_run err_def)
qed

definition used_token :: refresh_row where
  "used_token = revoke_row 500 ''rotation'' (demo_token\<lparr>rt_id := ''t0'', rt_tokenHash := hashRefreshToken demo ''old''\<rparr>)"

definition world_used :: "mem_redis world" where
  "world_used = world1\<lparr>refresh_tokens := [used_token, demo_token]\<rparr>"

lemma world_used_ready: "Rotation.demo_ready world_used"
  by (simp add: world_used_def demo_ready_kept) (simp add: Rotation.demo_ready_def redis0_def)

lemma used_token_simps [simp]:
  "rt_id used_token = ''t0''" "rt_tokenHash used_token = hashRefreshToken demo ''old''" "rt_sessionFamily used_token = ''f1''"
  "rt_userId used_token = ''u1''" "\<not> active used_token" "rt_revokedAt used_token \<noteq> None" "rt_expiresAt used_token = 604800000"
  by (simp_all add: used_token_def)

lemma world_used_rows [simp]: "refresh_tokens world_used = [used_token, demo_token]"
  by (simp add: world_used_def)

lemma world_used_inv: "family_inv [used_token, demo_token]"
  by (auto simp: family_inv_def)

lemma world_used_ok: "sessions_ok world_used"
proof -
  have "uuids world_used = (\<lambda>n. ''id'' @ show_nat n)" by (simp add: world_used_def) (simp add: world0_def fun_eq_iff)
  then show ?thesis using family_tokens [OF world_used_inv] by (simp add: sessions_ok_def inj_def)
qed

lemma used_rotates:
  assumes "Rotation.demo_ready w" and "rt_id ` set (refresh_tokens w) \<subseteq> {''t0'', ''t1''}"
    and "rt_tokenHash ` set (refresh_tokens w) \<subseteq> {hashRefreshToken demo ''old'', hashRefreshToken demo ''tok''}"
  shows "\<exists>x w1. rotate_row demo h demo_meta demo_token w = (Inr (Inr x), w1) \<and> Rotation.demo_ready w1"
proof -
  have "uuids world0 (Suc (draws w)) \<notin> rt_id ` set (refresh_tokens w)"
  proof
    have "uuids world0 (Suc (draws w)) \<notin> {''t0'', ''t1''}" by (simp add: world0_def)
    then show "uuids world0 (Suc (draws w)) \<in> rt_id ` set (refresh_tokens w) \<Longrightarrow> False" using assms(2) by blast
  qed
  moreover have "hashRefreshToken demo (base64url (map (entropy world0 (draws w)) [0..<32])) \<notin> rt_tokenHash ` set (refresh_tokens w)"
  proof
    have "hashRefreshToken demo (base64url (map (entropy world0 (draws w)) [0..<32])) \<notin>
        {hashRefreshToken demo ''old'', hashRefreshToken demo ''tok''}"
      using fresh_demo_token by simp
    then show "hashRefreshToken demo (base64url (map (entropy world0 (draws w)) [0..<32])) \<in> rt_tokenHash ` set (refresh_tokens w) \<Longrightarrow> False"
      using assms(3) by blast
  qed
  ultimately show ?thesis using demo_rotate_row [OF assms(1), of h] by blast
qed

lemma demo_find:
  assumes "Rotation.demo_ready w" and "distinct (map rt_tokenHash (refresh_tokens w))" and "row \<in> set (refresh_tokens w)"
    and "rt_tokenHash row = h"
  shows "find_by_hash h w = (Inr (Some row), tick w)"
  using row0_filter_unique [OF assms(2,3)] assms(1,4) by (simp add: find_by_hash_Inr Rotation.demo_ready_def)

lemma rotate_found:
  "find_by_hash (hashRefreshToken P tok) w = (Inr (Some row), w0) \<Longrightarrow>
     rotateRefreshToken P tok m w = rotate_row P (hashRefreshToken P tok) m row w0"
  by (simp add: rotateRefreshToken_def Let_def)

lemma rotate_row_revoked_rows:
  assumes "rt_revokedAt row \<noteq> None" and "rotate_row P h m row w = (r, w')"
  shows "rt_id ` set (refresh_tokens w') = rt_id ` set (refresh_tokens w)"
    and "rt_tokenHash ` set (refresh_tokens w') = rt_tokenHash ` set (refresh_tokens w)"
proof -
  have k: "keeps (\<lambda>w. (map rt_id (refresh_tokens w), map rt_tokenHash (refresh_tokens w))) (rotate_row P h m row)"
    unfolding rotate_row_def if_P [OF assms(1)] revokeSessionFamily_def revoke_where_def by (rule io_rules | simp)+
  show "rt_id ` set (refresh_tokens w') = rt_id ` set (refresh_tokens w)"
    "rt_tokenHash ` set (refresh_tokens w') = rt_tokenHash ` set (refresh_tokens w)"
    using keepsD [OF k assms(2)] by (metis prod.inject set_map)+
qed

lemma demo_rotation:
  "\<exists>w1 x. rotateRefreshToken demo ''tok'' demo_meta world_used = (Inr (Inr x), w1) \<and> Rotation.demo_ready w1"
proof -
  have rows: "refresh_tokens (tick world_used) = [used_token, demo_token]" by simp
  obtain x w1 where x: "rotate_row demo (hashRefreshToken demo ''tok'') demo_meta demo_token (tick world_used) = (Inr (Inr x), w1)"
      "Rotation.demo_ready w1"
    using used_rotates [OF demo_ready_kept(1) [OF world_used_ready], of "hashRefreshToken demo ''tok''"] by (auto simp: rows)
  have "find_by_hash (hashRefreshToken demo ''tok'') world_used = (Inr (Some demo_token), tick world_used)"
    by (rule demo_find [OF world_used_ready]) simp_all
  then show ?thesis using x by (simp add: rotate_found)
qed

lemma demo_pool:
  "\<exists>w1 x. session_pool demo (world_used, map (session_process demo) [RotateToken ''tok'' demo_meta])
     (w1, [Answered (Inr (RotatedToken (Inr x)))]) \<and> Rotation.demo_ready w1"
proof -
  obtain w1 x where run: "rotateRefreshToken demo ''tok'' demo_meta world_used = (Inr (Inr x), w1)" and r: "Rotation.demo_ready w1"
    using demo_rotation by blast
  have "session_pool demo (world_used, [session_process demo (RotateToken ''tok'' demo_meta)]) (w1, [Answered (Inr (RotatedToken (Inr x)))])"
    using pool_runs_from [of 0 "[session_process demo (RotateToken ''tok'' demo_meta)]"
        "session_process demo (RotateToken ''tok'' demo_meta)" world_used "Inr (RotatedToken (Inr x))" w1
        "range (session_process demo)" leaves_tokens] run
    by (simp add: session_pool_def await_run)
  with r show ?thesis by auto
qed

lemma interleaved_tokens_witness:
  "\<exists>w1 x. session_pool demo (world_used, map (session_process demo) [RotateToken ''tok'' demo_meta])
     (w1, [Answered (Inr (RotatedToken (Inr x)))]) \<and> tokens_inv (refresh_tokens w1) \<and>
     (\<exists>r' \<in> set (refresh_tokens w1). carries_on demo_token r')"
proof -
  obtain w1 x where pool: "session_pool demo (world_used, map (session_process demo) [RotateToken ''tok'' demo_meta])
     (w1, [Answered (Inr (RotatedToken (Inr x)))])" using demo_pool by blast
  from interleaved_tokens [OF pool world_used_ok] pool show ?thesis by auto
qed

lemma rotation_done_refuses_witness:
  "\<exists>w1 x w2. session_pool demo (world_used, map (session_process demo) [RotateToken ''tok'' demo_meta])
     (w1, [Answered (Inr (RotatedToken (Inr x)))]) \<and>
   session_pool demo (w1, [Answered (Inr (RotatedToken (Inr x))), session_process demo (RotateToken ''tok'' demo_meta)])
     (w2, [Answered (Inr (RotatedToken (Inr x))), Answered (Inr (RotatedToken (Inl token_reuse_default)))]) \<and>
   (\<forall>r \<in> set (refresh_tokens w1). rt_sessionFamily r = ir_sessionFamily (rr_issued x) \<longrightarrow>
     (\<exists>r' \<in> set (refresh_tokens w2). carries_on r r' \<and> \<not> active r'))"
proof -
  obtain w1 x where pool: "session_pool demo (world_used, map (session_process demo) [RotateToken ''tok'' demo_meta])
     (w1, [Answered (Inr (RotatedToken (Inr x)))])" and r1: "Rotation.demo_ready w1" using demo_pool by blast
  let ?p = "session_process demo (RotateToken ''tok'' demo_meta)"
  have "spent (hashRefreshToken demo ''tok'') w1"
    using pool_grant [OF pool world_used_ok, of 0 "''tok''" demo_meta "Inr x"] by (simp add: granted_def)
  then obtain a where a: "a \<in> set (refresh_tokens w1)" "rt_tokenHash a = hashRefreshToken demo ''tok''" "rt_revokedAt a \<noteq> None"
    by (auto simp: spent_def active_def)
  have "distinct (map rt_tokenHash (refresh_tokens w1))"
    using pool_within(2) [OF pool world_used_ok] by (simp add: sessions_ok_def tokens_inv_def)
  note f = demo_find [OF r1 this a(1,2)]
  obtain w2 where "rotate_row demo (hashRefreshToken demo ''tok'') demo_meta a (tick w1) = (Inr (Inl token_reuse_default), w2)"
    using demo_replays [OF demo_ready_kept(1) [OF r1] a(3)] by blast
  with f have run: "rotateRefreshToken demo ''tok'' demo_meta w1 = (Inr (Inl token_reuse_default), w2)"
    by (simp add: rotate_found)
  have pool2: "session_pool demo (w1, [Answered (Inr (RotatedToken (Inr x)))] @ [?p])
     (w2, [Answered (Inr (RotatedToken (Inr x))), Answered (Inr (RotatedToken (Inl token_reuse_default)))])"
    using pool_runs_from [of 1 "[Answered (Inr (RotatedToken (Inr x))), ?p]" ?p w1 "Inr (RotatedToken (Inl token_reuse_default))" w2
        "range (session_process demo)" leaves_tokens] run
    by (simp add: session_pool_def await_run)
  have "\<forall>r \<in> set (refresh_tokens w1). rt_sessionFamily r = ir_sessionFamily (rr_issued x) \<longrightarrow>
     (\<exists>r' \<in> set (refresh_tokens w2). carries_on r r' \<and> \<not> active r')"
    using rotation_done_refuses [OF pool world_used_ok _ _ _ pool2, where i = 0 and m = demo_meta and x = x and y = "Inl token_reuse_default"]
    by simp
  with pool pool2 show ?thesis by fastforce
qed

lemma rotation_revives_family_witness:
  "\<exists>p w1 x w2. session_pool demo (world_used, [session_process demo (RotateToken ''tok'' demo_meta),
       session_process demo (RotateToken ''old'' demo_meta)])
     (w1, [p, Answered (Inr (RotatedToken (Inl token_reuse_default)))]) \<and> dead ''f1'' (refresh_tokens w1) \<and>
   session_pool demo (w1, [p, Answered (Inr (RotatedToken (Inl token_reuse_default)))])
     (w2, [Answered (Inr (RotatedToken (Inr x))), Answered (Inr (RotatedToken (Inl token_reuse_default)))]) \<and>
   (\<exists>r \<in> set (refresh_tokens w2). rt_sessionFamily r = ''f1'' \<and> active r)"
proof -
  let ?w0 = "tick world_used"
  have r0: "Rotation.demo_ready ?w0" by (rule demo_ready_kept(1) [OF world_used_ready])
  have f: "find_by_hash (hashRefreshToken demo ''tok'') world_used = (Inr (Some demo_token), ?w0)"
    by (rule demo_find [OF world_used_ready]) simp_all
  have g: "find_by_hash (hashRefreshToken demo ''old'') ?w0 = (Inr (Some used_token), tick ?w0)"
    by (rule demo_find [OF r0]) simp_all
  obtain w1 where w1: "rotate_row demo (hashRefreshToken demo ''old'') demo_meta used_token (tick ?w0) = (Inr (Inl token_reuse_default), w1)"
      "Rotation.demo_ready w1"
    using demo_replays [OF demo_ready_kept(1) [OF r0] used_token_simps(6)] by blast
  then have replay: "rotateRefreshToken demo ''old'' demo_meta ?w0 = (Inr (Inl token_reuse_default), w1)"
    using g by (simp add: rotate_found)
  note same = rotate_row_revoked_rows [OF used_token_simps(6) w1(1)]
  obtain x w2 where w2: "rotate_row demo (hashRefreshToken demo ''tok'') demo_meta demo_token w1 = (Inr (Inr x), w2)"
    using used_rotates [OF w1(2), of "hashRefreshToken demo ''tok''"] unfolding same by auto
  have inv: "family_inv (refresh_tokens world_used)" using world_used_inv by simp
  have "\<exists>p. session_pool demo (world_used, [session_process demo (RotateToken ''tok'' demo_meta),
       session_process demo (RotateToken ''old'' demo_meta)])
     (w1, [p, Answered (Inr (RotatedToken (Inl token_reuse_default)))]) \<and> dead (rt_sessionFamily demo_token) (refresh_tokens w1) \<and>
   session_pool demo (w1, [p, Answered (Inr (RotatedToken (Inl token_reuse_default)))])
     (w2, [Answered (Inr (RotatedToken (Inr x))), Answered (Inr (RotatedToken (Inl token_reuse_default)))]) \<and>
   (\<exists>r \<in> set (refresh_tokens w2). rt_sessionFamily r = rt_sessionFamily demo_token \<and> active r)"
    by (rule rotation_revives_family [OF f _ inv _ _ _ _ replay w2, of used_token]) simp_all
  then show ?thesis unfolding demo_token_simps by blast
qed

end
