(* ===== verification/KeyRaces.thy ===== *)
theory KeyRaces
  imports Processes TenantKeyRotation
begin

text \<open>
  The key service (\<open>src/services/tenantKey.service.ts\<close>) with \<open>getActiveDek\<close> and \<open>getDekForVersion\<close>
  cut at their awaits. Any number of requests of one process resolve keys at once; the first ones
  of a tenant race to provision its key. Every key that is handed out is the one the table stands
  for, and all who raced hold the same.
\<close>

section \<open>The operations, cut at their awaits\<close>

text \<open>
  What runs without interruption: the look at the two caches, the new key up to its insert, the
  caching of a key just inserted, and the adoption of the row that was found.
\<close>

definition cached_active :: "string \<Rightarrow> ('r, resolved_dek option) gw" where
  "cached_active tenantKeyId = await (versionCache_get tenantKeyId) (\<lambda>cachedVersion. case cachedVersion of
       None \<Rightarrow> pure None
     | Some v \<Rightarrow> await (dekCache_get (cacheKey tenantKeyId v)) (\<lambda>cachedDek.
         pure (map_option (\<lambda>d. \<lparr>dek = d, keyVersion = v\<rparr>) cachedDek)))"

definition provision_insert :: "'r platform \<Rightarrow> string \<Rightarrow> ('r, bytes \<times> key_row list) gw" where
  "provision_insert P tenantKeyId =
     await (randomBytes DEK_LENGTH_BYTES) (\<lambda>rawDek.
     await (wrapDek P rawDek) (\<lambda>wrappedDek.
     await (insert_key True tenantKeyId 1 wrappedDek) (\<lambda>inserted. pure (rawDek, inserted))))"

definition cache_provisioned :: "string \<Rightarrow> bytes \<Rightarrow> ('r, resolved_dek) gw" where
  "cache_provisioned tenantKeyId rawDek =
     await (dekCache_set (cacheKey tenantKeyId 1) rawDek) (\<lambda>_.
     await (versionCache_set tenantKeyId 1) (\<lambda>_. pure \<lparr>dek = rawDek, keyVersion = 1\<rparr>))"

definition adopt_row :: "'r platform \<Rightarrow> string \<Rightarrow> nat \<Rightarrow> string \<Rightarrow> ('r, resolved_dek) gw" where
  "adopt_row P tenantKeyId v wrapped =
     await (versionCache_set tenantKeyId v) (\<lambda>_. unwrapAndCache P tenantKeyId v wrapped)"

definition provision_process :: "'r platform \<Rightarrow> string \<Rightarrow> ('r world, exn, resolved_dek) process" where
  "provision_process P tenantKeyId =
     andThen (call (provision_insert P tenantKeyId)) (\<lambda>(rawDek, inserted). case row0 inserted of
       Some _ \<Rightarrow> call (cache_provisioned tenantKeyId rawDek)
     | None \<Rightarrow> andThen (call (findActiveRow tenantKeyId)) (\<lambda>existing. case existing of
           None \<Rightarrow> Answered (Inl (JsError (''Failed to provision or resolve an active DEK for tenant key \"''
             @ tenantKeyId @ ''\"'')))
         | Some (v, wrapped) \<Rightarrow> call (adopt_row P tenantKeyId v wrapped)))"

definition active_process :: "'r platform \<Rightarrow> string option \<Rightarrow> ('r world, exn, resolved_dek) process" where
  "active_process P tenantId =
     (let tenantKeyId = resolveTenantKeyId tenantId in
      andThen (call (cached_active tenantKeyId)) (\<lambda>cached. case cached of
        Some x \<Rightarrow> return x
      | None \<Rightarrow> andThen (call (findActiveRow tenantKeyId)) (\<lambda>active. case active of
            None \<Rightarrow> provision_process P tenantKeyId
          | Some (v, wrapped) \<Rightarrow> call (adopt_row P tenantKeyId v wrapped))))"

definition version_process :: "'r platform \<Rightarrow> string option \<Rightarrow> nat \<Rightarrow> ('r world, exn, bytes) process" where
  "version_process P tenantId version =
     (let tenantKeyId = resolveTenantKeyId tenantId in
      andThen (call (dekCache_get (cacheKey tenantKeyId version))) (\<lambda>cached. case cached of
        Some d \<Rightarrow> return d
      | None \<Rightarrow>
          andThen (call (select_rows tenant_encryption_keys
            (\<lambda>r. tk_tenantId r = tenantKeyId \<and> tk_keyVersion r = version))) (\<lambda>rows.
          case row0 (take 1 rows) of
            None \<Rightarrow> Answered (Inl (JsError (''No tenant_encryption_keys row for tenant \"'' @ tenantKeyId
              @ ''\" at key_version '' @ show_nat version)))
          | Some row \<Rightarrow> andThen (call (unwrapAndCache P tenantKeyId version (tk_wrappedDek row))) (\<lambda>r.
              return (dek r)))))"

datatype key_request = NeedActive "string option" | NeedVersion "string option" nat

datatype key_answer = ActiveKey resolved_dek | VersionKey bytes

fun key_process :: "'r platform \<Rightarrow> key_request \<Rightarrow> ('r world, exn, key_answer) process" where
  "key_process P (NeedActive tid) = andThen (active_process P tid) (\<lambda>x. return (ActiveKey x))"
| "key_process P (NeedVersion tid v) = andThen (version_process P tid v) (\<lambda>d. return (VersionKey d))"

fun key_call :: "'r platform \<Rightarrow> key_request \<Rightarrow> ('r, key_answer) gw" where
  "key_call P (NeedActive tid) = await (getActiveDek P tid) (\<lambda>x. pure (ActiveKey x))"
| "key_call P (NeedVersion tid v) = await (getDekForVersion P tid v) (\<lambda>d. pure (VersionKey d))"

section \<open>Without interruption\<close>

lemma run_fail [simp]: "run (Answered (Inl e)) = throw e"
  by (simp add: throw_def)

lemma run_provision: "run (provision_process P t) = provisionActiveKey P t"
proof (rule ext)
  have "await (provision_insert P t) k w = await (randomBytes DEK_LENGTH_BYTES) (\<lambda>raw.
     await (wrapDek P raw) (\<lambda>s. await (insert_key True t 1 s) (\<lambda>ins. k (raw, ins)))) w" for k :: "_ \<Rightarrow> ('a, resolved_dek) gw" and w
    by (simp add: provision_insert_def await_assoc)
  then show "run (provision_process P t) w = provisionActiveKey P t w" for w
    unfolding provision_process_def provisionActiveKey_def run_andThen run_call
    by (auto simp: cache_provisioned_def adopt_row_def fun_eq_iff intro!: arg_cong2 [where f = await, THEN fun_cong]
        split: option.split)
qed

lemma run_active: "run (active_process P tid) = getActiveDek P tid"
  unfolding active_process_def getActiveDek_def Let_def cached_active_def
  by (auto simp: run_provision adopt_row_def await_assoc fun_eq_iff await_run split: prod.split sum.split option.split)

lemma run_version: "run (version_process P tid v) = getDekForVersion P tid v"
  unfolding version_process_def getDekForVersion_def Let_def
  by (auto simp: fun_eq_iff await_run split: prod.split sum.split option.split)

lemma run_key [simp]: "run (key_process P q) = key_call P q"
  by (cases q) (simp_all add: run_active run_version)

section \<open>Every step keeps the keys\<close>

text \<open>
  The invariant of the key service is kept, no key is lost or replaced, and the only new ones are
  first versions.
\<close>

definition key_grows :: "'r platform \<Rightarrow> 'r world \<Rightarrow> 'r world \<Rightarrow> bool" where
  "key_grows P w w' \<longleftrightarrow> (dek_inv P w \<longrightarrow> dek_inv P w' \<and>
     wrapped_of (tenant_encryption_keys w) \<subseteq>\<^sub>m wrapped_of (tenant_encryption_keys w') \<and>
     (\<forall>t v. v \<noteq> 1 \<longrightarrow> wrapped_of (tenant_encryption_keys w') (t, v) = wrapped_of (tenant_encryption_keys w) (t, v)))"

definition leaves_keys :: "'r world \<Rightarrow> 'r world \<Rightarrow> bool" where
  "leaves_keys w w' \<longleftrightarrow> tenant_encryption_keys w' = tenant_encryption_keys w \<and> dekCache w' = dekCache w \<and>
     activeVersionCache w' = activeVersionCache w"

lemma key_grows_leaves: "leaves_keys w w' \<Longrightarrow> key_grows P w w'"
  by (simp add: key_grows_def leaves_keys_def dek_inv_def caches_ok_def)

lemma key_grows_trans: "key_grows P u v \<Longrightarrow> key_grows P v w \<Longrightarrow> key_grows P u w"
  by (auto simp: key_grows_def intro: map_le_trans)

interpretation key_steps: step_relation "key_grows P"
proof
  show "key_grows P w w" for w by (rule key_grows_leaves) (simp add: leaves_keys_def)
qed (rule key_grows_trans)

text \<open>A computation that keeps the invariant and the table.\<close>

lemma key_grows_same:
  assumes "keyed P (tenant_encryption_keys w) w'" and "tenant_encryption_keys w' = tenant_encryption_keys w"
  shows "key_grows P w w'"
  using assms by (simp add: key_grows_def keyed_def)

lemma dek_inv_keyed: "dek_inv P w \<Longrightarrow> keyed P (tenant_encryption_keys w) w"
  by (simp add: keyed_def)

lemma keeps_key_table:
  "keeps tenant_encryption_keys (findActiveRow t)" "keeps tenant_encryption_keys (dekCache_get k)"
  "keeps tenant_encryption_keys (cached_active t)" "keeps tenant_encryption_keys (unwrapAndCache P t v s)"
  "keeps tenant_encryption_keys (adopt_row P t v s)" "keeps tenant_encryption_keys (cache_provisioned t d)"
  unfolding findActiveRow_def cached_active_def unwrapAndCache_def adopt_row_def cache_provisioned_def
    dekCache_get_def dekCache_set_def versionCache_get_def versionCache_set_def Let_def
  by (rule io_rules | simp)+

text \<open>Facts about the table that stay true.\<close>

definition stored :: "string \<Rightarrow> nat \<Rightarrow> string \<Rightarrow> 'r world \<Rightarrow> bool" where
  "stored t v s w \<longleftrightarrow> wrapped_of (tenant_encryption_keys w) (t, v) = Some s"

definition stands_for :: "'r platform \<Rightarrow> string \<Rightarrow> nat \<Rightarrow> bytes \<Rightarrow> 'r world \<Rightarrow> bool" where
  "stands_for P t v d w \<longleftrightarrow> key_dek P (tenant_encryption_keys w) t v = Some d"

lemma stored_later: "dek_inv P w \<Longrightarrow> key_grows P w w' \<Longrightarrow> stored t v s w \<Longrightarrow> stored t v s w'"
  by (auto simp: key_grows_def stored_def map_le_def dom_def)

lemma stands_for_later: "dek_inv P w \<Longrightarrow> key_grows P w w' \<Longrightarrow> stands_for P t v d w \<Longrightarrow> stands_for P t v d w'"
  unfolding stands_for_def key_dek_def key_grows_def map_le_def dom_def
  by (auto split: option.splits)

lemma inv_later: "dek_inv P w \<Longrightarrow> key_grows P w w' \<Longrightarrow> dek_inv P w'"
  by (simp add: key_grows_def)

section \<open>The steps\<close>

lemma find_active_step:
  assumes "dek_inv P w" and "findActiveRow t w = (r, w')"
  shows "key_grows P w w'" and "r = Inr (Some (v, s)) \<Longrightarrow> stored t v s w'"
  using hoareD [OF hoare_findActiveRow dek_inv_keyed [OF assms(1)] assms(2)] keepsD [OF keeps_key_table(1) assms(2)]
  by (auto simp: stored_def intro: key_grows_same)

lemma cache_get_step:
  assumes "dek_inv P w" and "dekCache_get (cacheKey t v) w = (r, w')"
  shows "key_grows P w w'" and "r = Inr (Some d) \<Longrightarrow> stands_for P t v d w'"
  using hoareD [OF hoare_dekCache_get [where X = "\<lambda>_. True"] _ assms(2)] dek_inv_keyed [OF assms(1)] keepsD [OF keeps_key_table(2) assms(2)]
  by (auto simp: stands_for_def intro: key_grows_same)

lemma cached_active_step:
  assumes inv: "dek_inv P w" and run: "cached_active t w = (r, w')"
  shows "key_grows P w w'" and "r = Inr (Some x) \<Longrightarrow> stands_for P t (keyVersion x) (dek x) w'"
proof -
  let ?k = "tenant_encryption_keys w"
  obtain r1 w1 where get: "versionCache_get t w = (r1, w1)" by fastforce
  obtain cv where r1: "r1 = Inr cv" and k1: "keyed P ?k w1"
    using hoareD [OF hoare_versionCache_get dek_inv_keyed [OF inv] get] by auto
  have "keyed P ?k w' \<and> (\<forall>x. r = Inr (Some x) \<longrightarrow> stands_for P t (keyVersion x) (dek x) w')"
  proof (cases cv)
    case None
    then show ?thesis using run get r1 k1 by (auto simp: cached_active_def)
  next
    case (Some v)
    obtain r2 w2 where get2: "dekCache_get (cacheKey t v) w1 = (r2, w2)" by fastforce
    have "keyed P ?k w2 \<and> (\<exists>o1. r2 = Inr o1 \<and> (\<forall>d. o1 = Some d \<longrightarrow> stands_for P t v d w2))"
      using hoareD [OF hoare_dekCache_get [where X = "\<lambda>_. True"] _ get2] k1 by (auto simp: stands_for_def)
    then show ?thesis using run get r1 Some get2 by (auto simp: cached_active_def)
  qed
  then show "key_grows P w w'" "r = Inr (Some x) \<Longrightarrow> stands_for P t (keyVersion x) (dek x) w'"
    using keepsD [OF keeps_key_table(3) run] by (auto intro: key_grows_same)
qed

lemma unwrap_step:
  assumes "dek_inv P w" and "stored t v s w" and "unwrapAndCache P t v s w = (r, w')"
  shows "key_grows P w w'" and "r = Inr x \<Longrightarrow> keyVersion x = v \<and> stands_for P t v (dek x) w'"
  using hoareD [OF hoare_unwrapAndCache _ assms(3)] dek_inv_keyed [OF assms(1)] assms(2) keepsD [OF keeps_key_table(4) assms(3)]
  by (auto simp: stored_def stands_for_def intro: key_grows_same)

lemma adopt_step:
  assumes inv: "dek_inv P w" and s: "stored t v s w" and run: "adopt_row P t v s w = (r, w')"
  shows "key_grows P w w'" and "r = Inr x \<Longrightarrow> keyVersion x = v \<and> stands_for P t v (dek x) w'"
proof -
  let ?k = "tenant_encryption_keys w"
  obtain r1 w1 where set: "versionCache_set t v w = (r1, w1)" by fastforce
  have "key_dek P ?k t v \<noteq> None"
    using wrapped_key_dek [of P ?k t v s] inv s by (auto simp: stored_def dek_inv_def)
  then have k1: "keyed P ?k w1 \<and> wrapped_of (tenant_encryption_keys w1) (t, v) = Some s \<and> r1 = Inr ()"
    using hoareD [OF hoare_versionCache_set [where X = "\<lambda>rows. wrapped_of rows (t, v) = Some s"] _ set]
      dek_inv_keyed [OF inv] s by (simp add: stored_def)
  then have "unwrapAndCache P t v s w1 = (r, w')" using run set by (simp add: adopt_row_def)
  from hoareD [OF hoare_unwrapAndCache _ this] k1
  show "key_grows P w w'" "r = Inr x \<Longrightarrow> keyVersion x = v \<and> stands_for P t v (dek x) w'"
    using keepsD [OF keeps_key_table(5) run] by (auto simp: stands_for_def intro: key_grows_same)
qed

lemma cache_provisioned_step:
  assumes inv: "dek_inv P w" and d: "stands_for P t 1 d w" and run: "cache_provisioned t d w = (r, w')"
  shows "key_grows P w w'" and "r = Inr x \<Longrightarrow> x = \<lparr>dek = d, keyVersion = 1\<rparr> \<and> stands_for P t 1 d w'"
proof -
  let ?k = "tenant_encryption_keys w"
  obtain r1 w1 where set1: "dekCache_set (cacheKey t 1) d w = (r1, w1)" by fastforce
  then have k1: "keyed P ?k w1 \<and> key_dek P (tenant_encryption_keys w1) t 1 = Some d \<and> r1 = Inr ()"
    using hoareD [OF hoare_dekCache_set _ set1] dek_inv_keyed [OF inv] d by (simp add: stands_for_def)
  obtain r2 w2 where set2: "versionCache_set t 1 w1 = (r2, w2)" by fastforce
  have "keyed P ?k w2 \<and> True \<and> r2 = Inr ()"
    by (rule hoareD [OF hoare_versionCache_set [where X = "\<lambda>_. True"] _ set2]) (use k1 in simp)
  then have "keyed P ?k w'" and r: "r = Inr \<lparr>dek = d, keyVersion = 1\<rparr>"
    using run set1 set2 k1 by (auto simp: cache_provisioned_def)
  moreover have "tenant_encryption_keys w' = ?k" by (rule keepsD [OF keeps_key_table(6) run])
  ultimately show "key_grows P w w'" "r = Inr x \<Longrightarrow> x = \<lparr>dek = d, keyVersion = 1\<rparr> \<and> stands_for P t 1 d w'"
    using d by (auto simp: stands_for_def intro: key_grows_same)
qed

lemma provision_insert_step:
  assumes laws: "gcm_laws P" "hkdf_laws P" and inv: "dek_inv P w" and run: "provision_insert P t w = (r, w')"
  shows "key_grows P w w'" and "r = Inr (d, x # xs) \<Longrightarrow> stands_for P t 1 d w'"
proof -
  let ?k = "tenant_encryption_keys w"
  let ?fresh = "await (randomBytes DEK_LENGTH_BYTES) (\<lambda>raw. await (wrapDek P raw) (\<lambda>s. pure (raw, s)))"
  obtain r1 w1 where f: "?fresh w = (r1, w1)" by fastforce
  have split: "provision_insert P t = await ?fresh (\<lambda>(raw, s). await (insert_key True t 1 s) (\<lambda>ins. pure (raw, ins)))"
    by (simp add: provision_insert_def await_assoc)
  have "keyed P ?k w1 \<and> (\<forall>raw s. r1 = Inr (raw, s) \<longrightarrow> unwrapDek P s = Inr raw \<and> length raw = 32)"
    using hoareD [OF fresh_dek [OF laws] dek_inv_keyed [OF inv] f] .
  moreover have "keeps tenant_encryption_keys ?fresh"
    unfolding wrapDek_def encryptWithKey_def by (rule io_rules | simp)+
  from keepsD [OF this f] have rows1: "tenant_encryption_keys w1 = ?k" .
  ultimately have g1: "key_grows P w w1" and wrap: "\<And>raw s. r1 = Inr (raw, s) \<Longrightarrow> unwrapDek P s = Inr raw \<and> length raw = 32"
    by (auto intro: key_grows_same)
  show "key_grows P w w'" and "r = Inr (d, x # xs) \<Longrightarrow> stands_for P t 1 d w'"
  proof (atomize (full), cases r1)
    case (Inl e)
    then show "key_grows P w w' \<and> (r = Inr (d, x # xs) \<longrightarrow> stands_for P t 1 d w')"
      using run f g1 by (auto simp: split)
  next
    case (Inr p)
    obtain raw s where p: "p = (raw, s)" by (cases p)
    then have u: "unwrapDek P s = Inr raw" "length raw = 32" using wrap Inr by auto
    obtain r2 w2 where ins: "insert_key True t 1 s w1 = (r2, w2)" by fastforce
    have i1: "dek_inv P w1" using inv_later [OF inv g1] .
    have k2: "keyed P (tenant_encryption_keys w1) w2 \<and>
        (\<forall>xs. r2 = Inr xs \<longrightarrow> xs \<noteq> [] \<longrightarrow> key_dek P (tenant_encryption_keys w2) t 1 = Some raw)"
      using hoareD [OF hoare_insert_key [OF u, of 1] dek_inv_keyed [OF i1] ins] by simp
    have "wrapped_of (tenant_encryption_keys w1) \<subseteq>\<^sub>m wrapped_of (tenant_encryption_keys w2) \<and>
        (\<forall>t v. v \<noteq> 1 \<longrightarrow> wrapped_of (tenant_encryption_keys w2) (t, v) = wrapped_of (tenant_encryption_keys w1) (t, v))"
      using insert_key_cases [OF ins]
      by (auto simp: key_unchanged_def key_added_def wrapped_append not_key_exists map_le_def)
    then have "key_grows P w1 w2" using k2 by (simp add: key_grows_def keyed_def)
    then have g2: "key_grows P w w2" by (rule key_grows_trans [OF g1])
    have "w' = w2" "r = (case r2 of Inl e \<Rightarrow> Inl e | Inr ins \<Rightarrow> Inr (raw, ins))"
      using run f Inr p ins by (auto simp: split await_run split: sum.splits)
    with g2 k2 show "key_grows P w w' \<and> (r = Inr (d, x # xs) \<longrightarrow> stands_for P t 1 d w')"
      by (auto simp: stands_for_def split: sum.splits)
  qed
qed

section \<open>Every operation is safe among the others\<close>

text \<open>What a resolved key promises, for ever.\<close>

definition sound_key :: "'r platform \<Rightarrow> string \<Rightarrow> exn + resolved_dek \<Rightarrow> 'r world \<Rightarrow> bool" where
  "sound_key P t r w \<longleftrightarrow> (\<forall>x. r = Inr x \<longrightarrow> stands_for P t (keyVersion x) (dek x) w)"

lemma safe_key_step:
  assumes "\<And>v r v'. key_grows P w v \<Longrightarrow> m v = (r, v') \<Longrightarrow> key_grows P v v'"
    and "\<And>v e v'. key_grows P w v \<Longrightarrow> m v = (Inl e, v') \<Longrightarrow> Q (Inl e) v'"
    and "\<And>v x v'. key_grows P w v \<Longrightarrow> m v = (Inr x, v') \<Longrightarrow> key_grows P w v' \<Longrightarrow> safe (key_grows P) Q (k x) v'"
  shows "safe (key_grows P) Q (andThen (call m) k) w"
proof (rule key_steps.safe_then_call)
  fix v r v' assume v: "key_grows P w v" "m v = (r, v')"
  then have g: "key_grows P v v'" by (rule assms(1))
  have "case r of Inl e \<Rightarrow> Q (Inl e) v' | Inr x \<Rightarrow> safe (key_grows P) Q (k x) v'"
    using assms(2,3) [OF v(1)] v key_grows_trans [OF v(1) g] by (cases r) auto
  with g show "key_grows P v v' \<and> (case r of Inl e \<Rightarrow> Q (Inl e) v' | Inr x \<Rightarrow> safe (key_grows P) Q (k x) v')" by blast
qed

lemma safe_adopt:
  assumes inv: "dek_inv P w" and s: "stored t v s w"
  shows "safe (key_grows P) (sound_key P t) (call (adopt_row P t v s)) w"
proof (rule key_steps.safe_call)
  fix u r u' assume u: "key_grows P w u" "adopt_row P t v s u = (r, u')"
  note a = adopt_step [OF inv_later [OF inv u(1)] stored_later [OF inv u(1) s] u(2)]
  from a(1) show "key_grows P u u' \<and> sound_key P t r u'" by (auto simp: sound_key_def dest: a(2))
qed

lemma safe_adopt_found:
  assumes inv: "dek_inv P w" and "findActiveRow t v = (Inr found, w)" and "dek_inv P v"
    and none: "safe (key_grows P) (sound_key P t) none w"
  shows "safe (key_grows P) (sound_key P t) (case found of None \<Rightarrow> none
    | Some (v, wrapped) \<Rightarrow> call (adopt_row P t v wrapped)) w"
proof (cases found)
  case (Some p)
  obtain n s where p: "p = (n, s)" by (cases p)
  have "stored t n s w" using find_active_step(2) [OF assms(3,2)] Some p by simp
  from safe_adopt [OF inv this] show ?thesis using Some p by simp
qed (use none in simp)

lemma safe_find:
  assumes inv: "dek_inv P w" and none: "\<And>v. key_grows P w v \<Longrightarrow> safe (key_grows P) (sound_key P t) none v"
  shows "safe (key_grows P) (sound_key P t) (andThen (call (findActiveRow t)) (\<lambda>found. case found of None \<Rightarrow> none
    | Some (v, wrapped) \<Rightarrow> call (adopt_row P t v wrapped))) w"
proof (rule safe_key_step)
  fix v r v' assume "key_grows P w v" "findActiveRow t v = (r, v')"
  then show "key_grows P v v'" using find_active_step(1) inv_later [OF inv] by blast
next
  fix v x v' assume v: "key_grows P w v" "findActiveRow t v = (Inr x, v')" "key_grows P w v'"
  show "safe (key_grows P) (sound_key P t) (case x of None \<Rightarrow> none | Some (v, wrapped) \<Rightarrow> call (adopt_row P t v wrapped)) v'"
    by (rule safe_adopt_found [OF inv_later [OF inv v(3)] v(2) inv_later [OF inv v(1)] none [OF v(3)]])
qed (simp add: sound_key_def)

lemma safe_provision:
  assumes laws: "gcm_laws P" "hkdf_laws P" and inv: "dek_inv P w"
  shows "safe (key_grows P) (sound_key P t) (provision_process P t) w"
  unfolding provision_process_def
proof (rule safe_key_step)
  fix v r v' assume "key_grows P w v" "provision_insert P t v = (r, v')"
  then show "key_grows P v v'" using provision_insert_step(1) [OF laws] inv_later [OF inv] by blast
next
  let ?none = "Answered (Inl (JsError (''Failed to provision or resolve an active DEK for tenant key \"'' @ t @ ''\"'')))"
  fix v x v' assume v: "key_grows P w v" "provision_insert P t v = (Inr x, v')" "key_grows P w v'"
  obtain d ins where x: "x = (d, ins)" by (cases x)
  have i': "dek_inv P v'" using inv_later [OF inv v(3)] .
  have "safe (key_grows P) (sound_key P t) (case row0 ins of
       Some _ \<Rightarrow> call (cache_provisioned t d)
     | None \<Rightarrow> andThen (call (findActiveRow t)) (\<lambda>existing. case existing of None \<Rightarrow> ?none
         | Some (v, wrapped) \<Rightarrow> call (adopt_row P t v wrapped))) v'"
  proof (rule key_steps.safe_option)
    show "safe (key_grows P) (sound_key P t) (andThen (call (findActiveRow t)) (\<lambda>existing. case existing of None \<Rightarrow> ?none
         | Some (v, wrapped) \<Rightarrow> call (adopt_row P t v wrapped))) v'"
      by (rule safe_find [OF i']) (simp add: sound_key_def)
  next
    fix y assume "row0 ins = Some y"
    then have d: "stands_for P t 1 d v'"
      using provision_insert_step(2) [OF laws inv_later [OF inv v(1)] v(2)] x by (auto simp: row0_Some_iff)
    show "safe (key_grows P) (sound_key P t) (call (cache_provisioned t d)) v'"
    proof (rule key_steps.safe_call)
      fix u r u' assume u: "key_grows P v' u" "cache_provisioned t d u = (r, u')"
      note c = cache_provisioned_step [OF inv_later [OF i' u(1)] stands_for_later [OF i' u(1) d] u(2)]
      from c(1) show "key_grows P u u' \<and> sound_key P t r u'" by (auto simp: sound_key_def dest: c(2))
    qed
  qed
  then show "safe (key_grows P) (sound_key P t) (case x of (rawDek, inserted) \<Rightarrow> case row0 inserted of
       Some _ \<Rightarrow> call (cache_provisioned t rawDek)
     | None \<Rightarrow> andThen (call (findActiveRow t)) (\<lambda>existing. case existing of None \<Rightarrow> ?none
         | Some (v, wrapped) \<Rightarrow> call (adopt_row P t v wrapped))) v'"
    by (simp add: x)
qed (simp add: sound_key_def)

lemma safe_active:
  assumes laws: "gcm_laws P" "hkdf_laws P" and inv: "dek_inv P w"
  shows "safe (key_grows P) (sound_key P (resolveTenantKeyId tid)) (active_process P tid) w"
  unfolding active_process_def Let_def
proof (rule safe_key_step)
  let ?t = "resolveTenantKeyId tid"
  fix v r v' assume "key_grows P w v" "cached_active ?t v = (r, v')"
  then show "key_grows P v v'" using cached_active_step(1) inv_later [OF inv] by blast
next
  let ?t = "resolveTenantKeyId tid"
  fix v c v' assume v: "key_grows P w v" "cached_active ?t v = (Inr c, v')" "key_grows P w v'"
  show "safe (key_grows P) (sound_key P ?t) (case c of None \<Rightarrow>
        andThen (call (findActiveRow ?t)) (\<lambda>active. case active of None \<Rightarrow> provision_process P ?t
          | Some (v, wrapped) \<Rightarrow> call (adopt_row P ?t v wrapped))
      | Some x \<Rightarrow> return x) v'"
  proof (rule key_steps.safe_option)
    show "safe (key_grows P) (sound_key P ?t) (andThen (call (findActiveRow ?t)) (\<lambda>active. case active of
        None \<Rightarrow> provision_process P ?t | Some (v, wrapped) \<Rightarrow> call (adopt_row P ?t v wrapped))) v'"
      by (rule safe_find [OF inv_later [OF inv v(3)] safe_provision [OF laws inv_later [OF inv_later [OF inv v(3)]]]])
    show "safe (key_grows P) (sound_key P ?t) (return x) v'" if "c = Some x" for x
      using cached_active_step(2) [OF inv_later [OF inv v(1)] v(2)] that by (simp add: sound_key_def)
  qed
qed (simp add: sound_key_def)

definition sound_dek :: "'r platform \<Rightarrow> string \<Rightarrow> nat \<Rightarrow> exn + bytes \<Rightarrow> 'r world \<Rightarrow> bool" where
  "sound_dek P t n r w \<longleftrightarrow> (\<forall>d. r = Inr d \<longrightarrow> stands_for P t n d w)"

lemma safe_version:
  assumes inv: "dek_inv P w"
  shows "safe (key_grows P) (sound_dek P (resolveTenantKeyId tid) n) (version_process P tid n) w"
  unfolding version_process_def Let_def
proof (rule safe_key_step)
  let ?t = "resolveTenantKeyId tid"
  fix v r v' assume "key_grows P w v" "dekCache_get (cacheKey ?t n) v = (r, v')"
  then show "key_grows P v v'" using cache_get_step(1) inv_later [OF inv] by blast
next
  let ?t = "resolveTenantKeyId tid"
  let ?sel = "select_rows tenant_encryption_keys (\<lambda>r. tk_tenantId r = ?t \<and> tk_keyVersion r = n)"
  fix v c v' assume v: "key_grows P w v" "dekCache_get (cacheKey ?t n) v = (Inr c, v')" "key_grows P w v'"
  have i': "dek_inv P v'" using inv_later [OF inv v(3)] .
  have leaves: "leaves_keys u u'" if "?sel u = (r, u')" for u r and u' :: "'a world"
    using that by (auto simp: select_rows_def pg_def Let_def leaves_keys_def split: fate.splits)
  show "safe (key_grows P) (sound_dek P ?t n) (case c of None \<Rightarrow> andThen (call ?sel) (\<lambda>rows. case row0 (take 1 rows) of
      None \<Rightarrow> Answered (Inl (JsError (''No tenant_encryption_keys row for tenant \"'' @ ?t @ ''\" at key_version '' @ show_nat n)))
    | Some row \<Rightarrow> andThen (call (unwrapAndCache P ?t n (tk_wrappedDek row))) (\<lambda>r. return (dek r)))
    | Some d \<Rightarrow> return d) v'"
  proof (rule key_steps.safe_option)
    show "safe (key_grows P) (sound_dek P ?t n) (return d) v'" if "c = Some d" for d
      using cache_get_step(2) [OF inv_later [OF inv v(1)] v(2)] that by (simp add: sound_dek_def)
    show "safe (key_grows P) (sound_dek P ?t n) (andThen (call ?sel) (\<lambda>rows. case row0 (take 1 rows) of
      None \<Rightarrow> Answered (Inl (JsError (''No tenant_encryption_keys row for tenant \"'' @ ?t @ ''\" at key_version '' @ show_nat n)))
    | Some row \<Rightarrow> andThen (call (unwrapAndCache P ?t n (tk_wrappedDek row))) (\<lambda>r. return (dek r)))) v'"
    proof (rule safe_key_step; (rule key_steps.safe_option)?)
      fix u rows u' row assume u: "key_grows P v' u" "?sel u = (Inr rows, u')" "key_grows P v' u'"
        and row: "row0 (take 1 rows) = Some row"
      have "rows = filter (\<lambda>r. tk_tenantId r = ?t \<and> tk_keyVersion r = n) (tenant_encryption_keys u')"
        using u(2) by (auto simp: select_Inr)
      then have s: "stored ?t n (tk_wrappedDek row) u'"
        using row row0_wrapped [of ?t n "tenant_encryption_keys u'"] by (simp add: stored_def)
      have iu: "dek_inv P u'" using inv_later [OF i' u(3)] .
      show "safe (key_grows P) (sound_dek P ?t n) (andThen (call (unwrapAndCache P ?t n (tk_wrappedDek row))) (\<lambda>r. return (dek r))) u'"
      proof (rule safe_key_step)
        fix z r z' assume "key_grows P u' z" "unwrapAndCache P ?t n (tk_wrappedDek row) z = (r, z')"
        then show "key_grows P z z'" using unwrap_step(1) [OF inv_later [OF iu] stored_later [OF iu _ s]] by blast
      next
        fix z r z' assume z: "key_grows P u' z" "unwrapAndCache P ?t n (tk_wrappedDek row) z = (Inr r, z')"
        show "safe (key_grows P) (sound_dek P ?t n) (return (dek r)) z'"
          using unwrap_step(2) [OF inv_later [OF iu z(1)] stored_later [OF iu z(1) s] z(2)] by (simp add: sound_dek_def)
      qed (simp add: sound_dek_def)
    qed (auto simp: sound_dek_def dest: leaves key_grows_leaves)
  qed
qed (simp add: sound_dek_def)

lemma safe_key:
  assumes "gcm_laws P" and "hkdf_laws P" and "dek_inv P w"
  shows "safe (key_grows P) (\<lambda>_ _. True) (key_process P q) w"
  by (cases q) (auto intro: key_steps.safe_andThen [OF safe_active [OF assms]] key_steps.safe_andThen [OF safe_version [OF assms(3)]])

interpretation key_races: rely_guarantee "key_grows P" "dek_inv P"
  "{p. gcm_laws P \<and> hkdf_laws P \<and> p \<in> range (key_process P)}" leaves_keys
proof
  show "dek_inv P w \<Longrightarrow> key_grows P w w' \<Longrightarrow> dek_inv P w'" for w w' by (rule inv_later)
  show "leaves_keys w w' \<Longrightarrow> key_grows P w w'" for w w' by (rule key_grows_leaves)
  show "dek_inv P w \<Longrightarrow> p \<in> {p. gcm_laws P \<and> hkdf_laws P \<and> p \<in> range (key_process P)} \<Longrightarrow>
      safe (key_grows P) (\<lambda>_ _. True) p w" for w p
    by (auto intro: safe_key)
qed

section \<open>What holds of every interleaving\<close>

definition key_pool ::
    "'r platform \<Rightarrow> 'r world \<times> ('r world, exn, key_answer) process list \<Rightarrow>
     'r world \<times> ('r world, exn, key_answer) process list \<Rightarrow> bool" where
  "key_pool P = (pool_step (range (key_process P)) leaves_keys)\<^sup>*\<^sup>*"

definition answers_key :: "'r platform \<Rightarrow> key_request \<Rightarrow> exn + key_answer \<Rightarrow> 'r world \<Rightarrow> bool" where
  "answers_key P q r w \<longleftrightarrow> (case q of
      NeedActive tid \<Rightarrow> (\<forall>x. r = Inr (ActiveKey x) \<longrightarrow> stands_for P (resolveTenantKeyId tid) (keyVersion x) (dek x) w)
    | NeedVersion tid n \<Rightarrow> (\<forall>d. r = Inr (VersionKey d) \<longrightarrow> stands_for P (resolveTenantKeyId tid) n d w))"

lemma stable_key: "stable (key_grows P) (dek_inv P) (answers_key P q r)"
  unfolding stable_def answers_key_def using stands_for_later by (auto split: key_request.splits)

lemma safe_key_answer:
  assumes "gcm_laws P" and "hkdf_laws P" and "dek_inv P w"
  shows "safe (key_grows P) (answers_key P q) (key_process P q) w"
proof (cases q)
  case (NeedActive tid)
  show ?thesis unfolding NeedActive key_process.simps
    by (rule key_steps.safe_andThen [OF safe_active [OF assms]]) (simp_all add: answers_key_def sound_key_def)
next
  case (NeedVersion tid n)
  show ?thesis unfolding NeedVersion key_process.simps
    by (rule key_steps.safe_andThen [OF safe_version [OF assms(3)]]) (simp_all add: answers_key_def sound_dek_def)
qed

text \<open>
  Whoever resolved a key holds the key the table stands for, and the table keeps every key it had.
\<close>

theorem interleaved_keys:
  assumes "gcm_laws P" and "hkdf_laws P" and "dek_inv P w"
    and "key_pool P (w, map (key_process P) qs) (w', ps')"
  shows "key_grows P w w' \<and> dek_inv P w' \<and> (\<forall>i < length qs. \<forall>r. ps' ! i = Answered r \<longrightarrow> answers_key P (qs ! i) r w')"
proof -
  have pool: "(pool_step {p. gcm_laws P \<and> hkdf_laws P \<and> p \<in> range (key_process P)} leaves_keys)\<^sup>*\<^sup>*
      (w, map (key_process P) qs) (w', ps')"
    using assms(1,2,4) by (simp add: key_pool_def)
  have all: "\<forall>p \<in> set (map (key_process P) qs). safe (key_grows P) (\<lambda>_ _. True) p w"
    using safe_key [OF assms(1-3)] by auto
  have "key_grows P w w'" using key_races.pool_safe [OF pool] assms(3) all by simp
  moreover have "answers_key P (qs ! i) r w'" if "i < length qs" "ps' ! i = Answered r" for i r
    by (rule key_races.interleaving [OF pool stable_key assms(3) all _ _ that(2)])
      (use that(1) safe_key_answer [OF assms(1-3)] in simp_all)
  ultimately show ?thesis using inv_later [OF assms(3)] by blast
qed

text \<open>
  C17. Whoever asks for the key of a tenant that had none gets the same key, at version 1, which the table
  stands for, however their requests interleave, with each other and with lookups for any tenants.
\<close>

theorem provisioning_agrees:
  assumes "gcm_laws P" and "hkdf_laws P" and "dek_inv P w"
    and "\<forall>r \<in> set (tenant_encryption_keys w). tk_tenantId r \<noteq> resolveTenantKeyId tid"
    and "key_pool P (w, map (key_process P) qs) (w', ps')"
    and "i < length qs" and "qs ! i = NeedActive tid" and "ps' ! i = Answered (Inr (ActiveKey x))"
    and "j < length qs" and "qs ! j = NeedActive tid" and "ps' ! j = Answered (Inr (ActiveKey y))"
  shows "x = y \<and> keyVersion x = 1 \<and> key_dek P (tenant_encryption_keys w') (resolveTenantKeyId tid) 1 = Some (dek x)"
proof -
  let ?t = "resolveTenantKeyId tid"
  note all = interleaved_keys [OF assms(1-3,5)]
  have x: "stands_for P ?t (keyVersion x) (dek x) w'" and y: "stands_for P ?t (keyVersion y) (dek y) w'"
    using all assms(6-11) by (auto simp: answers_key_def)
  have none: "wrapped_of (tenant_encryption_keys w) (?t, v) = None" for v
    using assms(4) wrapped_of_in by (metis not_None_eq)
  have new: "wrapped_of (tenant_encryption_keys w') (?t, v) = None" if "v \<noteq> 1" for v
    using all assms(3) none [of v] that by (simp add: key_grows_def)
  have "v = 1" if "stands_for P ?t v d w'" for v d
  proof (rule ccontr)
    assume "v \<noteq> 1"
    from new [OF this] that show False by (simp add: stands_for_def key_dek_def)
  qed
  with x y have "keyVersion x = 1" "keyVersion y = 1" by blast+
  then show ?thesis using x y by (auto simp: stands_for_def)
qed

text \<open>
  Two requests that both find no row, draw different keys and both try to insert theirs; the second
  insert comes after the first.
\<close>

definition key_world :: "mem_redis world" where
  "key_world = world0\<lparr>entropy := (\<lambda>n k. of_nat (7 * n + k))\<rparr>"

definition raced :: "mem_redis world \<times> (mem_redis world, exn, key_answer) process list" where
  "raced = schedule [0, 1, 0, 1, 0, 1, 0, 1, 1, 1] (key_world, map (key_process demo) [NeedActive None, NeedActive None])"

fun active_answer :: "(mem_redis world, exn, key_answer) process \<Rightarrow> resolved_dek option" where
  "active_answer (Answered (Inr (ActiveKey x))) = Some x"
| "active_answer _ = None"

lemma active_answer_Some: "active_answer p = Some x \<longleftrightarrow> p = Answered (Inr (ActiveKey x))"
  by (cases p rule: active_answer.cases) auto

lemma raced_answers: "list_all (\<lambda>p. active_answer p \<noteq> None) (snd raced) \<and> length (snd raced) = 2"
  by code_simp

lemma provisioning_agrees_witness:
  "\<exists>x. snd raced ! 0 = Answered (Inr (ActiveKey x)) \<and> snd raced ! 1 = Answered (Inr (ActiveKey x)) \<and>
     key_dek demo (tenant_encryption_keys (fst raced)) (resolveTenantKeyId None) 1 = Some (dek x)"
proof -
  obtain x y where x: "snd raced ! 0 = Answered (Inr (ActiveKey x))" and y: "snd raced ! 1 = Answered (Inr (ActiveKey y))"
    using raced_answers by (force simp: list_all_length active_answer_Some)
  have pool: "key_pool demo (key_world, map (key_process demo) [NeedActive None, NeedActive None]) (fst raced, snd raced)"
    unfolding key_pool_def raced_def prod.collapse by (rule schedule_steps)
  have inv: "dek_inv demo key_world" using dek_inv_world0 by (simp add: key_world_def dek_inv_def caches_ok_def)
  have "x = y \<and> keyVersion x = 1 \<and>
      key_dek demo (tenant_encryption_keys (fst raced)) (resolveTenantKeyId None) 1 = Some (dek x)"
    by (rule provisioning_agrees [OF demo_gcm demo_hkdf_laws inv _ pool, where i = 0 and j = 1])
      (use x y in \<open>simp_all add: key_world_def world0_def\<close>)
  with x y show ?thesis by auto
qed

end
