(* ===== verification/Config.thy ===== *)
theory Config
  imports Proxy
begin

text \<open>
  The configuration read at startup: \<open>src/config/env.ts\<close>, \<open>src/config/routes.ts\<close> and
  \<open>src/schemas/route.schemas.ts\<close>. A failure (\<open>Inl\<close>) is the text the process prints before it
  exits with status 1. The issue texts the source does not name are zod's, abbreviated; beside a
  field's own issues zod may also report the one of the final \<open>refine\<close>.
\<close>

section \<open>Number (s)\<close>

text \<open>
  What \<open>Number\<close> makes of a text, as a decimal \<open>m * 10 ^ e\<close>; \<open>None\<close> when it is \<open>NaN\<close> or
  \<open>Infinity\<close>. Values are exact: the rounding of long decimals to a double is not modelled.
\<close>

fun radix_value :: "nat \<Rightarrow> string \<Rightarrow> nat \<Rightarrow> nat option" where
  "radix_value b [] n = Some n"
| "radix_value b (c # s) n = (case hex_value (lower_char c) of None \<Rightarrow> None
     | Some d \<Rightarrow> if d < b then radix_value b s (b * n + d) else None)"

definition radix_of :: "string \<Rightarrow> nat option" where
  "radix_of s = (let p = toLowerCase (take 2 s) in
     if p = ''0x'' then Some 16 else if p = ''0o'' then Some 8 else if p = ''0b'' then Some 2 else None)"

definition read_decimal :: "string \<Rightarrow> (int \<times> int) option" where
  "read_decimal s = (let neg = take 1 s = ''-''; r = (if neg \<or> take 1 s = ''+'' then drop 1 s else s) in
     case read_digits r of (ds, r1) \<Rightarrow>
     case (if take 1 r1 = ''.'' then read_digits (drop 1 r1) else ([], r1)) of (fs, r2) \<Rightarrow>
       if ds @ fs = [] then None
       else (case read_exp r2 of Some (e, []) \<Rightarrow>
           let m = int (parse_nat (ds @ fs)) in Some (if neg then - m else m, e - int (length fs))
         | _ \<Rightarrow> None))"

definition js_number :: "string \<Rightarrow> (int \<times> int) option" where
  "js_number v = (let s = trim v in
     if s = [] then Some (0, 0)
     else case radix_of s of
         Some b \<Rightarrow> if drop 2 s = [] then None else map_option (\<lambda>n. (int n, 0)) (radix_value b (drop 2 s) 0)
       | None \<Rightarrow> read_decimal s)"

text \<open>\<open>Number.isInteger\<close>, with the value: no fraction, and below the largest double.\<close>

definition integer_of :: "int \<times> int \<Rightarrow> int option" where
  "integer_of d = (case d of (m, e) \<Rightarrow>
     let v = (if 0 \<le> e then Some (m * 10 ^ nat e)
              else if m mod 10 ^ nat (- e) = 0 then Some (m div 10 ^ nat (- e)) else None)
     in case v of Some n \<Rightarrow> if \<bar>n\<bar> < 2 ^ 1024 - 2 ^ 970 then Some n else None | None \<Rightarrow> None)"

definition at_most :: "int \<times> int \<Rightarrow> int \<Rightarrow> bool" where
  "at_most d n = (case d of (m, e) \<Rightarrow> if 0 \<le> e then m * 10 ^ nat e \<le> n else m \<le> n * 10 ^ nat (- e))"

text \<open>\<open>.number().int().positive()\<close>, and \<open>.max (n)\<close> where there is one.\<close>

definition check_positive_int :: "string \<Rightarrow> int option \<Rightarrow> (int \<times> int) option \<Rightarrow> details + int" where
  "check_positive_int k upper v = (case v of None \<Rightarrow> Inl [(k, ''Expected number'')]
     | Some d \<Rightarrow>
       let found = (if integer_of d = None then [(k, ''Expected integer'')] else []) @
          (if fst d \<le> 0 then [(k, ''Number must be greater than 0'')] else []) @
          (case upper of Some n \<Rightarrow> if \<not> at_most d n then [(k, ''Number must be less than or equal to '' @ show_int n)] else []
            | None \<Rightarrow> [])
       in if found = [] then Inr (the (integer_of d)) else Inl found)"

section \<open>src/config/env.ts\<close>

definition env_field :: "string option \<Rightarrow> field" where
  "env_field v = (case v of None \<Rightarrow> Missing | Some s \<Rightarrow> Str s)"

definition coerced_int :: "(string \<Rightarrow> string option) \<Rightarrow> string \<Rightarrow> int \<Rightarrow> details + int" where
  "coerced_int vars k def = (case vars k of None \<Rightarrow> Inr def | Some s \<Rightarrow> check_positive_int k None (js_number s))"

definition enum_of :: "(string \<Rightarrow> string option) \<Rightarrow> string \<Rightarrow> string list \<Rightarrow> string \<Rightarrow> details + string" where
  "enum_of vars k values def = (case vars k of None \<Rightarrow> Inr def
     | Some s \<Rightarrow> if s \<in> set values then Inr s else Inl [(k, ''Invalid enum value'')])"

definition defaulted :: "(string \<Rightarrow> string option) \<Rightarrow> string \<Rightarrow> string \<Rightarrow> (string \<Rightarrow> details) \<Rightarrow> details + string" where
  "defaulted vars k def checks = (case vars k of None \<Rightarrow> Inr def | Some s \<Rightarrow> check_string k (Str s) checks)"

definition non_empty :: "string \<Rightarrow> string \<Rightarrow> details" where
  "non_empty k s = (if length s < 1 then [(k, k @ '' is required'')] else [])"

definition is_url :: "(string \<Rightarrow> bool) \<Rightarrow> string \<Rightarrow> string \<Rightarrow> string \<Rightarrow> details" where
  "is_url url k m s = (if \<not> url s then [(k, m)] else [])"

definition allowed_origins :: "string option \<Rightarrow> string list" where
  "allowed_origins v = (if truthy v then map trim (split_on (CHR '','') (the v)) else [])"

definition EnvSchema :: "(string \<Rightarrow> bool) \<Rightarrow> (string \<Rightarrow> string option) \<Rightarrow> details + env" where
  "EnvSchema url vars = (let
     required = (\<lambda>k checks. check_string k (env_field (vars k)) checks);
     port = coerced_int vars ''PORT'' 3000;
     node_env = enum_of vars ''NODE_ENV'' [''development'', ''production'', ''test''] ''development'';
     base_url = defaulted vars ''GATEWAY_BASE_URL'' ''http://localhost:3000'' (is_url url ''GATEWAY_BASE_URL'' ''Invalid url'');
     database = required ''DATABASE_URL'' (is_url url ''DATABASE_URL'' ''DATABASE_URL must be a valid postgres:// URL'');
     redis_url = required ''REDIS_URL'' (is_url url ''REDIS_URL'' ''REDIS_URL must be a valid redis:// URL'');
     private_key = required ''JWT_PRIVATE_KEY_PATH'' (non_empty ''JWT_PRIVATE_KEY_PATH'');
     public_key = required ''JWT_PUBLIC_KEY_PATH'' (non_empty ''JWT_PUBLIC_KEY_PATH'');
     algorithm = enum_of vars ''JWT_ALGORITHM'' [''RS256'', ''RS384'', ''ES256'', ''ES384''] ''RS256'';
     kid = required ''JWT_KID'' (non_empty ''JWT_KID'');
     access_ttl = coerced_int vars ''ACCESS_TOKEN_TTL_SECONDS'' 900;
     refresh_ttl = coerced_int vars ''REFRESH_TOKEN_TTL_SECONDS'' 604800;
     scope = defaulted vars ''DEFAULT_USER_SCOPE'' ''openid profile email api:read'' (non_empty ''DEFAULT_USER_SCOPE'');
     encryption_key = required ''ENCRYPTION_KEY'' (\<lambda>v. non_empty ''ENCRYPTION_KEY'' v @
       (if length (base64_decode v) \<noteq> 32 then [(''ENCRYPTION_KEY'', ''ENCRYPTION_KEY must be 32 bytes, base64-encoded'')] else []));
     saml_url = optional_string ''SAML_SP_CALLBACK_URL'' (env_field (vars ''SAML_SP_CALLBACK_URL''))
       (is_url url ''SAML_SP_CALLBACK_URL'' ''Invalid url'');
     routes_path = required ''UPSTREAM_SERVICES_CONFIG_PATH'' (non_empty ''UPSTREAM_SERVICES_CONFIG_PATH'');
     window = coerced_int vars ''RATE_LIMIT_WINDOW_MS'' 60000;
     quota = coerced_int vars ''RATE_LIMIT_MAX_REQUESTS'' 100;
     level = enum_of vars ''LOG_LEVEL'' [''error'', ''warn'', ''info'', ''debug''] ''info'';
     found = issues port @ issues node_env @ issues base_url @ issues database @ issues redis_url @
       issues private_key @ issues public_key @ issues algorithm @ issues kid @ issues access_ttl @
       issues refresh_ttl @ issues scope @ issues encryption_key @ issues saml_url @ issues routes_path @
       issues window @ issues quota @ issues level
   in if found \<noteq> [] then Inl found
      else if truthy (vars ''JWT_PREVIOUS_KID'') \<noteq> truthy (vars ''JWT_PREVIOUS_PUBLIC_KEY_PATH'')
      then Inl [(''JWT_PREVIOUS_KID'', ''JWT_PREVIOUS_KID and JWT_PREVIOUS_PUBLIC_KEY_PATH must be set together, or neither'')]
      else Inr \<lparr>PORT = projr port, NODE_ENV = projr node_env,
        ALLOWED_ORIGINS = allowed_origins (vars ''ALLOWED_ORIGINS''), GATEWAY_BASE_URL = projr base_url,
        DATABASE_URL = projr database, REDIS_URL = projr redis_url, JWT_PRIVATE_KEY_PATH = projr private_key,
        JWT_PUBLIC_KEY_PATH = projr public_key, JWT_ALGORITHM = projr algorithm, JWT_KID = projr kid,
        JWT_PREVIOUS_KID = vars ''JWT_PREVIOUS_KID'',
        JWT_PREVIOUS_PUBLIC_KEY_PATH = vars ''JWT_PREVIOUS_PUBLIC_KEY_PATH'',
        ACCESS_TOKEN_TTL_SECONDS = projr access_ttl, REFRESH_TOKEN_TTL_SECONDS = projr refresh_ttl,
        DEFAULT_USER_SCOPE = projr scope, ENCRYPTION_KEY = projr encryption_key,
        SAML_SP_ENTITY_ID = vars ''SAML_SP_ENTITY_ID'', SAML_SP_CALLBACK_URL = projr saml_url,
        UPSTREAM_SERVICES_CONFIG_PATH = projr routes_path, RATE_LIMIT_WINDOW_MS = projr window,
        RATE_LIMIT_MAX_REQUESTS = projr quota, LOG_LEVEL = projr level\<rparr>)"

definition issue_lines :: "details \<Rightarrow> string" where
  "issue_lines d = join [CHR 0x0A] (map (\<lambda>(k, m). ''  ['' @ k @ ''] '' @ m) d)"

definition parseEnv :: "(string \<Rightarrow> bool) \<Rightarrow> (string \<Rightarrow> string option) \<Rightarrow> string + env" where
  "parseEnv url vars = map_sum issue_lines id (EnvSchema url vars)"

section \<open>src/schemas/route.schemas.ts\<close>

definition required_bool :: "string \<Rightarrow> json option \<Rightarrow> details + bool" where
  "required_bool k v = (case v of None \<Rightarrow> Inl [(k, ''Required'')] | Some (JBool b) \<Rightarrow> Inr b
     | Some _ \<Rightarrow> Inl [(k, ''Expected boolean'')])"

text \<open>\<open>.nullable ()\<close> and \<open>.optional ().default (d)\<close>.\<close>

definition nullable :: "(string \<Rightarrow> json option \<Rightarrow> details + 'a) \<Rightarrow> string \<Rightarrow> json option \<Rightarrow> details + 'a option" where
  "nullable check k v = (case v of Some JNull \<Rightarrow> Inr None | _ \<Rightarrow> map_sum id Some (check k v))"

definition or_default :: "'a \<Rightarrow> (string \<Rightarrow> json option \<Rightarrow> details + 'a) \<Rightarrow> string \<Rightarrow> json option \<Rightarrow> details + 'a" where
  "or_default def check k v = (case v of None \<Rightarrow> Inr def | _ \<Rightarrow> check k v)"

definition required_string :: "(string \<Rightarrow> details) \<Rightarrow> string \<Rightarrow> json option \<Rightarrow> details + string" where
  "required_string checks k v = check_string k (case v of None \<Rightarrow> Missing | Some (JStr s) \<Rightarrow> Str s | Some _ \<Rightarrow> NotString) checks"

definition number_of :: "json \<Rightarrow> (int \<times> int) option" where
  "number_of v = (case v of JNum m e \<Rightarrow> Some (m, e) | _ \<Rightarrow> None)"

definition required_int :: "int option \<Rightarrow> string \<Rightarrow> json option \<Rightarrow> details + int" where
  "required_int upper k v = (case v of None \<Rightarrow> Inl [(k, ''Required'')] | Some x \<Rightarrow> check_positive_int k upper (number_of x))"

fun string_items :: "string \<Rightarrow> nat \<Rightarrow> json list \<Rightarrow> details + string list" where
  "string_items k i [] = Inr []"
| "string_items k i (v # vs) = (case (v, string_items k (Suc i) vs) of
       (JStr s, Inr ss) \<Rightarrow> Inr (s # ss)
     | (JStr s, Inl d) \<Rightarrow> Inl d
     | (_, rest) \<Rightarrow> Inl ((k @ ''.'' @ show_nat i, ''Expected string'') # issues rest))"

definition required_strings :: "string \<Rightarrow> json option \<Rightarrow> details + string list" where
  "required_strings k v = (case v of None \<Rightarrow> Inl [(k, ''Required'')] | Some (JArr vs) \<Rightarrow> string_items k 0 vs
     | Some _ \<Rightarrow> Inl [(k, ''Expected array'')])"

definition routeConfigSchema :: "(string \<Rightarrow> bool) \<Rightarrow> json \<Rightarrow> details + route_config" where
  "routeConfigSchema url v = (if \<not> is_object v then Inl [([], ''Expected object'')] else let
     path = required_string (\<lambda>s. if length s < 1 then [(''path'', ''path is required'')] else []) ''path'' (member ''path'' v);
     upstream_url = required_string (is_url url ''upstream'' ''upstream must be a valid URL'') ''upstream'' (member ''upstream'' v);
     auth = required_bool ''auth_required'' (member ''auth_required'' v);
     scope = nullable (required_string (\<lambda>_. [])) ''required_scope'' (member ''required_scope'' v);
     roles = nullable required_strings ''allowed_roles'' (member ''allowed_roles'' v);
     limit = nullable (required_int (Some 100000)) ''rate_limit_override'' (member ''rate_limit_override'' v);
     strip = required_bool ''strip_prefix'' (member ''strip_prefix'' v);
     timeout = or_default 30000 (required_int None) ''timeout_ms'' (member ''timeout_ms'' v);
     audit = or_default False required_bool ''audit_allowed_requests'' (member ''audit_allowed_requests'' v);
     found = issues path @ issues upstream_url @ issues auth @ issues scope @ issues roles @ issues limit @
       issues strip @ issues timeout @ issues audit
   in if found \<noteq> [] then Inl found
      else Inr \<lparr>rc_path = projr path, rc_upstream = projr upstream_url, rc_auth_required = projr auth,
        rc_required_scope = projr scope, rc_allowed_roles = projr roles, rc_rate_limit_override = projr limit,
        rc_strip_prefix = projr strip, rc_timeout_ms = projr timeout, rc_audit_allowed_requests = projr audit\<rparr>)"

text \<open>\<open>z.array\<close>: the issues of all entries, or all entries.\<close>

fun route_entries :: "(string \<Rightarrow> bool) \<Rightarrow> nat \<Rightarrow> json list \<Rightarrow> details + route_config list" where
  "route_entries url i [] = Inr []"
| "route_entries url i (v # vs) = (case (routeConfigSchema url v, route_entries url (Suc i) vs) of
       (Inr r, Inr rs) \<Rightarrow> Inr (r # rs)
     | (a, b) \<Rightarrow> Inl (map (\<lambda>(k, m). (show_nat i @ (if k = [] then [] else ''.'' @ k), m)) (issues a) @ issues b))"

definition routeConfigListSchema :: "(string \<Rightarrow> bool) \<Rightarrow> json \<Rightarrow> details + route_config list" where
  "routeConfigListSchema url v = (case v of JArr vs \<Rightarrow> route_entries url 0 vs | _ \<Rightarrow> Inl [([], ''Expected array'')])"

section \<open>src/config/routes.ts\<close>

text \<open>The text of a failed \<open>JSON.parse\<close> is the engine's; here it is a constant.\<close>

definition loadRouteConfig :: "'r platform \<Rightarrow> string + route_config list" where
  "loadRouteConfig P = (case readFile P (UPSTREAM_SERVICES_CONFIG_PATH (env P)) of
       Inl e \<Rightarrow> Inl e
     | Inr raw \<Rightarrow> (case parse raw of
         None \<Rightarrow> Inl ''JSON syntax error''
       | Some v \<Rightarrow> (case routeConfigListSchema (zodUrl P) v of
           Inl d \<Rightarrow> Inl (''Route configuration failed validation:'' @ CHR 0x0A # issue_lines d)
         | Inr routes \<Rightarrow> Inr routes)))"

end
