(* ===== verification/ConfigProofs.thy ===== *)
theory ConfigProofs
  imports Config AuthRoutes Demo
begin

text \<open>
  What a configuration that was accepted guarantees to the rest of the gateway, and that a
  well-formed one is read back as it was written.
\<close>

section \<open>Numbers\<close>

lemma integer_of_pos: "integer_of (m, e) = Some n \<Longrightarrow> 0 < m \<Longrightarrow> 0 < n"
proof (cases "0 \<le> e")
  case True
  assume "integer_of (m, e) = Some n" "0 < m"
  with True show ?thesis by (auto simp: integer_of_def Let_def split: if_splits)
next
  case False
  assume i: "integer_of (m, e) = Some n" and m: "0 < m"
  let ?d = "10 ^ nat (- e) :: int"
  from i False have n: "m mod ?d = 0" "n = m div ?d" by (auto simp: integer_of_def Let_def split: if_splits)
  then have "n * ?d = m" using div_mult_mod_eq [of m ?d] by simp
  then show ?thesis using m by (metis mult_nonpos_nonneg not_le zero_le_numeral zero_le_power)
qed

lemma integer_of_at_most: "integer_of (m, e) = Some n \<Longrightarrow> at_most (m, e) u \<Longrightarrow> n \<le> u"
proof (cases "0 \<le> e")
  case True
  assume "integer_of (m, e) = Some n" "at_most (m, e) u"
  with True show ?thesis by (auto simp: integer_of_def at_most_def Let_def split: if_splits)
next
  case False
  assume i: "integer_of (m, e) = Some n" and a: "at_most (m, e) u"
  let ?d = "10 ^ nat (- e) :: int"
  from i False have n: "m mod ?d = 0" "n = m div ?d" by (auto simp: integer_of_def Let_def split: if_splits)
  then have "n * ?d = m" using div_mult_mod_eq [of m ?d] by simp
  with a False have "n * ?d \<le> u * ?d" by (simp add: at_most_def)
  then show ?thesis by simp
qed

lemma check_positive_int_ok:
  assumes "check_positive_int k upper v = Inr n"
  shows "0 < n \<and> (\<forall>u. upper = Some u \<longrightarrow> n \<le> u)"
proof -
  obtain m e where "v = Some (m, e)" and i: "integer_of (m, e) = Some n" and m: "0 < m"
    and u: "case upper of Some u \<Rightarrow> at_most (m, e) u | None \<Rightarrow> True"
    using assms by (auto simp: check_positive_int_def Let_def split: option.splits if_splits)
  then show ?thesis using integer_of_pos [OF i m] integer_of_at_most [OF i] by (auto split: option.splits)
qed

lemma check_positive_int_Inr:
  assumes "0 < n" and "n < 2 ^ 1024 - 2 ^ 970" and "\<forall>u. upper = Some u \<longrightarrow> n \<le> u"
  shows "check_positive_int k upper (Some (n, 0)) = Inr n"
  using assms by (auto simp: check_positive_int_def integer_of_def at_most_def Let_def simp del: power_numeral split: option.split)

section \<open>The environment\<close>

definition well_formed_env :: "(string \<Rightarrow> bool) \<Rightarrow> env \<Rightarrow> bool" where
  "well_formed_env url e \<longleftrightarrow> 0 < PORT e \<and> 0 < ACCESS_TOKEN_TTL_SECONDS e \<and> 0 < REFRESH_TOKEN_TTL_SECONDS e \<and>
     0 < RATE_LIMIT_WINDOW_MS e \<and> 0 < RATE_LIMIT_MAX_REQUESTS e \<and>
     length (base64_decode (ENCRYPTION_KEY e)) = 32 \<and> JWT_KID e \<noteq> [] \<and> JWT_PRIVATE_KEY_PATH e \<noteq> [] \<and>
     JWT_PUBLIC_KEY_PATH e \<noteq> [] \<and> url (DATABASE_URL e) \<and> url (REDIS_URL e) \<and>
     JWT_ALGORITHM e \<in> {''RS256'', ''RS384'', ''ES256'', ''ES384''} \<and>
     NODE_ENV e \<in> {''development'', ''production'', ''test''} \<and>
     (truthy (JWT_PREVIOUS_KID e) \<longleftrightarrow> truthy (JWT_PREVIOUS_PUBLIC_KEY_PATH e)) \<and>
     (\<forall>x \<in> set (ALLOWED_ORIGINS e). trim x = x)"

text \<open>A field without issues has its value.\<close>

lemma issues_simps [simp]: "issues (Inl d) = d" "issues (Inr x) = []"
  by (simp_all add: issues_def)

lemma coerced_int_ok:
  assumes "issues (coerced_int vars k def) = []" and "0 < def"
  shows "0 < projr (coerced_int vars k def)"
proof (cases "vars k")
  case None
  with assms(2) show ?thesis by (simp add: coerced_int_def)
next
  case (Some s)
  obtain r where r: "check_positive_int k None (js_number s) = r" by simp
  with assms(1) Some have "issues r = []" by (simp add: coerced_int_def)
  moreover have "r \<noteq> Inl []" using r by (auto simp: check_positive_int_def Let_def split: option.splits if_splits)
  ultimately obtain n where "r = Inr n" by (cases r) auto
  with r check_positive_int_ok Some show ?thesis by (fastforce simp: coerced_int_def)
qed

lemma enum_ok: "issues (enum_of vars k vs def) = [] \<Longrightarrow> def \<in> set vs \<Longrightarrow> projr (enum_of vars k vs def) \<in> set vs"
  by (auto simp: enum_of_def split: option.splits if_splits)

lemma check_string_ok: "issues (check_string k f c) = [] \<Longrightarrow> c (projr (check_string k f c)) = []"
  by (cases f) (auto split: if_splits)

lemma non_empty_Nil: "non_empty k s = [] \<longleftrightarrow> s \<noteq> []"
  by (simp add: non_empty_def)

lemma is_url_Nil: "is_url url k m s = [] \<longleftrightarrow> url s"
  by (simp add: is_url_def)

lemma required_ok: "issues (check_string k f (non_empty k)) = [] \<Longrightarrow> projr (check_string k f (non_empty k)) \<noteq> []"
  using check_string_ok [of k f "non_empty k"] by (simp add: non_empty_Nil)

lemma url_ok: "issues (check_string k f (is_url url k m)) = [] \<Longrightarrow> url (projr (check_string k f (is_url url k m)))"
  using check_string_ok [of k f "is_url url k m"] by (simp add: is_url_Nil)

lemma key_ok:
  "issues (check_string k f (\<lambda>v. c v @ (if length (base64_decode v) \<noteq> n then [d] else []))) = [] \<Longrightarrow>
     length (base64_decode (projr (check_string k f (\<lambda>v. c v @ (if length (base64_decode v) \<noteq> n then [d] else []))))) = n"
  using check_string_ok [of k f "\<lambda>v. c v @ (if length (base64_decode v) \<noteq> n then [d] else [])"] by (simp split: if_splits)

lemma allowed_trimmed: "x \<in> set (allowed_origins v) \<Longrightarrow> trim x = x"
  by (auto simp: allowed_origins_def trim_idem split: if_splits)

lemma accepted_iff: "(if f \<noteq> [] then Inl f else if b then Inl d else Inr x) = Inr y \<longleftrightarrow> f = [] \<and> \<not> b \<and> y = x"
  by auto

lemma EnvSchema_ok:
  assumes "EnvSchema url vars = Inr e"
  shows "well_formed_env url e"
proof -
  note ok = assms [unfolded EnvSchema_def Let_def, unfolded accepted_iff, unfolded append_is_Nil_conv]
  have num: "0 < PORT e" "0 < ACCESS_TOKEN_TTL_SECONDS e" "0 < REFRESH_TOKEN_TTL_SECONDS e" "0 < RATE_LIMIT_WINDOW_MS e"
    "0 < RATE_LIMIT_MAX_REQUESTS e" using ok by (simp_all add: coerced_int_ok)
  have enums: "JWT_ALGORITHM e \<in> {''RS256'', ''RS384'', ''ES256'', ''ES384''}"
    "NODE_ENV e \<in> {''development'', ''production'', ''test''}"
    using ok enum_ok [of vars "''JWT_ALGORITHM''" "[''RS256'', ''RS384'', ''ES256'', ''ES384'']" "''RS256''"]
      enum_ok [of vars "''NODE_ENV''" "[''development'', ''production'', ''test'']" "''development''"] by simp_all
  have str: "JWT_KID e \<noteq> []" "JWT_PRIVATE_KEY_PATH e \<noteq> []" "JWT_PUBLIC_KEY_PATH e \<noteq> []" "url (DATABASE_URL e)"
    "url (REDIS_URL e)" "length (base64_decode (ENCRYPTION_KEY e)) = 32"
    using ok by (simp_all only: required_ok url_ok key_ok env.simps simp_thms)
  show ?thesis unfolding well_formed_env_def using num enums str ok allowed_trimmed by simp
qed

lemma parseEnv_Inr: "parseEnv url vars = Inr e \<longleftrightarrow> EnvSchema url vars = Inr e"
  by (cases "EnvSchema url vars") (simp_all add: parseEnv_def)

text \<open>
  C37. A gateway that starts has a usable environment: positive port, token lifetimes, window and
  quota; a 32-byte encryption key; the key files and the key id named; an algorithm of the four
  supported; a previous key id together with its key file or neither; origins without blanks around
  them. Anything else ends the process.
\<close>

theorem parseEnv_well_formed:
  assumes "parseEnv url vars = Inr e"
  shows "0 < PORT e \<and> 0 < ACCESS_TOKEN_TTL_SECONDS e \<and> 0 < REFRESH_TOKEN_TTL_SECONDS e \<and>
     0 < RATE_LIMIT_WINDOW_MS e \<and> 0 < RATE_LIMIT_MAX_REQUESTS e \<and>
     length (base64_decode (ENCRYPTION_KEY e)) = 32 \<and> JWT_KID e \<noteq> [] \<and> JWT_PRIVATE_KEY_PATH e \<noteq> [] \<and>
     JWT_PUBLIC_KEY_PATH e \<noteq> [] \<and> url (DATABASE_URL e) \<and> url (REDIS_URL e) \<and>
     JWT_ALGORITHM e \<in> {''RS256'', ''RS384'', ''ES256'', ''ES384''} \<and>
     NODE_ENV e \<in> {''development'', ''production'', ''test''} \<and>
     (truthy (JWT_PREVIOUS_KID e) \<longleftrightarrow> truthy (JWT_PREVIOUS_PUBLIC_KEY_PATH e)) \<and>
     (\<forall>x \<in> set (ALLOWED_ORIGINS e). trim x = x)"
  using assms EnvSchema_ok unfolding parseEnv_Inr well_formed_env_def by blast

definition demo_vars :: "string \<Rightarrow> string option" where
  "demo_vars = map_of [(''PORT'', ''8080''), (''ALLOWED_ORIGINS'', ''https://a, https://b''), (''DATABASE_URL'', ''postgres://db''),
     (''REDIS_URL'', ''redis://r''), (''JWT_PRIVATE_KEY_PATH'', ''priv''), (''JWT_PUBLIC_KEY_PATH'', ''pub''),
     (''JWT_KID'', ''k1''), (''ENCRYPTION_KEY'', base64 (replicate 32 0)), (''UPSTREAM_SERVICES_CONFIG_PATH'', ''routes'')]"

lemma demo_port: "coerced_int demo_vars ''PORT'' 3000 = Inr 8080"
  by code_simp

lemma demo_parse: "\<exists>e. parseEnv (\<lambda>_. True) demo_vars = Inr e"
proof -
  have key: "base64 (replicate 32 0) \<noteq> []"
    using base64_decode_base64 [of "replicate 32 0"] by (auto simp del: base64_decode_base64 simp: base64_decode_def List.map_filter_simps)
  have port: "issues (coerced_int demo_vars ''PORT'' 3000) = []" unfolding demo_port by simp
  have "EnvSchema (\<lambda>_. True) demo_vars \<noteq> Inl d" for d
    unfolding EnvSchema_def Let_def if_not_P using port
    by (auto simp: demo_vars_def coerced_int_def enum_of_def defaulted_def env_field_def non_empty_def is_url_def truthy_def key)
  then show ?thesis unfolding parseEnv_Inr by (cases "EnvSchema (\<lambda>_. True) demo_vars") auto
qed

lemma parseEnv_well_formed_witness:
  "\<exists>e. parseEnv (\<lambda>_. True) demo_vars = Inr e \<and> 0 < PORT e \<and> length (base64_decode (ENCRYPTION_KEY e)) = 32"
  using demo_parse parseEnv_well_formed [of "\<lambda>_. True" demo_vars] by blast

text \<open>A number in decimal digits is read as it is written.\<close>

lemma digit_not_space: "is_digit c \<Longrightarrow> \<not> js_space c"
  by (auto simp: is_digit_def js_space_def Let_def)

lemma trim_solid_all: "(\<And>c. c \<in> set s \<Longrightarrow> \<not> js_space c) \<Longrightarrow> trim s = s"
proof -
  assume ns: "\<And>c. c \<in> set s \<Longrightarrow> \<not> js_space c"
  have "dropWhile js_space xs = xs" if "set xs \<subseteq> set s" for xs
    using that ns by (cases xs) auto
  then show ?thesis by (simp add: trim_def)
qed

lemma lower_digit: "is_digit c \<Longrightarrow> lower_char c = c"
  by (auto simp: is_digit_def lower_char_def Let_def)

lemma radix_digits:
  assumes "\<And>c. c \<in> set s \<Longrightarrow> is_digit c"
  shows "radix_of s = None"
proof -
  have "toLowerCase (take 2 s) = take 2 s"
    using assms lower_digit by (auto simp: toLowerCase_def intro!: map_idI dest: in_set_takeD)
  moreover have "CHR ''x'' \<notin> set s" "CHR ''o'' \<notin> set s" "CHR ''b'' \<notin> set s"
    using assms [of "CHR ''x''"] assms [of "CHR ''o''"] assms [of "CHR ''b''"] by (auto simp: is_digit_def)
  then have "CHR ''x'' \<notin> set (take 2 s)" "CHR ''o'' \<notin> set (take 2 s)" "CHR ''b'' \<notin> set (take 2 s)"
    by (meson in_set_takeD)+
  ultimately show ?thesis by (auto simp: radix_of_def Let_def)
qed

lemma js_number_show: "0 < n \<Longrightarrow> js_number (show_int n) = Some (n, 0)"
proof -
  assume n: "0 < n"
  let ?s = "show_nat (nat n)"
  have d: "c \<in> set ?s \<Longrightarrow> is_digit c" for c by (rule show_nat_digits)
  have "trim ?s = ?s" using d digit_not_space by (intro trim_solid_all) blast
  moreover have "radix_of ?s = None" using d by (rule radix_digits)
  moreover have "read_decimal ?s = Some (n, 0)"
  proof -
    have "take 1 ?s \<noteq> ''-''" "take 1 ?s \<noteq> ''+''" using show_nat_hd [of "nat n"] by (auto simp: is_digit_def)
    moreover have "read_digits ?s = (?s, [])" using d by (simp add: read_digits_def takeWhile_eq_all_conv dropWhile_eq_Nil_conv)
    ultimately show ?thesis using n by (simp add: read_decimal_def Let_def read_exp_def)
  qed
  ultimately show ?thesis using n by (simp add: js_number_def Let_def show_int_def)
qed

text \<open>\<open>x\<close> is what variable \<open>k\<close> says, or the default where it is not set.\<close>

definition as_written :: "(string \<Rightarrow> string option) \<Rightarrow> string \<Rightarrow> int \<Rightarrow> int \<Rightarrow> bool" where
  "as_written vars k def x \<longleftrightarrow> (case vars k of None \<Rightarrow> x = def
     | Some s \<Rightarrow> \<forall>n. s = show_int n \<longrightarrow> 0 < n \<longrightarrow> n < 10 ^ 15 \<longrightarrow> x = n)"

lemma coerced_as_written: "as_written vars k def (projr (coerced_int vars k def))"
proof -
  have "check_positive_int k None (js_number (show_int n)) = Inr n" if n: "0 < n" "n < 10 ^ 15" for n
  proof -
    have "(10 :: int) ^ 15 \<le> 2 ^ 1024 - 2 ^ 970" by simp
    then have "n < 2 ^ 1024 - 2 ^ 970" using n(2) by (rule less_le_trans [rotated])
    then show ?thesis unfolding js_number_show [OF n(1)] by (intro check_positive_int_Inr n) simp_all
  qed
  then show ?thesis by (auto simp: as_written_def coerced_int_def split: option.split)
qed

text \<open>
  The numeric settings are what the environment says: a positive number written in decimal
  digits (below \<open>10 ^ 15\<close>) is taken as it is, and a variable that is not set gives the documented default.
\<close>

theorem env_numbers_as_written:
  assumes "parseEnv url vars = Inr e"
  shows "as_written vars ''PORT'' 3000 (PORT e) \<and>
    as_written vars ''ACCESS_TOKEN_TTL_SECONDS'' 900 (ACCESS_TOKEN_TTL_SECONDS e) \<and>
    as_written vars ''REFRESH_TOKEN_TTL_SECONDS'' 604800 (REFRESH_TOKEN_TTL_SECONDS e) \<and>
    as_written vars ''RATE_LIMIT_WINDOW_MS'' 60000 (RATE_LIMIT_WINDOW_MS e) \<and>
    as_written vars ''RATE_LIMIT_MAX_REQUESTS'' 100 (RATE_LIMIT_MAX_REQUESTS e)"
proof -
  note ok = assms [unfolded parseEnv_Inr EnvSchema_def Let_def, unfolded accepted_iff]
  from ok show ?thesis by (simp only: env.simps coerced_as_written simp_thms)
qed

lemma env_numbers_as_written_witness:
  "\<exists>e. parseEnv (\<lambda>_. True) demo_vars = Inr e \<and> PORT e = 8080 \<and> RATE_LIMIT_MAX_REQUESTS e = 100"
proof -
  obtain e where e: "parseEnv (\<lambda>_. True) demo_vars = Inr e" using demo_parse by blast
  have "digit 8 = CHR ''8''" "digit 0 = CHR ''0''" by code_simp+
  then have "show_int 8080 = ''8080''"
    by (simp add: show_int_def show_nat.simps [of 8080] show_nat.simps [of 808] show_nat.simps [of 80] show_nat.simps [of 8])
  then have v: "demo_vars ''PORT'' = Some (show_int 8080)" "demo_vars ''RATE_LIMIT_MAX_REQUESTS'' = None"
    by (simp_all only:) (simp_all add: demo_vars_def)
  from env_numbers_as_written [OF e] have "as_written demo_vars ''PORT'' 3000 (PORT e)"
    "as_written demo_vars ''RATE_LIMIT_MAX_REQUESTS'' 100 (RATE_LIMIT_MAX_REQUESTS e)" by blast+
  then show ?thesis using e by (simp add: as_written_def v)
qed

section \<open>Routes\<close>

definition well_formed_route :: "(string \<Rightarrow> bool) \<Rightarrow> route_config \<Rightarrow> bool" where
  "well_formed_route url r \<longleftrightarrow> rc_path r \<noteq> [] \<and> url (rc_upstream r) \<and> 0 < rc_timeout_ms r \<and>
     (\<forall>n. rc_rate_limit_override r = Some n \<longrightarrow> 1 \<le> n \<and> n \<le> 100000)"

lemma required_string_ok: "issues (required_string c k v) = [] \<Longrightarrow> c (projr (required_string c k v)) = []"
  by (auto simp: required_string_def check_string_ok)

lemma check_int_no_issues:
  assumes "issues (check_positive_int k u v) = []"
  shows "\<exists>n. check_positive_int k u v = Inr n"
  using assms by (auto simp: check_positive_int_def Let_def split: option.splits if_splits)

lemma limit_ok:
  assumes "issues (nullable (required_int (Some u)) k v) = []" and "projr (nullable (required_int (Some u)) k v) = Some n"
  shows "0 < n \<and> n \<le> u"
proof (cases v)
  case None
  with assms(1) show ?thesis by (simp add: nullable_def required_int_def)
next
  case (Some x)
  then have x: "x \<noteq> JNull" using assms(2) by (auto simp: nullable_def)
  then have eq: "nullable (required_int (Some u)) k v = map_sum id Some (check_positive_int k (Some u) (number_of x))"
    using Some by (cases x) (simp_all add: nullable_def required_int_def)
  have "issues (check_positive_int k (Some u) (number_of x)) = []"
    using assms(1) unfolding eq by (cases "check_positive_int k (Some u) (number_of x)") simp_all
  from check_int_no_issues [OF this] obtain m where m: "check_positive_int k (Some u) (number_of x) = Inr m" by blast
  then have "m = n" using assms(2) unfolding eq by simp
  with check_positive_int_ok [OF m] show ?thesis by simp
qed

lemma timeout_ok:
  assumes "issues (or_default d (required_int None) k v) = []" and "0 < d"
  shows "0 < projr (or_default d (required_int None) k v)"
proof (cases v)
  case None
  with assms(2) show ?thesis by (simp add: or_default_def)
next
  case (Some x)
  then have eq: "or_default d (required_int None) k v = check_positive_int k None (number_of x)"
    by (simp add: or_default_def required_int_def)
  from check_int_no_issues assms(1) obtain m where m: "check_positive_int k None (number_of x) = Inr m" unfolding eq by blast
  with check_positive_int_ok [OF m] eq show ?thesis by simp
qed

lemma path_ok:
  assumes "issues (required_string (\<lambda>s. if length s < 1 then [d] else []) k v) = []"
  shows "projr (required_string (\<lambda>s. if length s < 1 then [d] else []) k v) \<noteq> []"
  using required_string_ok [OF assms] by (auto split: if_splits)

lemma upstream_ok:
  assumes "issues (required_string (is_url url n m) k v) = []"
  shows "url (projr (required_string (is_url url n m) k v))"
  using required_string_ok [OF assms] by (simp add: is_url_Nil)

lemma accepted2_iff: "(if b then Inl d else if f \<noteq> [] then Inl f else Inr x) = Inr y \<longleftrightarrow> \<not> b \<and> f = [] \<and> y = x"
  by auto

lemma routeConfigSchema_ok:
  assumes "routeConfigSchema url v = Inr r"
  shows "well_formed_route url r"
proof -
  note ok = assms [unfolded routeConfigSchema_def Let_def, unfolded accepted2_iff, unfolded append_is_Nil_conv]
  have "0 < rc_timeout_ms r" using ok by (simp only: route_config.simps) (intro timeout_ok, simp_all)
  moreover have "rc_path r \<noteq> []" "url (rc_upstream r)"
    using ok by (simp_all only: route_config.simps path_ok upstream_ok simp_thms)
  moreover have "0 < n \<and> n \<le> 100000" if "rc_rate_limit_override r = Some n" for n
    using ok that by (intro limit_ok) (simp_all only: route_config.simps)
  ultimately show ?thesis by (auto simp: well_formed_route_def int_one_le_iff_zero_less)
qed

lemma route_entries_ok: "route_entries url i vs = Inr rs \<Longrightarrow> r \<in> set rs \<Longrightarrow> well_formed_route url r"
proof (induction vs arbitrary: i rs)
  case (Cons v vs)
  then obtain r1 rs1 where "routeConfigSchema url v = Inr r1" "route_entries url (Suc i) vs = Inr rs1" "rs = r1 # rs1"
    by (auto split: sum.splits)
  then show ?case using Cons routeConfigSchema_ok by auto
qed simp

text \<open>
  Every route the proxy ever serves comes from a validated file: a non-empty pattern, an upstream
  that is a URL, a positive timeout, and an own quota, where there is one, between 1 and 100000.
\<close>

theorem loaded_routes_well_formed:
  assumes "loadRouteConfig P = Inr routes" and "r \<in> set routes"
  shows "rc_path r \<noteq> [] \<and> zodUrl P (rc_upstream r) \<and> 0 < rc_timeout_ms r \<and>
     (\<forall>n. rc_rate_limit_override r = Some n \<longrightarrow> 1 \<le> n \<and> n \<le> 100000)"
  using assms route_entries_ok unfolding well_formed_route_def loadRouteConfig_def routeConfigListSchema_def
  by (fastforce split: sum.splits option.splits json.splits)

text \<open>A route as the configuration file writes it.\<close>

definition route_json :: "route_config \<Rightarrow> json" where
  "route_json r = JObj [(''path'', JStr (rc_path r)), (''upstream'', JStr (rc_upstream r)),
     (''auth_required'', JBool (rc_auth_required r)), (''required_scope'', opt_str (rc_required_scope r)),
     (''allowed_roles'', (case rc_allowed_roles r of None \<Rightarrow> JNull | Some rs \<Rightarrow> JArr (map JStr rs))),
     (''rate_limit_override'', (case rc_rate_limit_override r of None \<Rightarrow> JNull | Some n \<Rightarrow> JInt n)),
     (''strip_prefix'', JBool (rc_strip_prefix r)), (''timeout_ms'', JInt (rc_timeout_ms r)),
     (''audit_allowed_requests'', JBool (rc_audit_allowed_requests r))]"

lemma route_json_wire: "wire_json (route_json r)"
  by (simp add: route_json_def opt_str_def JInt_def list_all_iff split: option.split)

lemma string_items_map: "string_items k i (map JStr ss) = Inr ss"
  by (induction ss arbitrary: i) simp_all

lemma schema_reads:
  assumes "well_formed_route url r" and "rc_timeout_ms r < 10 ^ 15"
  shows "routeConfigSchema url (route_json r) = Inr r"
proof -
  have big: "(10 :: int) ^ 15 \<le> 2 ^ 1024 - 2 ^ 970" "(100000 :: int) < 2 ^ 1024 - 2 ^ 970" by simp_all
  have t: "check_positive_int k None (Some (rc_timeout_ms r, 0)) = Inr (rc_timeout_ms r)" for k
  proof (rule check_positive_int_Inr)
    show "rc_timeout_ms r < 2 ^ 1024 - 2 ^ 970" using assms(2) big(1) by (rule less_le_trans)
  qed (use assms(1) in \<open>auto simp: well_formed_route_def\<close>)
  have l: "check_positive_int k (Some 100000) (Some (n, 0)) = Inr n" if "rc_rate_limit_override r = Some n" for n k
  proof (rule check_positive_int_Inr)
    have n: "1 \<le> n" "n \<le> 100000" using assms(1) that by (auto simp: well_formed_route_def)
    then show "n < 2 ^ 1024 - 2 ^ 970" using big(2) by (intro le_less_trans [of n 100000])
    show "0 < n" "\<forall>u. Some 100000 = Some u \<longrightarrow> n \<le> u" using n by auto
  qed
  have scope: "nullable (required_string (\<lambda>_. [])) k (Some (opt_str (rc_required_scope r))) = Inr (rc_required_scope r)" for k
    by (cases "rc_required_scope r") (simp_all add: nullable_def opt_str_def required_string_def)
  have roles: "nullable required_strings k (Some (case rc_allowed_roles r of None \<Rightarrow> JNull | Some rs \<Rightarrow> JArr (map JStr rs))) =
      Inr (rc_allowed_roles r)" for k
    by (cases "rc_allowed_roles r") (simp_all add: nullable_def required_strings_def string_items_map)
  have limit: "nullable (required_int (Some 100000)) k (Some (case rc_rate_limit_override r of None \<Rightarrow> JNull | Some n \<Rightarrow> JInt n)) =
      Inr (rc_rate_limit_override r)" for k
    using l by (cases "rc_rate_limit_override r") (simp_all add: nullable_def required_int_def JInt_def number_of_def)
  have timeout: "or_default 30000 (required_int None) k (Some (JInt (rc_timeout_ms r))) = Inr (rc_timeout_ms r)" for k
    using t by (simp add: or_default_def required_int_def JInt_def number_of_def)
  have m: "member ''path'' (route_json r) = Some (JStr (rc_path r))"
    "member ''upstream'' (route_json r) = Some (JStr (rc_upstream r))"
    "member ''auth_required'' (route_json r) = Some (JBool (rc_auth_required r))"
    "member ''required_scope'' (route_json r) = Some (opt_str (rc_required_scope r))"
    "member ''allowed_roles'' (route_json r) = Some (case rc_allowed_roles r of None \<Rightarrow> JNull | Some rs \<Rightarrow> JArr (map JStr rs))"
    "member ''rate_limit_override'' (route_json r) = Some (case rc_rate_limit_override r of None \<Rightarrow> JNull | Some n \<Rightarrow> JInt n)"
    "member ''strip_prefix'' (route_json r) = Some (JBool (rc_strip_prefix r))"
    "member ''timeout_ms'' (route_json r) = Some (JInt (rc_timeout_ms r))"
    "member ''audit_allowed_requests'' (route_json r) = Some (JBool (rc_audit_allowed_requests r))"
    by (simp_all add: route_json_def member_def)
  have obj: "is_object (route_json r)" by (simp add: route_json_def is_object_def)
  show ?thesis using assms(1)
    by (simp add: routeConfigSchema_def obj m scope roles limit timeout required_bool_def required_string_def
        or_default_def [of False] is_url_def Let_def well_formed_route_def)
qed

lemma entries_read:
  "\<forall>r \<in> set rs. well_formed_route url r \<and> rc_timeout_ms r < 10 ^ 15 \<Longrightarrow>
     route_entries url i (map route_json rs) = Inr rs"
  by (induction rs arbitrary: i) (simp_all add: schema_reads)

text \<open>
  C36. A configuration is read back as it was written: from a file that lists well-formed routes as
  JSON, the loader returns exactly these routes, in their order, every setting as it stands.
\<close>

theorem route_config_round_trip:
  assumes "\<forall>r \<in> set routes. rc_path r \<noteq> [] \<and> zodUrl P (rc_upstream r) \<and> 0 < rc_timeout_ms r \<and> rc_timeout_ms r < 10 ^ 15 \<and>
     (\<forall>n. rc_rate_limit_override r = Some n \<longrightarrow> 1 \<le> n \<and> n \<le> 100000)"
    and "readFile P (UPSTREAM_SERVICES_CONFIG_PATH (env P)) = Inr (stringify (JArr (map route_json routes)))"
  shows "loadRouteConfig P = Inr routes"
proof -
  have "parse (stringify (JArr (map route_json routes))) = Some (JArr (map route_json routes))"
    by (rule parse_stringify) (simp add: list_all_iff route_json_wire)
  moreover have "route_entries (zodUrl P) 0 (map route_json routes) = Inr routes"
    using assms(1) by (intro entries_read) (simp add: well_formed_route_def)
  ultimately show ?thesis using assms(2) by (simp add: loadRouteConfig_def routeConfigListSchema_def)
qed

section \<open>A configuration file\<close>

definition file_with :: "route_config list \<Rightarrow> mem_redis platform" where
  "file_with routes = demo\<lparr>readFile := \<lambda>_. Inr (stringify (JArr (map route_json routes))),
     pathMatch := \<lambda>pattern path. if pattern = ''/api/:rest*'' then Inl ''Missing parameter name'' else Inr (pattern = path)\<rparr>"

definition plain_route :: "string \<Rightarrow> route_config" where
  "plain_route path = \<lparr>rc_path = path, rc_upstream = ''http://users:8080'', rc_auth_required = False,
     rc_required_scope = None, rc_allowed_roles = None, rc_rate_limit_override = Some 50, rc_strip_prefix = True,
     rc_timeout_ms = 5000, rc_audit_allowed_requests = False\<rparr>"

lemma file_with_simps [simp]: "readFile (file_with rs) p = Inr (stringify (JArr (map route_json rs)))"
  "zodUrl (file_with rs) = zodUrl demo"
  by (simp_all add: file_with_def)

lemma demo_url: "zodUrl demo ''http://users:8080''"
  by (simp add: demo_def startsWith_def)

lemma route_config_round_trip_witness:
  "loadRouteConfig (file_with [plain_route ''/api/a'', plain_route ''/api/:rest*'']) = Inr [plain_route ''/api/a'', plain_route ''/api/:rest*'']"
  by (rule route_config_round_trip) (simp_all add: demo_url plain_route_def)

lemma demo_loaded: "loadRouteConfig (file_with [plain_route ''/api/a'', plain_route ''/api/:rest*'']) = Inr [plain_route ''/api/a'', plain_route ''/api/:rest*'']"
proof -
  let ?rs = "[plain_route ''/api/a'', plain_route ''/api/:rest*'']"
  have "parse (stringify (JArr (map route_json ?rs))) = Some (JArr (map route_json ?rs))"
    by (rule parse_stringify) (simp add: route_json_wire)
  moreover have "route_entries (zodUrl demo) 0 (map route_json ?rs) = Inr ?rs"
    by (rule entries_read) (simp add: well_formed_route_def demo_url plain_route_def)
  ultimately show ?thesis by (simp add: loadRouteConfig_def routeConfigListSchema_def)
qed

lemma loaded_routes_well_formed_witness:
  "\<exists>routes r. loadRouteConfig (file_with [plain_route ''/api/a'', plain_route ''/api/:rest*'']) = Inr routes \<and> r \<in> set routes \<and>
     0 < rc_timeout_ms r"
  using loaded_routes_well_formed [OF demo_loaded, of "plain_route ''/api/a''"] demo_loaded by fastforce

lemma resolve_throws:
  assumes "pathMatch P (rc_path bad) path = Inl m" and "\<forall>r \<in> set before. pathMatch P (rc_path r) path = Inr False"
  shows "resolveRoute P path (before @ bad # after) = Inl (JsError m)"
  using assms by (induction before) simp_all

text \<open>
  The loader does not check that a pattern can be parsed. One that path-to-regexp refuses is
  accepted at startup, and from then on every request that no earlier route takes fails with an
  internal error, status 500, unaudited: the routes behind the bad one, and the 404 answer, are
  unreachable. (A path it cannot decode has the same effect on any route.)
\<close>

theorem bad_pattern_hides_routes:
  assumes "loadRouteConfig P = Inr (before @ bad # after)" and "pathMatch P (rc_path bad) (resourcePath req) = Inl m"
    and "\<forall>r \<in> set before. pathMatch P (rc_path r) (resourcePath req) = Inr False"
  shows "admit P (before @ bad # after) req res w = (Inl (JsError m), w) \<and>
    (\<exists>r w'. errorHandler (JsError m) req res w = (Inr r, w') \<and> rs_status r = 500 \<and> audit_log w' = audit_log w)"
proof -
  have "admit P (before @ bad # after) req res w = (Inl (JsError m), w)"
    unfolding admit_def Let_def resolve_throws [OF assms(2,3)] by simp
  then show ?thesis by (simp add: errorHandler_def await_run log_run send_json_def)
qed

lemma bad_pattern_hides_routes_witness:
  "\<exists>req w. fst (admit (file_with [plain_route ''/api/a'', plain_route ''/api/:rest*'']) [plain_route ''/api/a'', plain_route ''/api/:rest*'']
      req \<lparr>rs_status = 200, rs_headers = [], rs_body = None\<rparr> w) = Inl (JsError ''Missing parameter name'')"
proof -
  let ?rs = "[plain_route ''/api/a'', plain_route ''/api/:rest*'']"
  let ?req = "\<lparr>rq_method = ''GET'', rq_originalUrl = ''/api/b'', rq_url = ''/b'', rq_path = ''/b'', rq_headers = [],
     rq_ip = None, rq_body = JNull, rq_requestId = ''r'', rq_auth = None\<rparr>"
  have l: "loadRouteConfig (file_with ?rs) = Inr ([plain_route ''/api/a''] @ plain_route ''/api/:rest*'' # [])"
    using demo_loaded by simp
  have "resourcePath ?req = ''/api/b''" by (simp add: resourcePath_def)
  then have "pathMatch (file_with ?rs) (rc_path (plain_route ''/api/:rest*'')) (resourcePath ?req) = Inl ''Missing parameter name''"
    "\<forall>r \<in> set [plain_route ''/api/a'']. pathMatch (file_with ?rs) (rc_path r) (resourcePath ?req) = Inr False"
    by (simp_all add: file_with_def plain_route_def)
  from bad_pattern_hides_routes [OF l this, THEN conjunct1] show ?thesis
    by (intro exI [of _ ?req] exI [of _ world0]) simp
qed

end
