(* ===== verification/Lifecycle.thy ===== *)
theory Lifecycle
  imports World
begin

text \<open>
  The end of the process: \<open>shutdown\<close> of \<open>src/index.ts\<close>, the signal handlers, and the handlers
  that give up at once. What the HTTP server, the pool and the Redis client do is an argument.
\<close>

section \<open>What the process does\<close>

datatype step = Logged log_level string | EndPool | QuitRedis | Exit nat

text \<open>
  What ends the wait for open requests: \<open>server.close\<close> calls back, with an error or without, or
  the timer of ten seconds fires first.
\<close>

datatype drain = CalledBack "exn option" | TimedOut

text \<open>The pool's \<open>end\<close> and the client's \<open>quit\<close>: the error they reject with, if they do.\<close>

record teardown =
  td_drain :: drain
  td_pool :: "exn option"
  td_redis :: "exn option"

type_synonym 'a proc = "(step list, exn, 'a) io"

definition perform :: "step \<Rightarrow> unit proc" where
  "perform s = modify (\<lambda>done. done @ [s])"

definition settle_with :: "exn option \<Rightarrow> unit proc" where
  "settle_with r = (case r of None \<Rightarrow> pure () | Some e \<Rightarrow> throw e)"

text \<open>The dash of the messages, in the three bytes of its UTF-8 form.\<close>

abbreviation DASH :: string where
  "DASH \<equiv> [CHR 0xE2, CHR 0x80, CHR 0x94]"

definition wait_for_requests :: "drain \<Rightarrow> unit proc" where
  "wait_for_requests d = (case d of
       CalledBack r \<Rightarrow> settle_with r
     | TimedOut \<Rightarrow> perform (Logged LogWarn (''Graceful shutdown timed out '' @ DASH @ '' forcing exit'')))"

definition shutdown :: "teardown \<Rightarrow> unit proc" where
  "shutdown t =
     await (perform (Logged LogInfo (''Received shutdown signal '' @ DASH @ '' starting graceful shutdown''))) (\<lambda>_.
     await (wait_for_requests (td_drain t)) (\<lambda>_.
     await (try_catch (await (perform EndPool) (\<lambda>_. await (settle_with (td_pool t)) (\<lambda>_.
         perform (Logged LogInfo ''Database pool closed''))))
       (\<lambda>err. perform (Logged LogWarn ''Error closing database pool''))) (\<lambda>_.
     await (try_catch (await (perform QuitRedis) (\<lambda>_. await (settle_with (td_redis t)) (\<lambda>_.
         perform (Logged LogInfo ''Redis connection closed''))))
       (\<lambda>err. perform (Logged LogWarn ''Error closing Redis connection''))) (\<lambda>_.
     await (perform (Logged LogInfo ''Shutdown complete'')) (\<lambda>_.
     perform (Exit 0))))))"

definition handleSignal :: "teardown \<Rightarrow> unit proc" where
  "handleSignal t = try_catch (shutdown t) (\<lambda>err.
     await (perform (Logged LogError ''Unhandled error during shutdown'')) (\<lambda>_. perform (Exit 1)))"

definition onServerError :: "bool \<Rightarrow> unit proc" where
  "onServerError inUse = await (perform (Logged LogError (if inUse then ''Port already in use'' else ''HTTP server error'')))
     (\<lambda>_. perform (Exit 1))"

definition onUnhandledRejection :: "unit proc" where
  "onUnhandledRejection = await (perform (Logged LogError (''Unhandled promise rejection '' @ DASH @ '' exiting''))) (\<lambda>_. perform (Exit 1))"

section \<open>The process ends\<close>

definition effects :: "step list \<Rightarrow> step list" where
  "effects ss = filter (\<lambda>s. case s of Logged _ _ \<Rightarrow> False | _ \<Rightarrow> True) ss"

lemma effects_simps [simp]:
  "effects [] = []" "effects (ss @ ts) = effects ss @ effects ts" "effects (Logged l m # ss) = effects ss"
  "effects (EndPool # ss) = EndPool # effects ss" "effects (QuitRedis # ss) = QuitRedis # effects ss"
  "effects (Exit n # ss) = Exit n # effects ss"
  by (simp_all add: effects_def)

text \<open>
  A signal always ends the process, however the server, the database and Redis behave: after the
  open requests or ten seconds, the pool is closed, then Redis, each tried even when the one before
  failed, and the exit status is 0; only when the server could not be closed is nothing torn down, and
  the status is 1.
\<close>

theorem handleSignal_exits:
  "effects (snd (handleSignal t [])) = (case td_drain t of
     CalledBack (Some e) \<Rightarrow> [Exit 1] | _ \<Rightarrow> [EndPool, QuitRedis, Exit 0])"
  by (cases "td_pool t"; cases "td_redis t")
    (auto simp: handleSignal_def shutdown_def wait_for_requests_def settle_with_def perform_def try_catch_def await_run
      split: drain.split option.split)

end
